(* ===== verification/Prelude.thy ===== *)
theory Prelude
  imports Main "HOL-Library.Sublist" "HOL-Library.AList"
begin

text \<open>
  Shared vocabulary of the development: Go's strings and error values, the longest-common-prefix
  loop of the router, and the generic list and map lemmas the components rely on.
\<close>

named_theorems ctx_simps \<open>facts on cancellation contexts\<close>
named_theorems hub_defs \<open>definitions of the hub's operations\<close>
named_theorems node_defs \<open>definitions of the router tree's node operations\<close>
named_theorems conn_defs \<open>definitions of the Action Cable connection's operations\<close>

section \<open>Error values\<close>

text \<open>
  A Go \<^verbatim>\<open>error\<close> is an \<open>error option\<close>, with \<open>None\<close> for \<^verbatim>\<open>nil\<close>. \<open>Errorf\<close> stands for an error made
  by \<^verbatim>\<open>errors.New\<close> or \<^verbatim>\<open>errors.Errorf\<close> and carries the format string only; \<open>Wrapped\<close> for an error
  annotated by \<^verbatim>\<open>errors.Wrap\<close> or \<^verbatim>\<open>errors.Wrapf\<close>; \<open>CloseError\<close> for a websocket close frame with its
  status code; \<open>ExternalError\<close> for an error produced by code outside the repository.
\<close>

datatype error =
    Canceled
  | CloseError nat
  | ExternalError string
  | Errorf string
  | Wrapped string error

text \<open>\<^verbatim>\<open>errors.Is\<close> follows the chain of wrapped errors.\<close>

fun errors_Is :: "error \<Rightarrow> error \<Rightarrow> bool" where
  "errors_Is (Wrapped m e) target = (Wrapped m e = target \<or> errors_Is e target)"
| "errors_Is e target = (e = target)"

text \<open>\<^verbatim>\<open>errors.Wrap(nil, ...)\<close> is \<^verbatim>\<open>nil\<close>.\<close>

definition errors_Wrap :: "error option \<Rightarrow> string \<Rightarrow> error option" where
  "errors_Wrap e m = map_option (Wrapped m) e"

lemma errors_Wrap_simps [simp]:
  "errors_Wrap None m = None"
  "errors_Wrap (Some e) m = Some (Wrapped m e)"
  "errors_Wrap x m = None \<longleftrightarrow> x = None"
  by (simp_all add: errors_Wrap_def)

lemma errors_Is_refl [simp]: "errors_Is e e"
  by (cases e) simp_all

text \<open>The run-time panics the modelled code can raise.\<close>

datatype panic = NilMapWrite | IndexOutOfRange | NilDereference | CloseOfClosed

text \<open>
  The result of a call that may not return (\<open>None\<close>, a loop out of fuel), may panic, or returns a value.
\<close>

type_synonym 'a go = "(panic + 'a) option"

definition go_return :: "'a \<Rightarrow> 'a go" where
  "go_return x = Some (Inr x)"

definition go_bind :: "'a go \<Rightarrow> ('a \<Rightarrow> 'b go) \<Rightarrow> 'b go" where
  "go_bind m f = (case m of None \<Rightarrow> None | Some (Inl p) \<Rightarrow> Some (Inl p) | Some (Inr x) \<Rightarrow> f x)"

lemma go_simps [simp]:
  "go_bind (go_return x) f = f x"
  "go_bind (Some (Inr x)) f = f x"
  "go_bind (Some (Inl p)) f = Some (Inl p)"
  "go_bind None f = None"
  by (simp_all add: go_bind_def go_return_def)

lemma go_return_inject [simp]: "go_return x = Some (Inr y) \<longleftrightarrow> x = y"
  by (simp add: go_return_def)

lemma go_bind_Some_Inr [simp]:
  "go_bind m f = Some (Inr y) \<longleftrightarrow> (\<exists>x. m = Some (Inr x) \<and> f x = Some (Inr y))"
  by (auto simp: go_bind_def split: option.splits sum.splits)

section \<open>Longest common prefix\<close>

text \<open>
  The loop \<^verbatim>\<open>for ; lcpLen < max && search[lcpLen] == prefix[lcpLen]; lcpLen++ {}\<close> that both
  \<^verbatim>\<open>insert\<close> and \<^verbatim>\<open>Find\<close> of the router run, started at 0.
\<close>

function lcp_from :: "string \<Rightarrow> string \<Rightarrow> nat \<Rightarrow> nat" where
  "lcp_from s p i =
     (if i < min (length p) (length s) \<and> s ! i = p ! i then lcp_from s p (Suc i) else i)"
  by pat_completeness auto
termination
  by (relation "measure (\<lambda>(s, p, i). length p - i)") auto

declare lcp_from.simps [simp del]

definition lcpLen :: "string \<Rightarrow> string \<Rightarrow> nat" where
  "lcpLen s p = lcp_from s p 0"

lemma lcp_from_Cons: "lcp_from (x # s) (y # p) (Suc i) = Suc (lcp_from s p i)"
proof (induction s p i rule: lcp_from.induct)
  case (1 s p i)
  then show ?case
    using lcp_from.simps [of "x # s" "y # p" "Suc i"] lcp_from.simps [of s p i] by auto
qed

lemma lcpLen_simps [simp]:
  "lcpLen [] p = 0"
  "lcpLen s [] = 0"
  "lcpLen (x # s) (y # p) = (if x = y then Suc (lcpLen s p) else 0)"
  unfolding lcpLen_def by (subst lcp_from.simps; simp add: lcp_from_Cons)+

lemma lcpLen_le: "lcpLen s p \<le> length s" "lcpLen s p \<le> length p"
  by (induction s p rule: list_induct2') auto

lemma lcpLen_take: "take (lcpLen s p) s = take (lcpLen s p) p"
  by (induction s p rule: list_induct2') auto

lemma lcpLen_full: "lcpLen s p = length p \<longleftrightarrow> take (length p) s = p"
  by (induction s p rule: list_induct2') auto

lemma lcpLen_append [simp]: "lcpLen (p @ s) p = length p"
  by (simp add: lcpLen_full)

lemma lcpLen_mismatch:
  "lcpLen s p < length s \<Longrightarrow> lcpLen s p < length p \<Longrightarrow> s ! lcpLen s p \<noteq> p ! lcpLen s p"
  by (induction s p rule: list_induct2') auto

text \<open>Splitting both strings at their longest common prefix.\<close>

lemma lcpLen_split:
  obtains c s' p' where "s = c @ s'" "p = c @ p'" "lcpLen s p = length c"
    "s' = [] \<or> p' = [] \<or> hd s' \<noteq> hd p'"
proof
  show "s = take (lcpLen s p) s @ drop (lcpLen s p) s" by simp
  show "p = take (lcpLen s p) s @ drop (lcpLen s p) p"
    by (simp add: lcpLen_take)
  show "lcpLen s p = length (take (lcpLen s p) s)"
    by (simp add: lcpLen_le)
  show "drop (lcpLen s p) s = [] \<or> drop (lcpLen s p) p = [] \<or>
      hd (drop (lcpLen s p) s) \<noteq> hd (drop (lcpLen s p) p)"
    using lcpLen_mismatch [of s p] by (auto simp: hd_drop_conv_nth not_le)
qed

section \<open>Lists and association lists\<close>

text \<open>
  A Go map that the code iterates over or measures is an association list with distinct keys, in
  no particular order; \<open>map_of\<close> reads it, \<open>AList.update\<close> writes it and \<open>AList.delete\<close> is Go's
  \<^verbatim>\<open>delete\<close>.
\<close>

lemma map_of_update [simp]: "map_of (AList.update k v m) = (map_of m)(k \<mapsto> v)"
  by (rule update_conv')

lemma map_of_delete [simp]: "map_of (AList.delete k m) = (map_of m)(k := None)"
  by (rule delete_conv')

lemma distinct_keys_update [simp]:
  "distinct (map fst m) \<Longrightarrow> distinct (map fst (AList.update k v m))"
  by (rule distinct_update)

lemma distinct_keys_delete [simp]:
  "distinct (map fst m) \<Longrightarrow> distinct (map fst (AList.delete k m))"
  by (rule distinct_delete)

lemma in_values_iff:
  "distinct (map fst m) \<Longrightarrow> v \<in> snd ` set m \<longleftrightarrow> (\<exists>k. map_of m k = Some v)"
  by force

lemma update_absent: "map_of m i = None \<Longrightarrow> AList.update i d m = m @ [(i, d)]"
  by (induction m) (auto split: if_splits)

lemma values_delete:
  assumes "distinct (map fst m)" and "map_of m i = Some u"
  shows "snd ` set m \<subseteq> insert u (snd ` set (AList.delete i m))"
proof
  fix x assume "x \<in> snd ` set m"
  then obtain k where kx: "(k, x) \<in> set m" by force
  show "x \<in> insert u (snd ` set (AList.delete i m))"
  proof (cases "k = i")
    case True
    with kx assms show ?thesis by simp
  next
    case False
    with kx have "(k, x) \<in> set (AList.delete i m)" by (simp add: AList.delete_eq)
    then show ?thesis by force
  qed
qed

lemma find_SomeD: "List.find P xs = Some x \<Longrightarrow> x \<in> set xs \<and> P x"
  by (induction xs) (auto split: if_splits)

lemma find_None_iff_ball: "List.find P xs = None \<longleftrightarrow> (\<forall>x\<in>set xs. \<not> P x)"
  by (induction xs) auto

lemma find_append:
  "List.find P (xs @ ys) = (case List.find P xs of None \<Rightarrow> List.find P ys | Some x \<Rightarrow> Some x)"
  by (induction xs) auto

end
