(* ===== verification/GoContext.thy ===== *)
theory GoContext
  imports Prelude
begin

text \<open>
  Go's cancellation contexts (\<^verbatim>\<open>context.Context\<close>), as far as the repository uses them:
  \<^verbatim>\<open>context.WithCancel\<close>, the returned \<^verbatim>\<open>CancelFunc\<close>, \<^verbatim>\<open>Done\<close> and \<^verbatim>\<open>Err\<close>. A context is named by
  the path of child numbers that leads to it from the background context, so that its ancestors
  are the prefixes of its name. \<open>cancelled\<close> holds the contexts whose own cancel function has been
  called, \<open>fresh\<close> the next unused child number.
\<close>

type_synonym ctx = "nat list"

record ctxs =
  cancelled :: "ctx set"
  fresh :: nat

definition Background :: ctx where
  "Background = []"

definition initial_ctxs :: ctxs where
  "initial_ctxs = \<lparr>cancelled = {}, fresh = 0\<rparr>"

text \<open>A context is done once it or one of its ancestors has been cancelled.\<close>

definition ctx_Done :: "ctxs \<Rightarrow> ctx \<Rightarrow> bool" where
  "ctx_Done g c \<longleftrightarrow> (\<exists>p\<in>cancelled g. prefix p c)"

definition ctx_Err :: "ctxs \<Rightarrow> ctx \<Rightarrow> error option" where
  "ctx_Err g c = (if ctx_Done g c then Some Canceled else None)"

definition WithCancel :: "ctx \<Rightarrow> ctxs \<Rightarrow> ctxs \<times> ctx" where
  "WithCancel c g = (g\<lparr>fresh := Suc (fresh g)\<rparr>, c @ [fresh g])"

definition ctx_cancel :: "ctx \<Rightarrow> ctxs \<Rightarrow> ctxs" where
  "ctx_cancel c g = g\<lparr>cancelled := insert c (cancelled g)\<rparr>"

text \<open>Child numbers of cancelled contexts have been handed out before.\<close>

definition ctxs_wf :: "ctxs \<Rightarrow> bool" where
  "ctxs_wf g \<longleftrightarrow> (\<forall>c\<in>cancelled g. \<forall>k\<in>set c. k < fresh g)"

text \<open>A context that exists in \<open>g\<close>.\<close>

definition ctx_known :: "ctxs \<Rightarrow> ctx \<Rightarrow> bool" where
  "ctx_known g c \<longleftrightarrow> (\<forall>k\<in>set c. k < fresh g)"

section \<open>The cancellation interface\<close>

text \<open>
  What the rest of the code relies on: cancelling is permanent and affects a context and its
  descendants only, and a context derived from another is done exactly when the other is.
\<close>

locale cancellation =
  fixes done_in :: "'g \<Rightarrow> 'c \<Rightarrow> bool"
    and derive :: "'c \<Rightarrow> 'g \<Rightarrow> 'g \<times> 'c"
    and cancel_in :: "'c \<Rightarrow> 'g \<Rightarrow> 'g"
    and known :: "'g \<Rightarrow> 'c \<Rightarrow> bool"
    and inv :: "'g \<Rightarrow> bool"
  assumes cancel_done: "done_in (cancel_in c g) c"
    and cancel_mono: "done_in g d \<Longrightarrow> done_in (cancel_in c g) d"
    and cancel_inv: "inv g \<Longrightarrow> known g c \<Longrightarrow> inv (cancel_in c g)"
    and cancel_known: "known g d \<Longrightarrow> known (cancel_in c g) d"
    and derive_done: "inv g \<Longrightarrow> derive c g = (g', d) \<Longrightarrow> done_in g' d \<longleftrightarrow> done_in g c"
    and derive_same: "derive c g = (g', d) \<Longrightarrow> done_in g' x \<longleftrightarrow> done_in g x"
    and derive_inv: "inv g \<Longrightarrow> derive c g = (g', d) \<Longrightarrow> inv g'"
    and derive_known: "known g c \<Longrightarrow> derive c g = (g', d) \<Longrightarrow> known g' d"
    and derive_known_mono: "known g x \<Longrightarrow> derive c g = (g', d) \<Longrightarrow> known g' x"
    and derive_follows: "derive c g = (g', d) \<Longrightarrow> done_in (cancel_in c h) d"
begin

lemma fold_cancel_mono: "done_in g d \<Longrightarrow> done_in (fold cancel_in cs g) d"
  by (induction cs arbitrary: g) (simp_all add: cancel_mono)

lemma fold_cancel_done: "c \<in> set cs \<Longrightarrow> done_in (fold cancel_in cs g) c"
proof (induction cs arbitrary: g)
  case (Cons a cs)
  then show ?case
    by (cases "c = a") (simp_all add: fold_cancel_mono cancel_done)
qed simp

lemma fold_cancel_inv:
  "inv g \<Longrightarrow> (\<And>c. c \<in> set cs \<Longrightarrow> known g c) \<Longrightarrow> inv (fold cancel_in cs g)"
  by (induction cs arbitrary: g) (simp_all add: cancel_inv cancel_known)

lemma fold_cancel_known: "known g d \<Longrightarrow> known (fold cancel_in cs g) d"
  by (induction cs arbitrary: g) (simp_all add: cancel_known)

end

lemma fresh_not_cancelled: "ctxs_wf g \<Longrightarrow> c @ [fresh g] \<notin> cancelled g"
  by (fastforce simp: ctxs_wf_def)

lemma WithCancel_Done:
  "ctxs_wf g \<Longrightarrow> WithCancel c g = (g', d) \<Longrightarrow> ctx_Done g' d \<longleftrightarrow> ctx_Done g c"
  by (auto simp: ctx_Done_def WithCancel_def dest: fresh_not_cancelled)

interpretation gctx: cancellation ctx_Done WithCancel ctx_cancel ctx_known ctxs_wf
  by unfold_locales
    (use WithCancel_Done in \<open>auto simp: ctx_Done_def ctx_cancel_def WithCancel_def ctxs_wf_def
      ctx_known_def less_Suc_eq\<close>)

lemma initial_ctxs_wf [simp]: "ctxs_wf initial_ctxs"
  by (simp add: ctxs_wf_def initial_ctxs_def)

lemma Background_known [simp]: "ctx_known g Background"
  by (simp add: ctx_known_def Background_def)

lemma ctx_Done_initial [simp]: "\<not> ctx_Done initial_ctxs c"
  by (simp add: ctx_Done_def initial_ctxs_def)

lemma ctx_Done_cancel [simp]: "ctx_Done (ctx_cancel d g) c \<longleftrightarrow> ctx_Done g c \<or> prefix d c"
  by (auto simp: ctx_Done_def ctx_cancel_def)

lemma ctx_Err_None_iff [simp]: "ctx_Err g c = None \<longleftrightarrow> \<not> ctx_Done g c"
  by (simp add: ctx_Err_def)

end
