(* ===== verification/Hub.thy ===== *)
theory Hub
  imports GoContext
begin

text \<open>
  The publish/subscribe hub (\<^verbatim>\<open>src/pubsub/hub.go\<close>). Every method of \<^verbatim>\<open>Hub\<close> but \<^verbatim>\<open>Broadcast\<close> runs
  its whole body under the write lock, so each is one transition of the hub's state here; the lock
  itself, and \<^verbatim>\<open>Broadcast\<close>, are the subject of theory \<open>HubLock\<close>.
\<close>

section \<open>State\<close>

text \<open>
  A receiver gets a message and sees which contexts are done; it returns an error or nil, and the contexts
  whose cancel functions it has called.
\<close>

type_synonym 'm ReceiveFunc = "'m \<Rightarrow> ctxs \<Rightarrow> error option \<times> ctx list"

text \<open>
  \<^verbatim>\<open>subscription\<close>: the pointer's identity is \<open>sid\<close>; the other fields are never written after the
  subscription is made. \<open>sub_cancel\<close> is the context that the stored \<^verbatim>\<open>cancel\<close> function cancels.
\<close>

record 'm subscription =
  sid :: nat
  topic :: string
  receive :: "'m ReceiveFunc"
  sub_cancel :: ctx

record BroadcastingChange =
  Added :: "string list"
  Removed :: "string list"

text \<open>A Go map with subscription pointers as keys: a finite set, kept as a list in no particular order.\<close>

type_synonym 'm broadcasting = "'m subscription list"

text \<open>
  \<open>broadcastings = None\<close> is Go's nil map, which \<^verbatim>\<open>Close\<close> leaves behind, and \<open>brChanges\<close> says
  whether the channel is non-nil. The other fields are the hub's surroundings: the next unused
  subscription pointer, the goroutines started by \<^verbatim>\<open>Subscribe\<close> that still wait for their
  subscription's context, the values sent on the channel so far, whether the channel was closed,
  and the cancellation contexts.
\<close>

record 'm hub =
  broadcastings :: "(string \<times> 'm broadcasting) list option"
  brChanges :: bool
  next_sid :: nat
  watchers :: "'m subscription list"
  emitted :: "BroadcastingChange list"
  chan_closed :: bool
  contexts :: ctxs

section \<open>Operations\<close>

definition NewHub :: "bool \<Rightarrow> ctxs \<Rightarrow> 'm hub" where
  "NewHub withChanges g =
     \<lparr>broadcastings = Some [], brChanges = withChanges, next_sid = 0, watchers = [],
      emitted = [], chan_closed = False, contexts = g\<rparr>"

text \<open>Reading a nil map finds nothing.\<close>

definition hub_lookup :: "'m hub \<Rightarrow> string \<Rightarrow> 'm broadcasting option" where
  "hub_lookup h t = (case broadcastings h of None \<Rightarrow> None | Some m \<Rightarrow> map_of m t)"

definition cancel_subs :: "'m subscription list \<Rightarrow> 'm hub \<Rightarrow> 'm hub" where
  "cancel_subs ss h = h\<lparr>contexts := fold (\<lambda>s. ctx_cancel (sub_cancel s)) ss (contexts h)\<rparr>"

text \<open>\<^verbatim>\<open>delete(h.broadcastings, topic)\<close>; on a nil map it does nothing.\<close>

definition delete_topic :: "string \<Rightarrow> 'm hub \<Rightarrow> 'm hub" where
  "delete_topic t h = h\<lparr>broadcastings := map_option (AList.delete t) (broadcastings h)\<rparr>"

definition store_topic :: "string \<Rightarrow> 'm broadcasting \<Rightarrow> 'm hub \<Rightarrow> 'm hub" where
  "store_topic t br h = h\<lparr>broadcastings := map_option (AList.update t br) (broadcastings h)\<rparr>"

definition send_change :: "BroadcastingChange \<Rightarrow> 'm hub \<Rightarrow> 'm hub" where
  "send_change c h = h\<lparr>emitted := emitted h @ [c]\<rparr>"

definition hub_Close :: "'m hub \<Rightarrow> 'm hub" where
  "hub_Close h =
     (let brs = (case broadcastings h of None \<Rightarrow> [] | Some m \<Rightarrow> map snd m);
          h = cancel_subs (concat brs) h;
          h = (if brChanges h then h\<lparr>chan_closed := True\<rparr> else h)
      in h\<lparr>broadcastings := None, brChanges := False\<rparr>)"

text \<open>
  \<^verbatim>\<open>Subscribe\<close> returns the done channel of the subscription's context, here the subscription itself.
  On a nil map, storing the new broadcasting panics.
\<close>

definition hub_Subscribe ::
  "ctx \<Rightarrow> string \<Rightarrow> 'm ReceiveFunc \<Rightarrow> 'm hub \<Rightarrow> panic + ('m hub \<times> 'm subscription)" where
  "hub_Subscribe c t rcv h =
     (let (g, cctx) = WithCancel c (contexts h);
          s = \<lparr>sid = next_sid h, topic = t, receive = rcv, sub_cancel = cctx\<rparr>;
          addedTopic = (hub_lookup h t = None);
          br = (case hub_lookup h t of None \<Rightarrow> [] | Some br \<Rightarrow> br);
          h = h\<lparr>contexts := g, next_sid := Suc (next_sid h)\<rparr>
      in if addedTopic \<and> broadcastings h = None then Inl NilMapWrite
         else
           let h = store_topic t (br @ [s]) h;
               h = (if brChanges h \<and> addedTopic
                    then send_change \<lparr>Added = [t], Removed = []\<rparr> h else h)
           in Inr (h\<lparr>watchers := watchers h @ [s]\<rparr>, s))"

fun hub_Cancel_loop :: "string list \<Rightarrow> 'm hub \<Rightarrow> 'm hub" where
  "hub_Cancel_loop [] h = h"
| "hub_Cancel_loop (t # ts) h =
     (case hub_lookup h t of
        None \<Rightarrow> hub_Cancel_loop ts h
      | Some br \<Rightarrow> hub_Cancel_loop ts (delete_topic t (cancel_subs br h)))"

definition hub_Cancel :: "string list \<Rightarrow> 'm hub \<Rightarrow> 'm hub" where
  "hub_Cancel topics h =
     (let h = hub_Cancel_loop topics h
      in if brChanges h \<and> topics \<noteq> [] then send_change \<lparr>Added = [], Removed = topics\<rparr> h else h)"

fun hub_unsubscribe_loop ::
  "'m subscription list \<Rightarrow> string list \<Rightarrow> 'm hub \<Rightarrow> 'm hub \<times> string list" where
  "hub_unsubscribe_loop [] removedTopics h = (h, removedTopics)"
| "hub_unsubscribe_loop (s # ss) removedTopics h =
     (case hub_lookup h (topic s) of
        None \<Rightarrow> hub_unsubscribe_loop ss removedTopics h
      | Some br \<Rightarrow>
          let br = filter (\<lambda>x. sid x \<noteq> sid s) br;
              (h, removedTopics) =
                (if br = [] then (delete_topic (topic s) h, removedTopics @ [topic s])
                 else (store_topic (topic s) br h, removedTopics))
          in hub_unsubscribe_loop ss removedTopics (cancel_subs [s] h))"

definition hub_unsubscribe :: "'m subscription list \<Rightarrow> 'm hub \<Rightarrow> 'm hub" where
  "hub_unsubscribe ss h =
     (if ss = [] then h
      else
        let (h, removedTopics) = hub_unsubscribe_loop ss [] h
        in if brChanges h \<and> removedTopics \<noteq> []
           then send_change \<lparr>Added = [], Removed = removedTopics\<rparr> h else h)"

text \<open>
  The goroutine that \<^verbatim>\<open>Subscribe\<close> starts: once the subscription's context is done, it unsubscribes
  and ends.
\<close>

definition hub_watcher :: "'m subscription \<Rightarrow> 'm hub \<Rightarrow> 'm hub" where
  "hub_watcher s h =
     (let h = hub_unsubscribe [s] h
      in h\<lparr>watchers := filter (\<lambda>x. sid x \<noteq> sid s) (watchers h)\<rparr>)"

section \<open>Reading the hub after a primitive update\<close>

definition the_default :: "'a \<Rightarrow> 'a option \<Rightarrow> 'a" where
  "the_default d x = (case x of None \<Rightarrow> d | Some y \<Rightarrow> y)"

lemma the_default_simps [simp]: "the_default d None = d" "the_default d (Some x) = x"
  by (simp_all add: the_default_def)

lemma hub_lookup_cancel_subs [simp]: "hub_lookup (cancel_subs ss h) = hub_lookup h"
  by (simp add: fun_eq_iff hub_lookup_def cancel_subs_def)

lemma hub_lookup_send_change [simp]: "hub_lookup (send_change c h) = hub_lookup h"
  by (simp add: fun_eq_iff hub_lookup_def send_change_def)

lemma hub_lookup_delete_topic [simp]: "hub_lookup (delete_topic t h) = (hub_lookup h)(t := None)"
  by (simp add: fun_eq_iff hub_lookup_def delete_topic_def split: option.split)

lemma hub_lookup_store_topic [simp]:
  "broadcastings h \<noteq> None \<Longrightarrow> hub_lookup (store_topic t br h) = (hub_lookup h)(t \<mapsto> br)"
  by (auto simp: fun_eq_iff hub_lookup_def store_topic_def split: option.split)

lemma hub_lookup_SomeD: "hub_lookup h t = Some br \<Longrightarrow> broadcastings h \<noteq> None"
  by (auto simp: hub_lookup_def split: option.splits)

lemma hub_lookup_other_fields [simp]:
  "hub_lookup (h\<lparr>contexts := g\<rparr>) = hub_lookup h"
  "hub_lookup (h\<lparr>next_sid := n\<rparr>) = hub_lookup h"
  "hub_lookup (h\<lparr>watchers := ws\<rparr>) = hub_lookup h"
  by (simp_all add: fun_eq_iff hub_lookup_def)

lemma primitive_frame [simp]:
  "broadcastings (cancel_subs ss h) = broadcastings h"
  "broadcastings (send_change c h) = broadcastings h"
  "brChanges (cancel_subs ss h) = brChanges h"
  "brChanges (send_change c h) = brChanges h"
  "brChanges (delete_topic t h) = brChanges h"
  "brChanges (store_topic t br h) = brChanges h"
  "next_sid (cancel_subs ss h) = next_sid h"
  "next_sid (send_change c h) = next_sid h"
  "next_sid (delete_topic t h) = next_sid h"
  "next_sid (store_topic t br h) = next_sid h"
  "watchers (cancel_subs ss h) = watchers h"
  "watchers (send_change c h) = watchers h"
  "watchers (delete_topic t h) = watchers h"
  "watchers (store_topic t br h) = watchers h"
  "emitted (cancel_subs ss h) = emitted h"
  "emitted (send_change c h) = emitted h @ [c]"
  "emitted (delete_topic t h) = emitted h"
  "emitted (store_topic t br h) = emitted h"
  "contexts (send_change c h) = contexts h"
  "contexts (delete_topic t h) = contexts h"
  "contexts (store_topic t br h) = contexts h"
  by (simp_all add: cancel_subs_def send_change_def delete_topic_def store_topic_def)

lemma contexts_cancel_subs:
  "contexts (cancel_subs ss h) = fold ctx_cancel (map sub_cancel ss) (contexts h)"
  by (simp add: cancel_subs_def fold_map comp_def)

section \<open>Well-formed hubs\<close>

definition sub_active :: "'m hub \<Rightarrow> 'm subscription \<Rightarrow> bool" where
  "sub_active h s \<longleftrightarrow> (\<exists>br. hub_lookup h (topic s) = Some br \<and> s \<in> set br)"

text \<open>
  The keys of the map are distinct; a hub that lost its map has lost its channel; a topic of the
  map has at least one subscription, all of them on that topic and all of them watched by the
  goroutine that will remove them; subscription pointers and contexts have been allocated.
\<close>

definition hub_keys :: "'m hub \<Rightarrow> bool" where
  "hub_keys h \<longleftrightarrow> (case broadcastings h of None \<Rightarrow> \<not> brChanges h | Some m \<Rightarrow> distinct (map fst m))"

definition topic_ok :: "'m subscription list \<Rightarrow> string \<Rightarrow> 'm broadcasting \<Rightarrow> bool" where
  "topic_ok ws t br \<longleftrightarrow>
     br \<noteq> [] \<and> distinct (map sid br) \<and> (\<forall>s\<in>set br. topic s = t \<and> s \<in> set ws)"

definition watchers_ok :: "'m hub \<Rightarrow> bool" where
  "watchers_ok h \<longleftrightarrow>
     distinct (map sid (watchers h)) \<and>
     (\<forall>s\<in>set (watchers h). sid s < next_sid h \<and> ctx_known (contexts h) (sub_cancel s))"

definition hub_inv :: "'m hub \<Rightarrow> bool" where
  "hub_inv h \<longleftrightarrow>
     hub_keys h \<and> (\<forall>t br. hub_lookup h t = Some br \<longrightarrow> topic_ok (watchers h) t br) \<and>
     watchers_ok h \<and> ctxs_wf (contexts h)"

lemma hub_keys_simps [simp]:
  "hub_keys h \<Longrightarrow> hub_keys (cancel_subs ss h)"
  "hub_keys h \<Longrightarrow> hub_keys (send_change c h)"
  "hub_keys h \<Longrightarrow> hub_keys (delete_topic t h)"
  "hub_keys h \<Longrightarrow> hub_keys (store_topic t br h)"
  by (auto simp: hub_keys_def delete_topic_def store_topic_def cancel_subs_def send_change_def
      split: option.splits)

lemma hub_keys_other_fields [simp]:
  "hub_keys (h\<lparr>watchers := ws\<rparr>) = hub_keys h"
  "hub_keys (h\<lparr>contexts := g\<rparr>) = hub_keys h"
  "hub_keys (h\<lparr>next_sid := n\<rparr>) = hub_keys h"
  by (simp_all add: hub_keys_def split: option.split)

lemma hub_inv_topic: "hub_inv h \<Longrightarrow> hub_lookup h t = Some br \<Longrightarrow> topic_ok (watchers h) t br"
  by (simp add: hub_inv_def)

lemma hub_inv_NewHub [simp]: "ctxs_wf g \<Longrightarrow> hub_inv (NewHub w g)"
  by (simp add: hub_inv_def NewHub_def hub_keys_def hub_lookup_def watchers_ok_def)

lemma hub_inv_send_change [simp]: "hub_inv h \<Longrightarrow> hub_inv (send_change c h)"
  by (simp add: hub_inv_def watchers_ok_def)

lemma hub_inv_delete_topic [simp]: "hub_inv h \<Longrightarrow> hub_inv (delete_topic t h)"
  by (simp add: hub_inv_def watchers_ok_def)

lemma hub_inv_store_topic:
  "hub_inv h \<Longrightarrow> broadcastings h \<noteq> None \<Longrightarrow> topic_ok (watchers h) t br \<Longrightarrow> hub_inv (store_topic t br h)"
  by (simp add: hub_inv_def watchers_ok_def)

lemma hub_inv_cancel_subs:
  assumes "hub_inv h" and "set ss \<subseteq> set (watchers h)"
  shows "hub_inv (cancel_subs ss h)"
proof -
  have k: "ctx_known (contexts h) c" if "c \<in> set (map sub_cancel ss)" for c
    using that assms by (auto simp: hub_inv_def watchers_ok_def)
  have "ctxs_wf (contexts (cancel_subs ss h))"
    using assms k by (auto simp: contexts_cancel_subs hub_inv_def intro: gctx.fold_cancel_inv)
  moreover have "watchers_ok (cancel_subs ss h)"
    using assms(1)
    by (auto simp: hub_inv_def watchers_ok_def contexts_cancel_subs intro: gctx.fold_cancel_known)
  ultimately show ?thesis
    using assms(1) by (simp add: hub_inv_def)
qed

lemma cancel_subs_done: "s \<in> set ss \<Longrightarrow> ctx_Done (contexts (cancel_subs ss h)) (sub_cancel s)"
  by (simp add: contexts_cancel_subs gctx.fold_cancel_done)

lemma cancel_subs_mono:
  "ctx_Done (contexts h) c \<Longrightarrow> ctx_Done (contexts (cancel_subs ss h)) c"
  by (simp add: contexts_cancel_subs gctx.fold_cancel_mono)

section \<open>What each operation does\<close>

subsection \<open>Cancel\<close>

lemma hub_Cancel_loop_lookup:
  "hub_lookup (hub_Cancel_loop ts h) = (\<lambda>t. if t \<in> set ts then None else hub_lookup h t)"
  by (induction ts h rule: hub_Cancel_loop.induct) (auto simp: fun_eq_iff split: option.splits)

lemma hub_Cancel_loop_frame [simp]:
  "brChanges (hub_Cancel_loop ts h) = brChanges h"
  "emitted (hub_Cancel_loop ts h) = emitted h"
  "watchers (hub_Cancel_loop ts h) = watchers h"
  "next_sid (hub_Cancel_loop ts h) = next_sid h"
  by (induction ts h rule: hub_Cancel_loop.induct) (auto split: option.splits)

lemma hub_Cancel_loop_mono:
  "ctx_Done (contexts h) c \<Longrightarrow> ctx_Done (contexts (hub_Cancel_loop ts h)) c"
  by (induction ts h rule: hub_Cancel_loop.induct) (auto split: option.splits simp: cancel_subs_mono)

lemma topic_ok_watched: "topic_ok ws t br \<Longrightarrow> set br \<subseteq> set ws"
  by (auto simp: topic_ok_def)

lemma hub_Cancel_loop_inv: "hub_inv h \<Longrightarrow> hub_inv (hub_Cancel_loop ts h)"
proof (induction ts h rule: hub_Cancel_loop.induct)
  case (2 t ts h)
  then show ?case
    using topic_ok_watched [OF hub_inv_topic [OF "2.prems"]]
    by (auto split: option.splits simp: hub_inv_cancel_subs)
qed simp

lemma hub_Cancel_loop_done:
  "hub_lookup h t = Some br \<Longrightarrow> s \<in> set br \<Longrightarrow> t \<in> set ts \<Longrightarrow>
     ctx_Done (contexts (hub_Cancel_loop ts h)) (sub_cancel s)"
proof (induction ts h rule: hub_Cancel_loop.induct)
  case (2 t' ts h)
  show ?case
  proof (cases "t' = t")
    case True
    then show ?thesis
      using "2.prems" by (auto intro!: hub_Cancel_loop_mono cancel_subs_done)
  next
    case False
    then show ?thesis
      using "2.prems" "2.IH" by (cases "hub_lookup h t'") auto
  qed
qed simp

lemma hub_Cancel_lookup:
  "hub_lookup (hub_Cancel ts h) = (\<lambda>t. if t \<in> set ts then None else hub_lookup h t)"
  by (simp add: hub_Cancel_def Let_def hub_Cancel_loop_lookup)

lemma hub_Cancel_emitted:
  "emitted (hub_Cancel ts h) =
     emitted h @ (if brChanges h \<and> ts \<noteq> [] then [\<lparr>Added = [], Removed = ts\<rparr>] else [])"
  by (simp add: hub_Cancel_def Let_def)

lemma hub_Cancel_frame [simp]:
  "brChanges (hub_Cancel ts h) = brChanges h"
  "watchers (hub_Cancel ts h) = watchers h"
  "next_sid (hub_Cancel ts h) = next_sid h"
  by (simp_all add: hub_Cancel_def Let_def)

lemma hub_Cancel_contexts: "contexts (hub_Cancel ts h) = contexts (hub_Cancel_loop ts h)"
  by (simp add: hub_Cancel_def Let_def)

lemma hub_Cancel_inv: "hub_inv h \<Longrightarrow> hub_inv (hub_Cancel ts h)"
  by (simp add: hub_Cancel_def Let_def hub_Cancel_loop_inv)

subsection \<open>unsubscribe\<close>

text \<open>The broadcasting of a topic with some subscription pointers taken out of it.\<close>

definition without_subs :: "'m subscription list \<Rightarrow> string \<Rightarrow> 'm broadcasting option \<Rightarrow> 'm broadcasting option" where
  "without_subs ss t b =
     (case b of
        None \<Rightarrow> None
      | Some br \<Rightarrow>
          let br = filter (\<lambda>x. sid x \<notin> sid ` {s \<in> set ss. topic s = t}) br
          in if br = [] then None else Some br)"

lemma without_subs_Cons:
  "without_subs (s # ss) t b =
     without_subs ss t
       (if topic s = t
        then (case b of None \<Rightarrow> None
              | Some br \<Rightarrow> (let br = filter (\<lambda>x. sid x \<noteq> sid s) br in if br = [] then None else Some br))
        else b)"
  by (cases b) (auto simp: without_subs_def Let_def filter_empty_conv conj_disj_distribR
      Collect_disj_eq intro!: filter_cong arg_cong [where f = Some] split: if_splits)

lemma topic_ok_filter: "topic_ok ws t br \<Longrightarrow> filter P br \<noteq> [] \<Longrightarrow> topic_ok ws t (filter P br)"
  by (auto simp: topic_ok_def distinct_map intro: inj_on_subset)

text \<open>One turn of the loop, for a topic that is present.\<close>

definition unsub_turn :: "'m subscription \<Rightarrow> 'm broadcasting \<Rightarrow> 'm hub \<Rightarrow> 'm hub" where
  "unsub_turn s br h =
     cancel_subs [s]
       (if filter (\<lambda>x. sid x \<noteq> sid s) br = [] then delete_topic (topic s) h
        else store_topic (topic s) (filter (\<lambda>x. sid x \<noteq> sid s) br) h)"

lemma hub_unsubscribe_loop_Cons:
  "hub_unsubscribe_loop (s # ss) r h =
     (case hub_lookup h (topic s) of
        None \<Rightarrow> hub_unsubscribe_loop ss r h
      | Some br \<Rightarrow>
          hub_unsubscribe_loop ss
            (if filter (\<lambda>x. sid x \<noteq> sid s) br = [] then r @ [topic s] else r) (unsub_turn s br h))"
  by (simp add: unsub_turn_def Let_def split: option.split)

declare hub_unsubscribe_loop.simps(2) [simp del]

lemma unsub_turn_frame [simp]:
  "brChanges (unsub_turn s br h) = brChanges h"
  "emitted (unsub_turn s br h) = emitted h"
  "watchers (unsub_turn s br h) = watchers h"
  "next_sid (unsub_turn s br h) = next_sid h"
  by (simp_all add: unsub_turn_def)

lemma unsub_turn_lookup:
  assumes "hub_lookup h (topic s) = Some br"
  shows "hub_lookup (unsub_turn s br h) =
    (hub_lookup h)(topic s := (let b = filter (\<lambda>x. sid x \<noteq> sid s) br in if b = [] then None else Some b))"
  using assms by (auto simp: unsub_turn_def Let_def dest: hub_lookup_SomeD)

lemma unsub_turn_inv:
  assumes "hub_inv h" and "hub_lookup h (topic s) = Some br" and "s \<in> set (watchers h)"
  shows "hub_inv (unsub_turn s br h)"
  unfolding unsub_turn_def using assms topic_ok_filter [OF hub_inv_topic [OF assms(1,2)]]
  by (intro hub_inv_cancel_subs) (auto intro!: hub_inv_store_topic dest: hub_lookup_SomeD)

lemma hub_unsubscribe_loop_inv:
  "hub_inv h \<Longrightarrow> set ss \<subseteq> set (watchers h) \<Longrightarrow> hub_inv (fst (hub_unsubscribe_loop ss r h))"
  by (induction ss arbitrary: r h)
    (auto simp: hub_unsubscribe_loop_Cons unsub_turn_inv split: option.split)

lemma hub_unsubscribe_loop_frame [simp]:
  "brChanges (fst (hub_unsubscribe_loop ss r h)) = brChanges h"
  "emitted (fst (hub_unsubscribe_loop ss r h)) = emitted h"
  "watchers (fst (hub_unsubscribe_loop ss r h)) = watchers h"
  "next_sid (fst (hub_unsubscribe_loop ss r h)) = next_sid h"
  by (induction ss arbitrary: r h) (simp_all add: hub_unsubscribe_loop_Cons split: option.split)

lemma without_subs_Nil: "hub_inv h \<Longrightarrow> without_subs [] t (hub_lookup h t) = hub_lookup h t"
  by (auto simp: without_subs_def topic_ok_def dest: hub_inv_topic split: option.split)

lemma hub_unsubscribe_loop_lookup:
  "hub_inv h \<Longrightarrow> set ss \<subseteq> set (watchers h) \<Longrightarrow>
     hub_lookup (fst (hub_unsubscribe_loop ss r h)) t = without_subs ss t (hub_lookup h t)"
proof (induction ss arbitrary: r h)
  case Nil
  then show ?case by (simp add: without_subs_Nil)
next
  case (Cons s ss)
  show ?case
  proof (cases "hub_lookup h (topic s)")
    case None
    then show ?thesis
      using Cons by (auto simp: hub_unsubscribe_loop_Cons without_subs_Cons)
  next
    case (Some br)
    then show ?thesis
      using Cons unsub_turn_inv [OF Cons.prems(1) Some]
      by (auto simp: hub_unsubscribe_loop_Cons without_subs_Cons unsub_turn_lookup)
  qed
qed

lemma hub_unsubscribe_loop_removed:
  "hub_inv h \<Longrightarrow> set ss \<subseteq> set (watchers h) \<Longrightarrow>
     set (snd (hub_unsubscribe_loop ss r h)) =
       set r \<union> (dom (hub_lookup h) - dom (hub_lookup (fst (hub_unsubscribe_loop ss r h))))"
proof (induction ss arbitrary: r h)
  case (Cons s ss)
  show ?case
  proof (cases "hub_lookup h (topic s)")
    case None
    then show ?thesis
      using Cons by (simp add: hub_unsubscribe_loop_Cons)
  next
    case (Some br)
    let ?h = "unsub_turn s br h"
    have inv: "hub_inv ?h"
      using Cons.prems Some by (simp add: unsub_turn_inv)
    have sub: "dom (hub_lookup (fst (hub_unsubscribe_loop ss r' ?h))) \<subseteq> dom (hub_lookup ?h)" for r'
      using hub_unsubscribe_loop_lookup [OF inv] Cons.prems(2)
      by (auto simp: without_subs_def split: option.splits)
    have d: "dom (hub_lookup ?h) =
        (if filter (\<lambda>x. sid x \<noteq> sid s) br = [] then dom (hub_lookup h) - {topic s} else dom (hub_lookup h))"
      using Some by (auto simp: unsub_turn_lookup Let_def dom_def)
    let ?r = "if filter (\<lambda>x. sid x \<noteq> sid s) br = [] then r @ [topic s] else r"
    have "set (snd (hub_unsubscribe_loop ss ?r ?h)) =
        set ?r \<union> (dom (hub_lookup ?h) - dom (hub_lookup (fst (hub_unsubscribe_loop ss ?r ?h))))"
      using Cons.IH [OF inv] Cons.prems(2) by simp
    moreover have "topic s \<in> dom (hub_lookup h)"
      using Some by blast
    ultimately show ?thesis
      using sub [of ?r] unfolding hub_unsubscribe_loop_Cons Some option.case d by (auto split: if_splits)
  qed
qed simp

lemma hub_unsubscribe_loop_mono:
  "ctx_Done (contexts h) c \<Longrightarrow> ctx_Done (contexts (fst (hub_unsubscribe_loop ss r h))) c"
  by (induction ss arbitrary: r h)
    (simp_all add: hub_unsubscribe_loop_Cons unsub_turn_def cancel_subs_mono split: option.split)

lemma watchers_sid_inj:
  "hub_inv h \<Longrightarrow> x \<in> set (watchers h) \<Longrightarrow> y \<in> set (watchers h) \<Longrightarrow> sid x = sid y \<Longrightarrow> x = y"
  unfolding hub_inv_def watchers_ok_def distinct_map by (blast dest: inj_onD)

lemma sub_active_watched: "hub_inv h \<Longrightarrow> sub_active h s \<Longrightarrow> s \<in> set (watchers h)"
  unfolding sub_active_def using hub_inv_topic topic_ok_watched by blast

lemma unsub_turn_active:
  assumes "hub_inv h" and "sub_active h x" and "s \<in> set (watchers h)" and "x \<noteq> s"
    and "hub_lookup h (topic s) = Some br"
  shows "sub_active (unsub_turn s br h) x"
proof -
  have "sid x \<noteq> sid s"
    using assms watchers_sid_inj sub_active_watched by metis
  then show ?thesis
    using assms(2,5) by (auto simp: sub_active_def unsub_turn_lookup Let_def filter_empty_conv)
qed

lemma hub_unsubscribe_loop_done:
  "hub_inv h \<Longrightarrow> set ss \<subseteq> set (watchers h) \<Longrightarrow> sub_active h x \<Longrightarrow> x \<in> set ss \<Longrightarrow>
     ctx_Done (contexts (fst (hub_unsubscribe_loop ss r h))) (sub_cancel x)"
proof (induction ss arbitrary: r h)
  case (Cons s ss)
  show ?case
  proof (cases "hub_lookup h (topic s)")
    case None
    then show ?thesis
      using Cons by (auto simp: hub_unsubscribe_loop_Cons sub_active_def)
  next
    case (Some br)
    show ?thesis
    proof (cases "x = s")
      case True
      then show ?thesis
        using Some by (simp add: hub_unsubscribe_loop_Cons hub_unsubscribe_loop_mono unsub_turn_def
            cancel_subs_done)
    next
      case False
      then have "sub_active (unsub_turn s br h) x" "hub_inv (unsub_turn s br h)"
        using Cons.prems Some by (simp_all add: unsub_turn_active unsub_turn_inv)
      then show ?thesis
        using Cons Some False by (simp add: hub_unsubscribe_loop_Cons)
    qed
  qed
qed simp

lemma hub_unsubscribe_eq:
  "hub_unsubscribe ss h =
     (if ss \<noteq> [] \<and> brChanges h \<and> snd (hub_unsubscribe_loop ss [] h) \<noteq> []
      then send_change \<lparr>Added = [], Removed = snd (hub_unsubscribe_loop ss [] h)\<rparr>
             (fst (hub_unsubscribe_loop ss [] h))
      else fst (hub_unsubscribe_loop ss [] h))"
  by (simp add: hub_unsubscribe_def case_prod_beta Let_def)

lemma hub_unsubscribe_frame [simp]:
  "brChanges (hub_unsubscribe ss h) = brChanges h"
  "watchers (hub_unsubscribe ss h) = watchers h"
  "next_sid (hub_unsubscribe ss h) = next_sid h"
  by (simp_all add: hub_unsubscribe_eq)

lemma hub_unsubscribe_inv:
  "hub_inv h \<Longrightarrow> set ss \<subseteq> set (watchers h) \<Longrightarrow> hub_inv (hub_unsubscribe ss h)"
  by (simp add: hub_unsubscribe_eq hub_unsubscribe_loop_inv)

lemma hub_unsubscribe_lookup:
  "hub_inv h \<Longrightarrow> set ss \<subseteq> set (watchers h) \<Longrightarrow>
     hub_lookup (hub_unsubscribe ss h) t = without_subs ss t (hub_lookup h t)"
  by (simp add: hub_unsubscribe_eq hub_unsubscribe_loop_lookup)

lemma hub_unsubscribe_contexts:
  "contexts (hub_unsubscribe ss h) = contexts (fst (hub_unsubscribe_loop ss [] h))"
  by (simp add: hub_unsubscribe_eq)

lemma hub_unsubscribe_mono:
  "ctx_Done (contexts h) c \<Longrightarrow> ctx_Done (contexts (hub_unsubscribe ss h)) c"
  by (simp add: hub_unsubscribe_contexts hub_unsubscribe_loop_mono)

text \<open>The change that is sent, if any, lists exactly the topics that disappeared.\<close>

lemma hub_unsubscribe_emitted:
  assumes "hub_inv h" and "set ss \<subseteq> set (watchers h)"
  obtains (none) "emitted (hub_unsubscribe ss h) = emitted h"
      "brChanges h \<Longrightarrow> dom (hub_lookup (hub_unsubscribe ss h)) = dom (hub_lookup h)"
  | (removed) ts where "brChanges h"
      "emitted (hub_unsubscribe ss h) = emitted h @ [\<lparr>Added = [], Removed = ts\<rparr>]"
      "set ts = dom (hub_lookup h) - dom (hub_lookup (hub_unsubscribe ss h))"
proof -
  let ?l = "hub_unsubscribe_loop ss [] h"
  have rem: "set (snd ?l) = dom (hub_lookup h) - dom (hub_lookup (fst ?l))"
    using hub_unsubscribe_loop_removed [OF assms, of "[]"] by simp
  have sub: "dom (hub_lookup (fst ?l)) \<subseteq> dom (hub_lookup h)"
    using hub_unsubscribe_loop_lookup [OF assms, of "[]"]
    by (auto simp: without_subs_def split: option.splits)
  show ?thesis
  proof (cases "ss \<noteq> [] \<and> brChanges h \<and> snd ?l \<noteq> []")
    case True
    then have eq: "hub_unsubscribe ss h = send_change \<lparr>Added = [], Removed = snd ?l\<rparr> (fst ?l)"
      by (simp add: hub_unsubscribe_eq)
    show ?thesis
      by (rule removed [of "snd ?l"]) (use True rem in \<open>simp_all add: eq\<close>)
  next
    case False
    then have eq: "hub_unsubscribe ss h = fst ?l"
      by (subst hub_unsubscribe_eq, subst if_not_P) auto
    have "brChanges h \<Longrightarrow> dom (hub_lookup (fst ?l)) = dom (hub_lookup h)"
      using False rem sub by auto
    then show ?thesis
      by (intro none) (simp_all add: eq)
  qed
qed

subsection \<open>Subscribe\<close>

lemma hub_Subscribe_nil_map:
  "hub_Subscribe c t rcv h = Inl p \<longleftrightarrow> broadcastings h = None \<and> p = NilMapWrite"
  by (auto simp: hub_Subscribe_def hub_lookup_def WithCancel_def Let_def split: option.split)

lemma hub_SubscribeE:
  assumes "hub_Subscribe c t rcv h = Inr (h', s)"
  obtains "hub_lookup h' = (hub_lookup h)(t \<mapsto> the_default [] (hub_lookup h t) @ [s])"
    and "broadcastings h \<noteq> None" "hub_keys h \<Longrightarrow> hub_keys h'"
    and "s = \<lparr>sid = next_sid h, topic = t, receive = rcv, sub_cancel = sub_cancel s\<rparr>"
    and "WithCancel c (contexts h) = (contexts h', sub_cancel s)"
    and "next_sid h' = Suc (next_sid h)" "watchers h' = watchers h @ [s]" "brChanges h' = brChanges h"
    and "emitted h' =
      emitted h @ (if brChanges h \<and> hub_lookup h t = None then [\<lparr>Added = [t], Removed = []\<rparr>] else [])"
proof -
  obtain g d where w: "WithCancel c (contexts h) = (g, d)" by fastforce
  have bc: "broadcastings h \<noteq> None"
    using assms hub_Subscribe_nil_map [of c t rcv h] by auto
  let ?s = "\<lparr>sid = next_sid h, topic = t, receive = rcv, sub_cancel = d\<rparr>"
  let ?h = "store_topic t (the_default [] (hub_lookup h t) @ [?s])
    (h\<lparr>contexts := g, next_sid := Suc (next_sid h)\<rparr>)"
  let ?e = "if brChanges h \<and> hub_lookup h t = None
    then send_change \<lparr>Added = [t], Removed = []\<rparr> ?h else ?h"
  have h': "h' = ?e\<lparr>watchers := watchers ?e @ [?s]\<rparr>" and s: "s = ?s"
    using assms bc by (auto simp: hub_Subscribe_def w Let_def the_default_def)
  show ?thesis
    by (rule that) (use bc in \<open>simp_all add: h' s w\<close>)
qed

lemma hub_Subscribe_inv:
  assumes "hub_inv h" and "ctx_known (contexts h) c" and sub: "hub_Subscribe c t rcv h = Inr (h', s)"
  shows "hub_inv h'"
  using sub
proof (rule hub_SubscribeE)
  assume l: "hub_lookup h' = (hub_lookup h)(t \<mapsto> the_default [] (hub_lookup h t) @ [s])"
    and k: "hub_keys h \<Longrightarrow> hub_keys h'"
    and s: "s = \<lparr>sid = next_sid h, topic = t, receive = rcv, sub_cancel = sub_cancel s\<rparr>"
    and w: "WithCancel c (contexts h) = (contexts h', sub_cancel s)"
    and n: "next_sid h' = Suc (next_sid h)" and ws: "watchers h' = watchers h @ [s]"
  have new: "sid s = next_sid h" "topic s = t"
    by (subst s, simp)+
  have old: "sid x < next_sid h" "ctx_known (contexts h') (sub_cancel x)" if "x \<in> set (watchers h)" for x
    using assms(1) that w by (auto simp: hub_inv_def watchers_ok_def intro: gctx.derive_known_mono)
  have "watchers_ok h'"
    using assms(1,2) old new n ws w
    by (fastforce simp: watchers_ok_def hub_inv_def less_Suc_eq intro: gctx.derive_known)
  moreover have "topic_ok (watchers h') t' br" if "hub_lookup h' t' = Some br" for t' br
  proof (cases "t' = t")
    case True
    show ?thesis
    proof (cases "hub_lookup h t")
      case None
      then show ?thesis
        using that True l new ws by (auto simp: topic_ok_def)
    next
      case (Some b)
      then have "topic_ok (watchers h) t b"
        using assms(1) by (rule hub_inv_topic [rotated])
      then show ?thesis
        using that True l new ws Some old(1) by (fastforce simp: topic_ok_def)
    qed
  next
    case False
    then have "topic_ok (watchers h) t' br"
      using that assms(1) l by (simp add: hub_inv_topic)
    then show ?thesis
      using ws by (auto simp: topic_ok_def)
  qed
  ultimately show ?thesis
    using assms(1) k gctx.derive_inv [OF _ w] by (simp add: hub_inv_def)
qed

subsection \<open>Close and the watching goroutine\<close>

lemma hub_Close_simps [simp]:
  "hub_lookup (hub_Close h) = Map.empty"
  "broadcastings (hub_Close h) = None"
  "brChanges (hub_Close h) = False"
  "watchers (hub_Close h) = watchers h"
  "next_sid (hub_Close h) = next_sid h"
  "emitted (hub_Close h) = emitted h"
  by (simp_all add: hub_Close_def Let_def hub_lookup_def fun_eq_iff)

lemma hub_Close_contexts:
  "contexts (hub_Close h) =
     contexts (cancel_subs (concat (map snd (the_default [] (broadcastings h)))) h)"
  by (cases "broadcastings h") (simp_all add: hub_Close_def Let_def)

lemma broadcasting_members:
  assumes "hub_inv h" and "s \<in> set (concat (map snd (the_default [] (broadcastings h))))"
  shows "sub_active h s"
proof -
  obtain m t br where m: "broadcastings h = Some m" "(t, br) \<in> set m" "s \<in> set br"
    using assms(2) by (cases "broadcastings h") auto
  then have "hub_lookup h t = Some br"
    using assms(1) by (simp add: hub_inv_def hub_keys_def hub_lookup_def)
  then show ?thesis
    using assms(1) m(3) hub_inv_topic [of h t br] by (auto simp: topic_ok_def sub_active_def)
qed

lemma hub_Close_inv: "hub_inv h \<Longrightarrow> hub_inv (hub_Close h)"
proof -
  assume inv: "hub_inv h"
  let ?ss = "concat (map snd (the_default [] (broadcastings h)))"
  have "hub_inv (cancel_subs ?ss h)"
    by (rule hub_inv_cancel_subs [OF inv]) (use broadcasting_members [OF inv] sub_active_watched [OF inv] in blast)
  then show ?thesis
    by (simp add: hub_inv_def watchers_ok_def hub_Close_contexts hub_keys_def)
qed

lemma sub_active_member:
  assumes "sub_active h s"
  shows "s \<in> set (concat (map snd (the_default [] (broadcastings h))))"
proof -
  obtain m br where "broadcastings h = Some m" "map_of m (topic s) = Some br" "s \<in> set br"
    using assms by (auto simp: sub_active_def hub_lookup_def split: option.splits)
  then show ?thesis
    by (auto dest!: map_of_SomeD intro!: bexI [of _ "(topic s, br)"])
qed

lemma hub_Close_done: "sub_active h s \<Longrightarrow> ctx_Done (contexts (hub_Close h)) (sub_cancel s)"
  unfolding hub_Close_contexts by (intro cancel_subs_done sub_active_member)

lemma hub_Close_mono: "ctx_Done (contexts h) c \<Longrightarrow> ctx_Done (contexts (hub_Close h)) c"
  by (simp add: hub_Close_contexts cancel_subs_mono)

lemma hub_watcher_simps [simp]:
  "hub_lookup (hub_watcher s h) = hub_lookup (hub_unsubscribe [s] h)"
  "brChanges (hub_watcher s h) = brChanges h"
  "emitted (hub_watcher s h) = emitted (hub_unsubscribe [s] h)"
  "contexts (hub_watcher s h) = contexts (hub_unsubscribe [s] h)"
  "watchers (hub_watcher s h) = filter (\<lambda>x. sid x \<noteq> sid s) (watchers h)"
  "next_sid (hub_watcher s h) = next_sid h"
  by (simp_all add: hub_watcher_def Let_def)

lemma hub_watcher_inv:
  assumes "hub_inv h" and "s \<in> set (watchers h)"
  shows "hub_inv (hub_watcher s h)"
proof -
  have inv: "hub_inv (hub_unsubscribe [s] h)"
    using assms by (simp add: hub_unsubscribe_inv)
  have "topic_ok (watchers (hub_watcher s h)) t br" if "hub_lookup (hub_watcher s h) t = Some br" for t br
  proof -
    have "topic_ok (watchers h) t br"
      using hub_inv_topic [OF inv] that by simp
    moreover have "sid x \<noteq> sid s" if x: "x \<in> set br" for x
    proof
      assume "sid x = sid s"
      then have "x = s"
        using x assms calculation watchers_sid_inj [OF assms(1)] by (auto simp: topic_ok_def)
      then have "topic s = t"
        using x calculation by (auto simp: topic_ok_def)
      then show False
        using \<open>hub_lookup (hub_watcher s h) t = Some br\<close> x \<open>x = s\<close> assms
        by (auto simp: hub_unsubscribe_lookup without_subs_def Let_def split: option.splits if_splits)
    qed
    ultimately show ?thesis
      by (auto simp: topic_ok_def)
  qed
  moreover have "watchers_ok (hub_watcher s h)"
    using inv by (auto simp: hub_inv_def watchers_ok_def distinct_map intro: inj_on_subset)
  moreover have "hub_keys (hub_watcher s h)"
    using inv by (simp add: hub_inv_def hub_watcher_def Let_def)
  ultimately show ?thesis
    using inv by (simp add: hub_inv_def)
qed

section \<open>Runs of a hub\<close>

text \<open>
  The transitions of a hub among its users: any goroutine may call \<^verbatim>\<open>Subscribe\<close>, \<^verbatim>\<open>Cancel\<close> or
  \<^verbatim>\<open>Close\<close>, make or cancel contexts of its own, and the goroutine of a subscription may run once its
  context is done. The set in the middle holds the subscriptions the step hands out.
\<close>

inductive hub_step :: "'m hub \<Rightarrow> 'm subscription set \<Rightarrow> 'm hub \<Rightarrow> bool" where
  step_subscribe: "hub_Subscribe c t rcv h = Inr (h', s) \<Longrightarrow> ctx_known (contexts h) c \<Longrightarrow>
    hub_step h {s} h'"
| step_cancel: "hub_step h {} (hub_Cancel ts h)"
| step_close: "hub_step h {} (hub_Close h)"
| step_watcher: "s \<in> set (watchers h) \<Longrightarrow> ctx_Done (contexts h) (sub_cancel s) \<Longrightarrow>
    hub_step h {} (hub_watcher s h)"
| step_derive: "hub_step h {} (h\<lparr>contexts := fst (WithCancel c (contexts h))\<rparr>)"
| step_ctx_cancel: "ctx_known (contexts h) c \<Longrightarrow>
    hub_step h {} (h\<lparr>contexts := ctx_cancel c (contexts h)\<rparr>)"

text \<open>The steps that run code of the hub, and those that derive a context: all but a cancellation by somebody else.\<close>

inductive hub_op :: "'m hub \<Rightarrow> 'm subscription set \<Rightarrow> 'm hub \<Rightarrow> bool" where
  op_subscribe: "hub_Subscribe c t rcv h = Inr (h', s) \<Longrightarrow> ctx_known (contexts h) c \<Longrightarrow> hub_op h {s} h'"
| op_cancel: "hub_op h {} (hub_Cancel ts h)"
| op_close: "hub_op h {} (hub_Close h)"
| op_watcher: "s \<in> set (watchers h) \<Longrightarrow> ctx_Done (contexts h) (sub_cancel s) \<Longrightarrow> hub_op h {} (hub_watcher s h)"
| op_derive: "hub_op h {} (h\<lparr>contexts := fst (WithCancel c (contexts h))\<rparr>)"

lemma hub_op_step: "hub_op h N h' \<Longrightarrow> hub_step h N h'"
  by (induction rule: hub_op.induct) (auto intro: hub_step.intros)

inductive hub_run :: "bool \<Rightarrow> 'm hub \<Rightarrow> 'm subscription set \<Rightarrow> bool" for w where
  run_start: "hub_run w (NewHub w initial_ctxs) {}"
| run_step: "hub_run w h S \<Longrightarrow> hub_step h N h' \<Longrightarrow> hub_run w h' (S \<union> N)"

lemma hub_inv_contexts:
  assumes "hub_inv h" and "ctxs_wf g" and "\<And>c. ctx_known (contexts h) c \<Longrightarrow> ctx_known g c"
  shows "hub_inv (h\<lparr>contexts := g\<rparr>)"
  using assms by (auto simp: hub_inv_def watchers_ok_def)

lemma hub_step_inv: "hub_step h N h' \<Longrightarrow> hub_inv h \<Longrightarrow> hub_inv h'"
proof (induction rule: hub_step.induct)
  case (step_derive h c)
  obtain g d where "WithCancel c (contexts h) = (g, d)" by fastforce
  then show ?case
    using step_derive gctx.derive_inv gctx.derive_known_mono
    by (intro hub_inv_contexts) (auto simp: hub_inv_def)
next
  case (step_ctx_cancel h c)
  then show ?case
    by (intro hub_inv_contexts) (auto simp: hub_inv_def gctx.cancel_inv gctx.cancel_known)
qed (simp_all add: hub_Subscribe_inv hub_Cancel_inv hub_Close_inv hub_watcher_inv)

lemma hub_run_inv: "hub_run w h S \<Longrightarrow> hub_inv h"
  by (induction rule: hub_run.induct) (simp_all add: hub_step_inv)

subsection \<open>Which contexts the hub cancels\<close>

lemma cancelled_fold: "cancelled (fold ctx_cancel cs g) = cancelled g \<union> set cs"
  by (induction cs arbitrary: g) (auto simp: ctx_cancel_def)

lemma cancelled_subs: "cancelled (contexts (cancel_subs ss h)) = cancelled (contexts h) \<union> sub_cancel ` set ss"
  by (simp add: contexts_cancel_subs cancelled_fold)

lemma hub_Cancel_loop_cancelled:
  "hub_inv h \<Longrightarrow> cancelled (contexts (hub_Cancel_loop ts h)) \<subseteq>
     cancelled (contexts h) \<union> sub_cancel ` set (watchers h)"
proof (induction ts h rule: hub_Cancel_loop.induct)
  case (2 t ts h)
  show ?case
  proof (cases "hub_lookup h t")
    case (Some br)
    have w: "set br \<subseteq> set (watchers h)" by (rule topic_ok_watched [OF hub_inv_topic [OF "2.prems" Some]])
    have "hub_inv (delete_topic t (cancel_subs br h))"
      using hub_Cancel_loop_inv [OF "2.prems", of "[t]"] Some by simp
    from "2.IH"(2) [OF Some this] w show ?thesis by (auto simp: Some cancelled_subs)
  qed (use 2 in simp)
qed simp

lemma hub_unsubscribe_loop_cancelled:
  "cancelled (contexts (fst (hub_unsubscribe_loop ss r h))) \<subseteq> cancelled (contexts h) \<union> sub_cancel ` set ss"
proof (induction ss arbitrary: r h)
  case (Cons s ss)
  have "cancelled (contexts (unsub_turn s br h)) = insert (sub_cancel s) (cancelled (contexts h))" for br
    by (simp add: unsub_turn_def cancelled_subs)
  then have "cancelled (contexts (fst (hub_unsubscribe_loop ss r' (unsub_turn s br h)))) \<subseteq>
      insert (sub_cancel s) (cancelled (contexts h)) \<union> sub_cancel ` set ss" for r' br
    using Cons.IH [of r' "unsub_turn s br h"] by simp
  then show ?case using Cons.IH [of r h]
    by (cases "hub_lookup h (topic s)") (auto simp: hub_unsubscribe_loop_Cons)
qed simp

lemma hub_op_cancelled:
  "hub_op h N h' \<Longrightarrow> hub_inv h \<Longrightarrow> cancelled (contexts h') \<subseteq> cancelled (contexts h) \<union> sub_cancel ` set (watchers h)"
proof (induction rule: hub_op.induct)
  case (op_subscribe c t rcv h h' s)
  from op_subscribe(1) show ?case
  proof (rule hub_SubscribeE)
    assume "WithCancel c (contexts h) = (contexts h', sub_cancel s)"
    then have "contexts h' = (contexts h)\<lparr>fresh := Suc (fresh (contexts h))\<rparr>" by (simp add: WithCancel_def)
    then show ?thesis by simp
  qed
next
  case (op_cancel h ts)
  then show ?case by (simp add: hub_Cancel_contexts hub_Cancel_loop_cancelled)
next
  case (op_close h)
  have "br \<subseteq> set (watchers h)" if "br \<in> (\<lambda>x. set (snd x)) ` set (the_default [] (broadcastings h))" for br
  proof -
    from that obtain t l where l: "(t, l) \<in> set (the_default [] (broadcastings h))" "br = set l" by auto
    then have "hub_lookup h t = Some l"
      using op_close by (cases "broadcastings h") (auto simp: hub_lookup_def hub_inv_def hub_keys_def the_default_def)
    then show ?thesis using topic_ok_watched [OF hub_inv_topic [OF op_close]] l(2) by simp
  qed
  then show ?case by (auto simp: hub_Close_contexts cancelled_subs)
next
  case (op_watcher s h)
  then show ?case
    using hub_unsubscribe_loop_cancelled [of "[s]" "[]" h] by (auto simp: hub_watcher_def Let_def hub_unsubscribe_contexts)
qed (simp add: WithCancel_def)

lemma hub_op_watchers:
  "hub_op h N h' \<Longrightarrow> set (watchers h') \<subseteq> set (watchers h) \<union> N \<and> (\<forall>s\<in>N. \<not> ctx_known (contexts h) (sub_cancel s))"
proof (induction rule: hub_op.induct)
  case (op_subscribe c t rcv h h' s)
  from op_subscribe(1) show ?case
  proof (rule hub_SubscribeE)
    assume "WithCancel c (contexts h) = (contexts h', sub_cancel s)" "watchers h' = watchers h @ [s]"
    moreover from this(1) have "sub_cancel s = c @ [fresh (contexts h)]" by (simp add: WithCancel_def)
    ultimately show ?thesis by (simp add: ctx_known_def)
  qed
next
  case (op_watcher s h)
  show ?case by (auto simp: hub_watcher_def Let_def)
qed simp_all

section \<open>The change events\<close>

text \<open>
  The topics a reader of the channel knows of after the events so far: those that were added and
  not removed since. This is the order in which \<^verbatim>\<open>Serve\<close> of the broker applies one event.
\<close>

definition apply_change :: "string set \<Rightarrow> BroadcastingChange \<Rightarrow> string set" where
  "apply_change T c = (T \<union> set (Added c)) - set (Removed c)"

definition replay :: "BroadcastingChange list \<Rightarrow> string set" where
  "replay cs = foldl apply_change {} cs"

lemma replay_simps [simp]:
  "replay [] = {}"
  "replay (cs @ [c]) = apply_change (replay cs) c"
  by (simp_all add: replay_def)

lemma without_subs_dom: "dom (\<lambda>t. without_subs ss t (hub_lookup h t)) \<subseteq> dom (hub_lookup h)"
  by (auto simp: without_subs_def split: option.splits)

lemma hub_step_replay:
  "hub_step h N h' \<Longrightarrow> hub_inv h \<Longrightarrow> (brChanges h \<Longrightarrow> replay (emitted h) = dom (hub_lookup h)) \<Longrightarrow>
     brChanges h' \<Longrightarrow> replay (emitted h') = dom (hub_lookup h')"
proof (induction rule: hub_step.induct)
  case (step_subscribe c t rcv h h' s)
  from step_subscribe(1) show ?case
    by (rule hub_SubscribeE) (use step_subscribe in \<open>auto simp: apply_change_def split: if_splits\<close>)
next
  case (step_cancel h ts)
  then show ?case
    by (auto simp: hub_Cancel_emitted hub_Cancel_lookup apply_change_def dom_def)
next
  case (step_watcher s h)
  have ss: "set [s] \<subseteq> set (watchers h)"
    using step_watcher by simp
  have sub: "dom (hub_lookup (hub_unsubscribe [s] h)) \<subseteq> dom (hub_lookup h)"
    using hub_unsubscribe_lookup [OF step_watcher(3) ss]
    by (auto simp: without_subs_def split: option.splits)
  show ?case
  proof (rule hub_unsubscribe_emitted [OF step_watcher(3) ss], goal_cases)
    case 1
    then show ?case using step_watcher by simp
  next
    case (2 ts)
    then show ?case using step_watcher sub by (auto simp: apply_change_def)
  qed
qed simp_all

lemma hub_run_replay: "hub_run w h S \<Longrightarrow> brChanges h \<Longrightarrow> replay (emitted h) = dom (hub_lookup h)"
proof (induction rule: hub_run.induct)
  case run_start
  then show ?case by (simp add: NewHub_def hub_lookup_def)
next
  case (run_step h S N h')
  then show ?case using hub_step_replay hub_run_inv by blast
qed

section \<open>Subscriptions that ended\<close>

text \<open>No transition undoes a cancellation.\<close>

lemma hub_step_mono: "hub_step h N h' \<Longrightarrow> ctx_Done (contexts h) c \<Longrightarrow> ctx_Done (contexts h') c"
proof (induction rule: hub_step.induct)
  case (step_subscribe c' t rcv h h' s)
  from step_subscribe(1) show ?case
    by (rule hub_SubscribeE) (use step_subscribe gctx.derive_same in blast)
next
  case (step_derive h c')
  then show ?case
    by (simp add: WithCancel_def ctx_Done_def)
qed (simp_all add: hub_Cancel_contexts hub_Cancel_loop_mono hub_Close_mono hub_unsubscribe_mono)

text \<open>A subscription leaves the hub only together with the cancellation of its context.\<close>

lemma hub_step_active:
  "hub_step h N h' \<Longrightarrow> hub_inv h \<Longrightarrow> sub_active h x \<Longrightarrow>
     sub_active h' x \<or> ctx_Done (contexts h') (sub_cancel x)"
proof (induction rule: hub_step.induct)
  case (step_subscribe c t rcv h h' s)
  from step_subscribe(1) show ?case
    by (rule hub_SubscribeE) (use step_subscribe in \<open>auto simp: sub_active_def\<close>)
next
  case (step_cancel h ts)
  then show ?case
    using hub_Cancel_loop_done by (fastforce simp: sub_active_def hub_Cancel_lookup hub_Cancel_contexts)
next
  case (step_watcher s h)
  then show ?case
  proof (cases "x = s")
    case True
    then show ?thesis
      using step_watcher by (simp add: hub_unsubscribe_mono)
  next
    case False
    then have "sid x \<noteq> sid s"
      using step_watcher watchers_sid_inj sub_active_watched by metis
    then show ?thesis
      using step_watcher
      by (auto simp: sub_active_def hub_unsubscribe_lookup without_subs_def Let_def filter_empty_conv)
  qed
next
  case (step_close h)
  then show ?case by (simp add: hub_Close_done)
qed (simp_all add: sub_active_def)

lemma hub_step_new:
  "hub_step h N h' \<Longrightarrow> x \<in> N \<Longrightarrow> sub_active h' x"
proof (induction rule: hub_step.induct)
  case (step_subscribe c t rcv h h' s)
  from step_subscribe(1) show ?case
  proof (rule hub_SubscribeE)
    assume "hub_lookup h' = (hub_lookup h)(t \<mapsto> the_default [] (hub_lookup h t) @ [s])"
      and "s = \<lparr>sid = next_sid h, topic = t, receive = rcv, sub_cancel = sub_cancel s\<rparr>"
    then show ?thesis
      using step_subscribe(3) by (metis UnCI fun_upd_same list.set_intros(1) set_append
          singletonD sub_active_def subscription.select_convs(2))
  qed
qed simp_all

lemma hub_run_ended:
  "hub_run w h S \<Longrightarrow> x \<in> S \<Longrightarrow> sub_active h x \<or> ctx_Done (contexts h) (sub_cancel x)"
proof (induction rule: hub_run.induct)
  case (run_step h S N h')
  then show ?case
    using hub_step_new hub_step_active hub_step_mono hub_run_inv by (metis Un_iff)
qed simp

section \<open>A run to evaluate the properties on\<close>

text \<open>One subscription on \<open>''/a''\<close>; then its context is cancelled; then its goroutine runs.\<close>

definition demo_sub :: "nat subscription" where
  "demo_sub = \<lparr>sid = 0, topic = ''/a'', receive = (\<lambda>_ _. (None, [])), sub_cancel = [0]\<rparr>"

definition demo_hub :: "nat hub" where
  "demo_hub =
     \<lparr>broadcastings = Some [(''/a'', [demo_sub])], brChanges = True, next_sid = 1,
      watchers = [demo_sub], emitted = [\<lparr>Added = [''/a''], Removed = []\<rparr>], chan_closed = False,
      contexts = \<lparr>cancelled = {}, fresh = 1\<rparr>\<rparr>"

definition demo_cancelled :: "nat hub" where
  "demo_cancelled = demo_hub\<lparr>contexts := ctx_cancel [0] (contexts demo_hub)\<rparr>"

lemma demo_subscribe:
  "hub_Subscribe Background ''/a'' (\<lambda>_ _. (None, [])) (NewHub True initial_ctxs) = Inr (demo_hub, demo_sub)"
  by (simp add: hub_Subscribe_def NewHub_def WithCancel_def initial_ctxs_def Background_def Let_def
      hub_lookup_def store_topic_def send_change_def demo_hub_def demo_sub_def)

lemma demo_run: "hub_run True demo_hub {demo_sub}"
  using run_step [OF run_start step_subscribe [OF demo_subscribe]] by simp

lemma demo_cancelled_run: "hub_run True demo_cancelled {demo_sub}"
  using run_step [OF demo_run step_ctx_cancel [of demo_hub "[0]"]]
  by (simp add: demo_cancelled_def demo_hub_def ctx_known_def)

lemma demo_done: "ctx_Done (contexts demo_cancelled) (sub_cancel demo_sub)"
  by (simp add: demo_cancelled_def demo_sub_def)

lemma demo_active: "sub_active demo_hub demo_sub" "sub_active demo_cancelled demo_sub"
  by (simp_all add: sub_active_def demo_cancelled_def demo_hub_def demo_sub_def hub_lookup_def)

lemma demo_removed_run: "hub_run True (hub_watcher demo_sub demo_cancelled) {demo_sub}"
  using run_step [OF demo_cancelled_run step_watcher [OF _ demo_done]]
  by (simp add: demo_cancelled_def demo_hub_def)

lemma demo_removed_inactive: "\<not> sub_active (hub_watcher demo_sub demo_cancelled) demo_sub"
  by (simp add: sub_active_def hub_watcher_def hub_unsubscribe_def hub_unsubscribe_loop_Cons
      unsub_turn_def cancel_subs_def delete_topic_def send_change_def demo_cancelled_def demo_hub_def
      demo_sub_def hub_lookup_def)

section \<open>Properties of the hub\<close>

text \<open>
  In every reachable hub, a topic of the map has at least one subscription, no subscription
  twice, and only subscriptions on that topic, each still watched by the goroutine that removes it
  when its context is done. So no code path leaves an empty broadcasting behind, which is what the
  hub's \<^verbatim>\<open>addedTopic\<close> test relies on.
\<close>

theorem hub_topics_inhabited:
  assumes "hub_run w h S" and "hub_lookup h t = Some br"
  shows "br \<noteq> [] \<and> distinct (map sid br) \<and> (\<forall>s\<in>set br. topic s = t \<and> s \<in> set (watchers h))"
  using hub_inv_topic [OF hub_run_inv [OF assms(1)] assms(2)] by (simp add: topic_ok_def)

theorem hub_topics_inhabited_witness:
  "hub_lookup demo_hub ''/a'' = Some [demo_sub] \<and> distinct (map sid [demo_sub]) \<and>
   topic demo_sub = ''/a'' \<and> demo_sub \<in> set (watchers demo_hub)"
proof -
  have l: "hub_lookup demo_hub ''/a'' = Some [demo_sub]"
    by (simp add: demo_hub_def hub_lookup_def)
  show ?thesis
    using l hub_topics_inhabited [OF demo_run l] by simp
qed

text \<open>
  (C16) The change events tell the truth: as long as the hub has a channel of changes, that is, when it was made with
  one and is not closed, replaying every event the hub has sent on it gives exactly the topics that have a
  subscription, at every moment of every run. This covers repeated and overlapping \<^verbatim>\<open>Cancel\<close> calls, which also
  report topics that were not there. \<^verbatim>\<open>Close\<close> drops the channel and reports nothing.
\<close>

theorem hub_changes_faithful:
  assumes "hub_run w h S" and "brChanges h"
  shows "replay (emitted h) = dom (hub_lookup h)"
  using assms by (rule hub_run_replay)

theorem hub_changes_faithful_witness:
  "replay (emitted demo_hub) = dom (hub_lookup demo_hub) \<and> dom (hub_lookup demo_hub) = {''/a''}"
proof -
  have "brChanges demo_hub" by (simp add: demo_hub_def)
  then have "replay (emitted demo_hub) = dom (hub_lookup demo_hub)"
    by (rule hub_changes_faithful [OF demo_run])
  moreover have "dom (hub_lookup demo_hub) = {''/a''}"
    by (auto simp: demo_hub_def hub_lookup_def split: if_splits)
  ultimately show ?thesis by simp
qed

text \<open>
  The channel \<^verbatim>\<open>Subscribe\<close> returns is closed when the subscription becomes inactive: a
  subscription handed out in the run that is no longer in the hub has a context that is done.
\<close>

theorem hub_removed_channel_closed:
  assumes "hub_run w h S" and "x \<in> S" and "\<not> sub_active h x"
  shows "ctx_Done (contexts h) (sub_cancel x)"
  using hub_run_ended [OF assms(1,2)] assms(3) by blast

theorem hub_removed_channel_closed_witness:
  "\<not> sub_active (hub_watcher demo_sub demo_cancelled) demo_sub \<and>
   ctx_Done (contexts (hub_watcher demo_sub demo_cancelled)) (sub_cancel demo_sub)"
  using hub_removed_channel_closed [OF demo_removed_run _ demo_removed_inactive] demo_removed_inactive
  by simp

text \<open>
  A subscription whose context is done can always be removed: as long as it is in the hub, the
  goroutine that \<^verbatim>\<open>Subscribe\<close> started is enabled, and its run takes the subscription out and leaves
  every other subscription in place.
\<close>

theorem hub_done_subscription_removable:
  assumes "hub_run w h S" and "sub_active h x" and "ctx_Done (contexts h) (sub_cancel x)"
  shows "hub_step h {} (hub_watcher x h) \<and> \<not> sub_active (hub_watcher x h) x \<and>
    (\<forall>y. y \<noteq> x \<longrightarrow> sub_active h y \<longrightarrow> sub_active (hub_watcher x h) y)"
proof -
  have inv: "hub_inv h"
    using assms(1) by (rule hub_run_inv)
  have w: "x \<in> set (watchers h)"
    using inv assms(2) by (rule sub_active_watched)
  have "sub_active (hub_watcher x h) y" if "y \<noteq> x" "sub_active h y" for y
  proof -
    have "sid y \<noteq> sid x"
      using that w watchers_sid_inj [OF inv] sub_active_watched [OF inv] by blast
    then show ?thesis
      using that inv w
      by (auto simp: sub_active_def hub_unsubscribe_lookup without_subs_def Let_def filter_empty_conv)
  qed
  moreover have "\<not> sub_active (hub_watcher x h) x"
    using inv w
    by (auto simp: sub_active_def hub_unsubscribe_lookup without_subs_def Let_def split: option.splits if_splits)
  ultimately show ?thesis
    using w assms(3) by (simp add: step_watcher)
qed

theorem hub_done_subscription_removable_witness:
  "sub_active demo_cancelled demo_sub \<and>
   hub_step demo_cancelled {} (hub_watcher demo_sub demo_cancelled) \<and>
   \<not> sub_active (hub_watcher demo_sub demo_cancelled) demo_sub"
  using hub_done_subscription_removable [OF demo_cancelled_run demo_active(2) demo_done] demo_active(2)
  by simp

text \<open>
  After \<^verbatim>\<open>Close\<close>, every subscription of the hub is cancelled, lookups find nothing, and a
  further \<^verbatim>\<open>Subscribe\<close> panics on the nil map instead of returning, whatever its arguments.
\<close>

theorem hub_Close_effect:
  "(sub_active h x \<longrightarrow> ctx_Done (contexts (hub_Close h)) (sub_cancel x)) \<and>
   hub_lookup (hub_Close h) t = None \<and> hub_Subscribe c t rcv (hub_Close h) = Inl NilMapWrite"
  by (simp add: hub_Close_done hub_Subscribe_nil_map)

theorem hub_Close_effect_witness:
  "sub_active demo_hub demo_sub \<and> ctx_Done (contexts (hub_Close demo_hub)) (sub_cancel demo_sub) \<and>
   hub_Subscribe Background ''/a'' (\<lambda>_ _. (None, [])) (hub_Close demo_hub) = Inl NilMapWrite"
  using hub_Close_effect [of demo_hub demo_sub "''/a''" Background "\<lambda>_ _. (None, [])"] demo_active(1) by simp

end
