(* ===== verification/HubLock.thy ===== *)
theory HubLock
  imports Hub
begin

text \<open>
  The hub's \<^verbatim>\<open>sync.RWMutex\<close> and \<^verbatim>\<open>Broadcast\<close> (\<^verbatim>\<open>src/pubsub/hub.go\<close>). A method that takes the write
  lock runs its body in one transition, since nothing else can touch the hub meanwhile; \<^verbatim>\<open>Broadcast\<close>
  holds the read lock while the receivers run, and calls \<^verbatim>\<open>unsubscribe\<close>, which takes the write lock,
  before its deferred \<^verbatim>\<open>RUnlock\<close>.
\<close>

section \<open>Goroutines and the lock\<close>

text \<open>The bodies that run under the write lock.\<close>

datatype 'm wop =
    WSubscribe ctx string "'m ReceiveFunc"
  | WCancel "string list"
  | WUnsubscribe "'m subscription list"
  | WClose

fun exec_wop :: "'m wop \<Rightarrow> 'm hub \<Rightarrow> 'm hub" where
  "exec_wop (WSubscribe c t rcv) h =
     (case hub_Subscribe c t rcv h of Inl _ \<Rightarrow> h | Inr (h', _) \<Rightarrow> h')"
| "exec_wop (WCancel ts) h = hub_Cancel ts h"
| "exec_wop (WUnsubscribe ss) h = hub_unsubscribe ss h"
| "exec_wop WClose h = hub_Close h"

text \<open>
  Where a goroutine is: outside the hub, waiting in \<^verbatim>\<open>Lock\<close> for one of the bodies above, waiting in
  \<^verbatim>\<open>RLock\<close> of \<^verbatim>\<open>Broadcast\<close>, running the receivers of a broadcasting (those still to finish and those
  that returned an error), or waiting in \<^verbatim>\<open>Lock\<close> of the \<^verbatim>\<open>unsubscribe\<close> at the end of \<^verbatim>\<open>Broadcast\<close>.
\<close>

datatype 'm pc =
    Outside
  | WaitLock "'m wop"
  | WaitRLock string 'm
  | Receiving 'm "'m subscription list" "'m subscription list"
  | BroadcastUnsub "'m subscription list"

fun holds_read :: "'m pc \<Rightarrow> bool" where
  "holds_read (Receiving msg todo failed) = True"
| "holds_read (BroadcastUnsub failed) = True"
| "holds_read _ = False"

fun waits_write :: "'m pc \<Rightarrow> bool" where
  "waits_write (WaitLock w) = True"
| "waits_write (BroadcastUnsub failed) = True"
| "waits_write _ = False"

record 'm hub_threads =
  the_hub :: "'m hub"
  pcs :: "nat \<Rightarrow> 'm pc"

text \<open>Contexts as they may be later on: none that is done becomes undone.\<close>

definition ctx_later :: "ctxs \<Rightarrow> ctxs \<Rightarrow> bool" where
  "ctx_later g g' \<longleftrightarrow> (\<forall>c. ctx_Done g c \<longrightarrow> ctx_Done g' c)"

text \<open>The receivers of a broadcasting that fail on a message from now on, whatever else is cancelled.\<close>

definition failing :: "'m \<Rightarrow> ctxs \<Rightarrow> 'm broadcasting \<Rightarrow> 'm subscription list" where
  "failing msg g br = filter (\<lambda>s. \<forall>g'. ctx_later g g' \<longrightarrow> fst (receive s msg g') \<noteq> None) br"

text \<open>
  \<^verbatim>\<open>RWMutex\<close>: the write lock is granted when no goroutine holds the lock; the read lock when no
  goroutine holds or waits for the write lock. The write lock is held only inside the transitions
  \<open>do_write\<close> and \<open>broadcast_unsub\<close>. The receivers run in parallel and may finish in any order, or never; each reads
  the contexts as they are and may cancel some. Contexts are no part of what the lock protects: anybody derives
  and cancels them at any time.
\<close>

inductive lock_step :: "'m hub_threads \<Rightarrow> 'm hub_threads \<Rightarrow> bool" where
  call_write: "pcs s i = Outside \<Longrightarrow> lock_step s (s\<lparr>pcs := (pcs s)(i := WaitLock w)\<rparr>)"
| do_write: "pcs s i = WaitLock w \<Longrightarrow> \<forall>j. \<not> holds_read (pcs s j) \<Longrightarrow>
    lock_step s (s\<lparr>the_hub := exec_wop w (the_hub s), pcs := (pcs s)(i := Outside)\<rparr>)"
| call_broadcast: "pcs s i = Outside \<Longrightarrow> lock_step s (s\<lparr>pcs := (pcs s)(i := WaitRLock t msg)\<rparr>)"
| broadcast_skip: "pcs s i = WaitRLock t msg \<Longrightarrow> \<forall>j. \<not> waits_write (pcs s j) \<Longrightarrow>
    hub_lookup (the_hub s) t = None \<Longrightarrow> lock_step s (s\<lparr>pcs := (pcs s)(i := Outside)\<rparr>)"
| broadcast_start: "pcs s i = WaitRLock t msg \<Longrightarrow> \<forall>j. \<not> waits_write (pcs s j) \<Longrightarrow>
    hub_lookup (the_hub s) t = Some br \<Longrightarrow>
    lock_step s (s\<lparr>pcs := (pcs s)(i := Receiving msg br [])\<rparr>)"
| receive_done: "pcs s i = Receiving msg (ys @ x # zs) failed \<Longrightarrow>
    receive x msg (contexts (the_hub s)) = (err, cs) \<Longrightarrow>
    lock_step s (s\<lparr>the_hub := (the_hub s)\<lparr>contexts := fold ctx_cancel cs (contexts (the_hub s))\<rparr>,
      pcs := (pcs s)(i := Receiving msg (ys @ zs) (if err = None then failed else failed @ [x]))\<rparr>)"
| broadcast_ok: "pcs s i = Receiving msg [] [] \<Longrightarrow> lock_step s (s\<lparr>pcs := (pcs s)(i := Outside)\<rparr>)"
| broadcast_failed: "pcs s i = Receiving msg [] failed \<Longrightarrow> failed \<noteq> [] \<Longrightarrow>
    lock_step s (s\<lparr>pcs := (pcs s)(i := BroadcastUnsub failed)\<rparr>)"
| broadcast_unsub: "pcs s i = BroadcastUnsub failed \<Longrightarrow> \<forall>j. \<not> holds_read (pcs s j) \<Longrightarrow>
    lock_step s (s\<lparr>the_hub := hub_unsubscribe failed (the_hub s), pcs := (pcs s)(i := Outside)\<rparr>)"
| ctx_derived: "lock_step s (s\<lparr>the_hub := (the_hub s)\<lparr>contexts := fst (WithCancel c (contexts (the_hub s)))\<rparr>\<rparr>)"
| ctx_cancelled: "ctx_known (contexts (the_hub s)) c \<Longrightarrow>
    lock_step s (s\<lparr>the_hub := (the_hub s)\<lparr>contexts := ctx_cancel c (contexts (the_hub s))\<rparr>\<rparr>)"

inductive lock_steps :: "'m hub_threads \<Rightarrow> 'm hub_threads \<Rightarrow> bool" where
  none: "lock_steps s s"
| more: "lock_steps s t \<Longrightarrow> lock_step t u \<Longrightarrow> lock_steps s u"

inductive_cases lock_stepE: "lock_step s t"

lemma lock_steps_trans: "lock_steps s t \<Longrightarrow> lock_steps t u \<Longrightarrow> lock_steps s u"
  by (rotate_tac, induction rule: lock_steps.induct) (auto intro: lock_steps.more)

lemma lock_steps_one: "lock_step s t \<Longrightarrow> lock_steps s t"
  by (rule lock_steps.more [OF lock_steps.none])

section \<open>A read lock freezes the hub\<close>

text \<open>While a lock is held, nothing but the contexts changes, and these only go on.\<close>

definition frozen :: "'m hub \<Rightarrow> 'm hub \<Rightarrow> bool" where
  "frozen h h' \<longleftrightarrow> h' = h\<lparr>contexts := contexts h'\<rparr> \<and> ctx_later (contexts h) (contexts h')"

lemma ctx_later_refl [simp]: "ctx_later g g"
  by (simp add: ctx_later_def)

lemma ctx_later_trans: "ctx_later g g' \<Longrightarrow> ctx_later g' g'' \<Longrightarrow> ctx_later g g''"
  by (simp add: ctx_later_def)

lemma frozen_iff: "frozen h h' \<longleftrightarrow> (\<exists>g. h' = h\<lparr>contexts := g\<rparr> \<and> ctx_later (contexts h) g)"
  unfolding frozen_def by (auto intro: exI [of _ "contexts h'"])

lemma frozen_refl [simp]: "frozen h h"
  by (simp add: frozen_def)

lemma frozen_trans: "frozen h h' \<Longrightarrow> frozen h' h'' \<Longrightarrow> frozen h h''"
  by (fastforce simp: frozen_iff intro: ctx_later_trans)

lemma frozen_later: "frozen h h' \<Longrightarrow> ctx_later (contexts h) (contexts h')"
  by (simp add: frozen_def)

lemma frozen_lookup: "frozen h h' \<Longrightarrow> hub_lookup h' = hub_lookup h"
  by (auto simp: frozen_iff)

lemma frozen_cancels: "frozen h (h\<lparr>contexts := fold ctx_cancel cs (contexts h)\<rparr>)"
  by (simp add: frozen_def ctx_later_def gctx.fold_cancel_mono)

lemma lock_step_frozen: "lock_step s t \<Longrightarrow> holds_read (pcs s i) \<Longrightarrow> frozen (the_hub s) (the_hub t)"
proof (induction rule: lock_step.induct)
  case (ctx_derived s c)
  then show ?case by (simp add: frozen_def ctx_later_def ctx_Done_def WithCancel_def)
next
  case (ctx_cancelled s c)
  then show ?case using frozen_cancels [of "the_hub s" "[c]"] by simp
qed (auto simp: frozen_cancels)

text \<open>
  A \<^verbatim>\<open>Broadcast\<close> that is doomed from some time on, when the contexts were \<open>g\<close>: a receiver has failed already or
  will fail, or it waits for the write lock.
\<close>

definition doomed :: "ctxs \<Rightarrow> 'm \<Rightarrow> 'm pc \<Rightarrow> bool" where
  "doomed g msg p \<longleftrightarrow>
     (\<exists>todo failed. p = Receiving msg todo failed \<and> (failed \<noteq> [] \<or> failing msg g todo \<noteq> [])) \<or>
     (\<exists>failed. p = BroadcastUnsub failed)"

lemma doomed_reads: "doomed g msg p \<Longrightarrow> holds_read p"
  by (auto simp: doomed_def)

lemma failing_Nil: "failing msg g [] = []"
  by (simp add: failing_def)

lemma failing_middle:
  assumes "failing msg g (ys @ x # zs) \<noteq> []" and "failing msg g (ys @ zs) = []" and "ctx_later g g'"
  shows "fst (receive x msg g') \<noteq> None"
  using assms by (auto simp: failing_def split: if_splits)

lemma lock_step_doomed:
  assumes "lock_step s t" and "doomed g msg (pcs s i)" and "ctx_later g (contexts (the_hub s))"
  shows "doomed g msg (pcs t i)"
  using assms
proof (induction rule: lock_step.induct)
  case (receive_done s j msg' ys x zs failed err cs)
  show ?case
  proof (cases "i = j")
    case True
    then have m: "msg' = msg" "failed \<noteq> [] \<or> failing msg g (ys @ x # zs) \<noteq> []"
      using receive_done by (auto simp: doomed_def)
    have "err \<noteq> None" if "failed = []" "failing msg g (ys @ zs) = []"
      using failing_middle [OF _ that(2) receive_done(4), of x] m that(1) receive_done(2) by simp
    then show ?thesis using True m(1) by (auto simp: doomed_def)
  qed (use receive_done in auto)
next
  case (broadcast_ok s j msg')
  then show ?case by (cases "i = j") (auto simp: doomed_def failing_Nil)
next
  case (broadcast_failed s j msg' failed)
  then show ?case by (cases "i = j") (auto simp: doomed_def)
next
  case (broadcast_unsub s j failed)
  then show ?case by (auto dest: doomed_reads)
qed (auto simp: doomed_def)

lemma lock_steps_doomed:
  assumes "lock_steps s t" and "doomed g msg (pcs s i)" and "ctx_later g (contexts (the_hub s))"
  shows "doomed g msg (pcs t i) \<and> frozen (the_hub s) (the_hub t)"
  using assms
proof (induction rule: lock_steps.induct)
  case (more s t u)
  then have t: "doomed g msg (pcs t i)" "frozen (the_hub s) (the_hub t)" by blast+
  then have "ctx_later g (contexts (the_hub t))" using more.prems(2) frozen_later ctx_later_trans by blast
  then show ?case
    using lock_step_doomed [OF more.hyps(2) t(1)] lock_step_frozen [OF more.hyps(2) doomed_reads [OF t(1)]] t(2)
      frozen_trans by blast
qed simp

text \<open>Left alone, the receivers of a broadcasting all finish.\<close>

lemma receivers_finish:
  "pcs s i = Receiving msg todo failed \<Longrightarrow>
     \<exists>t fs. lock_steps s t \<and> pcs t = (pcs s)(i := Receiving msg [] (failed @ fs)) \<and>
       set (failing msg (contexts (the_hub s)) todo) \<subseteq> set fs \<and> set fs \<subseteq> set todo \<and> frozen (the_hub s) (the_hub t) \<and>
       ((\<forall>x\<in>set todo. \<forall>g. fst (receive x msg g) = None) \<longrightarrow> fs = [])"
proof (induction todo arbitrary: s failed)
  case Nil
  then have "pcs s = (pcs s)(i := Receiving msg [] (failed @ []))" by auto
  then show ?case using lock_steps.none [of s] by (metis failing_Nil frozen_refl order_refl)
next
  case (Cons x todo)
  obtain err cs where r: "receive x msg (contexts (the_hub s)) = (err, cs)" by fastforce
  let ?f = "if err = None then [] else [x]"
  let ?h = "(the_hub s)\<lparr>contexts := fold ctx_cancel cs (contexts (the_hub s))\<rparr>"
  let ?t = "s\<lparr>the_hub := ?h, pcs := (pcs s)(i := Receiving msg todo (failed @ ?f))\<rparr>"
  have step: "lock_step s ?t"
    using receive_done [of s i msg "[]" x todo failed err cs] Cons.prems r by (cases err) simp_all
  have "pcs ?t i = Receiving msg todo (failed @ ?f)" by simp
  from Cons.IH [OF this] obtain u fs where u: "lock_steps ?t u" "pcs u = (pcs ?t)(i := Receiving msg [] ((failed @ ?f) @ fs))"
      "set (failing msg (contexts (the_hub ?t)) todo) \<subseteq> set fs" "set fs \<subseteq> set todo" "frozen (the_hub ?t) (the_hub u)"
      "(\<forall>x\<in>set todo. \<forall>g. fst (receive x msg g) = None) \<longrightarrow> fs = []"
    by blast
  have later: "ctx_later (contexts (the_hub s)) (contexts ?h)" by (rule frozen_later [OF frozen_cancels])
  then have sub: "set (failing msg (contexts (the_hub s)) todo) \<subseteq> set (failing msg (contexts ?h) todo)"
    by (auto simp: failing_def intro: ctx_later_trans)
  have hd: "err \<noteq> None" if "x \<in> set (failing msg (contexts (the_hub s)) [x])"
  proof -
    have "fst (receive x msg (contexts (the_hub s))) \<noteq> None" using that by (auto simp: failing_def split: if_splits)
    then show ?thesis using r by simp
  qed
  have "lock_steps s u" using lock_steps_trans [OF lock_steps_one [OF step] u(1)] .
  moreover have "pcs u = (pcs s)(i := Receiving msg [] (failed @ (?f @ fs)))" using u(2) by simp
  moreover have "set (failing msg (contexts (the_hub s)) (x # todo)) \<subseteq> set (?f @ fs)"
    using sub u(3) hd by (auto simp: failing_def split: if_splits)
  moreover have "frozen (the_hub s) (the_hub u)" using frozen_trans [OF frozen_cancels [of "the_hub s" cs]] u(5) by simp
  moreover have "?f @ fs = []" if "\<forall>y\<in>set (x # todo). \<forall>g. fst (receive y msg g) = None"
    using that u(6) r by (metis append_Nil fst_conv list.set_intros)
  ultimately show ?case using u(4) by (intro exI [of _ u] exI [of _ "?f @ fs"]) auto
qed

text \<open>A goroutine that broadcasts to a subscription; the callback of the second one fails.\<close>

definition demo_broadcast :: "nat subscription \<Rightarrow> nat hub_threads" where
  "demo_broadcast x = \<lparr>the_hub = demo_hub, pcs = (\<lambda>_. Outside)(0 := Receiving 7 [x] [])\<rparr>"

definition demo_bad_sub :: "nat subscription" where
  "demo_bad_sub = demo_sub\<lparr>receive := (\<lambda>_ _. (Some Canceled, []))\<rparr>"

section \<open>When no callback fails\<close>

definition never_fails :: "'m ReceiveFunc \<Rightarrow> bool" where
  "never_fails rcv \<longleftrightarrow> (\<forall>msg g. fst (rcv msg g) = None)"

text \<open>A goroutine that has seen no failure and brings no callback that can fail.\<close>

fun ok_pc :: "'m pc \<Rightarrow> bool" where
  "ok_pc (Receiving msg todo failed) \<longleftrightarrow> failed = [] \<and> (\<forall>x\<in>set todo. never_fails (receive x))"
| "ok_pc (BroadcastUnsub failed) \<longleftrightarrow> False"
| "ok_pc (WaitLock (WSubscribe c t rcv)) \<longleftrightarrow> never_fails rcv"
| "ok_pc _ \<longleftrightarrow> True"

definition safe_hub :: "'m hub \<Rightarrow> bool" where
  "safe_hub h \<longleftrightarrow> (\<forall>t br. hub_lookup h t = Some br \<longrightarrow> (\<forall>x\<in>set br. never_fails (receive x)))"

definition no_failures :: "'m hub_threads \<Rightarrow> bool" where
  "no_failures s \<longleftrightarrow> safe_hub (the_hub s) \<and> (\<forall>j. ok_pc (pcs s j))"

lemma safe_hub_frozen: "frozen h h' \<Longrightarrow> safe_hub h \<Longrightarrow> safe_hub h'"
  by (simp add: safe_hub_def frozen_lookup)

lemma unsubscribe_loop_subset:
  "hub_lookup (fst (hub_unsubscribe_loop ss r h)) t = Some br \<Longrightarrow>
     \<exists>br'. hub_lookup h t = Some br' \<and> set br \<subseteq> set br'"
proof (induction ss arbitrary: r h br)
  case (Cons s ss)
  show ?case
  proof (cases "hub_lookup h (topic s)")
    case None
    then show ?thesis using Cons by (simp add: hub_unsubscribe_loop_Cons)
  next
    case (Some b)
    have "hub_lookup (fst (hub_unsubscribe_loop ss (if filter (\<lambda>x. sid x \<noteq> sid s) b = [] then r @ [topic s] else r)
        (unsub_turn s b h))) t = Some br" using Cons.prems Some by (simp add: hub_unsubscribe_loop_Cons)
    from Cons.IH [OF this] obtain br' where "hub_lookup (unsub_turn s b h) t = Some br'" "set br \<subseteq> set br'" by blast
    then show ?thesis using Some by (auto simp: unsub_turn_lookup Let_def split: if_splits)
  qed
qed simp

lemma exec_wop_safe:
  assumes "safe_hub h" and "ok_pc (WaitLock w)"
  shows "safe_hub (exec_wop w h)"
proof (cases w)
  case (WSubscribe c t rcv)
  show ?thesis
  proof (cases "hub_Subscribe c t rcv h")
    case (Inr p)
    obtain h' s where p: "hub_Subscribe c t rcv h = Inr (h', s)" using Inr by (cases p) simp
    then show ?thesis
    proof (rule hub_SubscribeE)
      assume l: "hub_lookup h' = (hub_lookup h)(t \<mapsto> the_default [] (hub_lookup h t) @ [s])"
        and "s = \<lparr>sid = next_sid h, topic = t, receive = rcv, sub_cancel = sub_cancel s\<rparr>"
      then have "receive s = rcv" by (metis subscription.select_convs(3))
      then show ?thesis
        using assms p l WSubscribe by (auto simp: safe_hub_def the_default_def split: if_splits option.splits)
    qed
  qed (use assms WSubscribe in simp)
next
  case (WCancel ts)
  then show ?thesis using assms(1) by (auto simp: safe_hub_def hub_Cancel_lookup split: if_splits)
next
  case (WUnsubscribe ss)
  have "hub_lookup (hub_unsubscribe ss h) = hub_lookup (fst (hub_unsubscribe_loop ss [] h))"
    by (simp add: hub_unsubscribe_eq)
  then show ?thesis
    using assms(1) WUnsubscribe unsubscribe_loop_subset [of ss "[]" h] by (fastforce simp: safe_hub_def)
next
  case WClose
  then show ?thesis by (simp add: safe_hub_def)
qed

text \<open>A goroutine that is next in line returns: first the readers, then the writers, then new readers.\<close>

lemma reader_returns:
  assumes "no_failures s" and "pcs s i = Receiving msg todo failed"
  shows "\<exists>t. lock_steps s t \<and> no_failures t \<and> pcs t = (pcs s)(i := Outside)"
proof -
  have ok: "failed = []" "\<forall>x\<in>set todo. \<forall>g. fst (receive x msg g) = None"
    using assms by (auto simp: no_failures_def never_fails_def dest!: spec [of _ i])
  obtain t where t: "lock_steps s t" "pcs t = (pcs s)(i := Receiving msg [] [])" "frozen (the_hub s) (the_hub t)"
    using receivers_finish [OF assms(2)] ok by auto
  have "lock_step t (t\<lparr>pcs := (pcs t)(i := Outside)\<rparr>)" by (rule broadcast_ok) (simp add: t(2))
  then have "lock_steps s (t\<lparr>pcs := (pcs t)(i := Outside)\<rparr>)" using t(1) lock_steps.more by blast
  then show ?thesis
    using assms(1) safe_hub_frozen [OF t(3)] t(2)
    by (intro exI [of _ "t\<lparr>pcs := (pcs t)(i := Outside)\<rparr>"] conjI) (auto simp: no_failures_def)
qed

lemma writer_returns:
  assumes "no_failures s" and "pcs s i = WaitLock w" and "\<forall>j. \<not> holds_read (pcs s j)"
  shows "\<exists>t. lock_steps s t \<and> no_failures t \<and> pcs t = (pcs s)(i := Outside)"
proof -
  have "ok_pc (WaitLock w)" using assms(1,2) by (metis no_failures_def)
  from exec_wop_safe [OF _ this] have "safe_hub (exec_wop w (the_hub s))" using assms(1) by (simp add: no_failures_def)
  then show ?thesis
    using lock_steps_one [OF do_write [OF assms(2,3)]] assms(1)
    by (intro exI [of _ "s\<lparr>the_hub := exec_wop w (the_hub s), pcs := (pcs s)(i := Outside)\<rparr>"] conjI) (auto simp: no_failures_def)
qed

lemma waiting_reader_returns:
  assumes "no_failures s" and "pcs s i = WaitRLock tp msg" and "\<forall>j. \<not> waits_write (pcs s j)"
  shows "\<exists>t. lock_steps s t \<and> no_failures t \<and> pcs t = (pcs s)(i := Outside)"
proof (cases "hub_lookup (the_hub s) tp")
  case None
  then show ?thesis
    using lock_steps_one [OF broadcast_skip [OF assms(2,3)]] assms(1)
    by (intro exI [of _ "s\<lparr>pcs := (pcs s)(i := Outside)\<rparr>"] conjI) (auto simp: no_failures_def)
next
  case (Some br)
  let ?t = "s\<lparr>pcs := (pcs s)(i := Receiving msg br [])\<rparr>"
  have "no_failures ?t" using assms(1) Some by (auto simp: no_failures_def safe_hub_def)
  then obtain t where "lock_steps ?t t" "no_failures t" "pcs t = (pcs ?t)(i := Outside)"
    using reader_returns [of ?t i msg br "[]"] by auto
  then show ?thesis
    using lock_steps_trans [OF lock_steps_one [OF broadcast_start [OF assms(2,3) Some]]] by auto
qed

lemma someone_returns:
  assumes "no_failures s" and "pcs s i \<noteq> Outside"
  shows "\<exists>j t. pcs s j \<noteq> Outside \<and> lock_steps s t \<and> no_failures t \<and> pcs t = (pcs s)(j := Outside)"
proof -
  have ok: "ok_pc (pcs s j)" for j using assms(1) by (simp add: no_failures_def)
  consider (reader) j msg todo failed where "pcs s j = Receiving msg todo failed"
    | (writer) j w where "pcs s j = WaitLock w" "\<forall>j. \<not> holds_read (pcs s j)"
    | (waiter) tp msg where "pcs s i = WaitRLock tp msg" "\<forall>j. \<not> waits_write (pcs s j)"
  proof (cases "\<exists>j. holds_read (pcs s j)")
    case True
    then obtain j where "holds_read (pcs s j)" by blast
    then show thesis using ok [of j] reader by (cases "pcs s j") auto
  next
    case none: False
    show thesis
    proof (cases "\<exists>j. waits_write (pcs s j)")
      case True
      then obtain j where "waits_write (pcs s j)" by blast
      then show thesis using none writer ok [of j] by (cases "pcs s j") auto
    next
      case False
      then show thesis using assms(2) none waiter by (cases "pcs s i") (metis holds_read.simps waits_write.simps)+
    qed
  qed
  then show ?thesis
  proof cases
    case reader then show ?thesis using reader_returns [OF assms(1) reader] by (intro exI [of _ j]) auto
  next
    case writer then show ?thesis using writer_returns [OF assms(1) writer] by (intro exI [of _ j]) auto
  next
    case waiter then show ?thesis using waiting_reader_returns [OF assms(1) waiter] assms(2) by (intro exI [of _ i]) auto
  qed
qed

section \<open>Properties of the lock\<close>


definition demo_busy :: "nat hub_threads" where
  "demo_busy = \<lparr>the_hub = demo_hub, pcs = (\<lambda>_. Outside)(0 := Receiving 7 [demo_sub] [], 1 := WaitLock (WCancel [''/a'']),
     2 := WaitRLock ''/a'' 8)\<rparr>"


text \<open>
  (C27) A \<^verbatim>\<open>Broadcast\<close> of which at least one receiver has returned an error, or is bound to return one, never returns, and
  the hub is frozen for ever after: in every later state the goroutine is still inside \<^verbatim>\<open>Broadcast\<close>, it holds the read
  lock, and the hub's state but for the contexts is unchanged, so no \<^verbatim>\<open>Subscribe\<close>, \<^verbatim>\<open>Cancel\<close>, \<^verbatim>\<open>unsubscribe\<close> or
  \<^verbatim>\<open>Close\<close> of any goroutine ever completes. The goroutine does reach the call of \<^verbatim>\<open>unsubscribe\<close> if its receivers return,
  which waits for the write lock while the same goroutine holds the read lock. The comment on \<^verbatim>\<open>Broadcast\<close> says that such
  subscriptions are deactivated.
\<close>

theorem Broadcast_error_deadlocks:
  assumes "pcs s i = Receiving msg todo failed"
    and "failed @ failing msg (contexts (the_hub s)) todo \<noteq> []"
  shows "(\<exists>t fs. lock_steps s t \<and> pcs t i = BroadcastUnsub (failed @ fs) \<and>
      set (failing msg (contexts (the_hub s)) todo) \<subseteq> set fs) \<and>
    (\<forall>t. lock_steps s t \<longrightarrow> pcs t i \<noteq> Outside \<and> holds_read (pcs t i) \<and>
      (the_hub t)\<lparr>contexts := contexts (the_hub s)\<rparr> = the_hub s)"
proof (intro conjI allI impI)
  obtain t fs where t: "lock_steps s t" "pcs t = (pcs s)(i := Receiving msg [] (failed @ fs))"
      "set (failing msg (contexts (the_hub s)) todo) \<subseteq> set fs"
    using receivers_finish [OF assms(1)] by blast
  have "lock_step t (t\<lparr>pcs := (pcs t)(i := BroadcastUnsub (failed @ fs))\<rparr>)"
    by (rule broadcast_failed [of _ _ msg]) (use assms(2) t(2,3) in auto)
  then show "\<exists>t fs. lock_steps s t \<and> pcs t i = BroadcastUnsub (failed @ fs) \<and>
      set (failing msg (contexts (the_hub s)) todo) \<subseteq> set fs"
    using lock_steps.more [OF t(1)] t(3) by fastforce
next
  fix t assume run: "lock_steps s t"
  have "doomed (contexts (the_hub s)) msg (pcs s i)" using assms by (auto simp: doomed_def)
  from lock_steps_doomed [OF run this ctx_later_refl]
  have d: "doomed (contexts (the_hub s)) msg (pcs t i)" and f: "frozen (the_hub s) (the_hub t)" by blast+
  from f show "(the_hub t)\<lparr>contexts := contexts (the_hub s)\<rparr> = the_hub s" by (auto simp: frozen_iff)
  from d show "holds_read (pcs t i)" by (rule doomed_reads)
  then show "pcs t i \<noteq> Outside" by auto
qed

theorem Broadcast_error_deadlocks_witness:
  "\<exists>t fs. lock_steps (demo_broadcast demo_bad_sub) t \<and> pcs t 0 = BroadcastUnsub fs \<and> demo_bad_sub \<in> set fs \<and>
     holds_read (pcs t 0)"
proof -
  have at: "pcs (demo_broadcast demo_bad_sub) 0 = Receiving 7 [demo_bad_sub] []"
    by (simp add: demo_broadcast_def)
  have f: "failing 7 g [demo_bad_sub] = [demo_bad_sub]" for g
    by (simp add: failing_def demo_bad_sub_def)
  show ?thesis
    using Broadcast_error_deadlocks [OF at] unfolding f by fastforce
qed

end
