(* ===== verification/Router.thy ===== *)
theory Router
  imports Prelude
begin

text \<open>
  The route tree of the broker (\<^verbatim>\<open>src/pubsub/broker-router.go\<close>): its nodes, and the registration of
  routes by \<^verbatim>\<open>Add\<close> and \<^verbatim>\<open>insert\<close>. Handler functions are values of a type \<open>'h\<close>; a nil handler is \<open>None\<close>.
  The tree is a datatype: a node owns its children, and the parent pointer of a node is the node it
  hangs from, which theory \<open>RouterFind\<close> keeps as the stack of ancestors while it walks the tree.
\<close>

section \<open>Methods\<close>

definition MethodPub :: string where "MethodPub = ''PUB''"
definition MethodSub :: string where "MethodSub = ''SUB''"
definition MethodUnsub :: string where "MethodUnsub = ''UNSUB''"
definition RouteNotFound :: string where "RouteNotFound = ''pubsub_route_not_found''"

lemmas method_defs [node_defs] = MethodPub_def MethodSub_def MethodUnsub_def RouteNotFound_def

record 'h routeMethod =
  ppath :: string
  pnames :: "string list"
  handler :: "'h option"

text \<open>The zero value \<^verbatim>\<open>routeMethod{}\<close>, with a nil handler.\<close>

definition zeroMethod :: "'h routeMethod" where
  [node_defs]: "zeroMethod = \<lparr>ppath = [], pnames = [], handler = None\<rparr>"

record 'h routeMethods =
  m_pub :: "'h routeMethod option"
  m_sub :: "'h routeMethod option"
  m_unsub :: "'h routeMethod option"
  m_others :: "(string \<times> 'h routeMethod) list"

definition newMethods :: "'h routeMethods" where
  [node_defs]: "newMethods = \<lparr>m_pub = None, m_sub = None, m_unsub = None, m_others = []\<rparr>"

definition methods_isHandler :: "'h routeMethods \<Rightarrow> bool" where
  [node_defs]: "methods_isHandler r \<longleftrightarrow>
     m_pub r \<noteq> None \<or> m_sub r \<noteq> None \<or> m_unsub r \<noteq> None \<or> m_others r \<noteq> []"

definition methods_set :: "string \<Rightarrow> 'h routeMethod \<Rightarrow> 'h routeMethods \<Rightarrow> 'h routeMethods" where
  "methods_set meth rm r =
     (if meth = MethodPub then r\<lparr>m_pub := Some rm\<rparr>
      else if meth = MethodSub then r\<lparr>m_sub := Some rm\<rparr>
      else if meth = MethodUnsub then r\<lparr>m_unsub := Some rm\<rparr>
      else if handler rm = None then r\<lparr>m_others := AList.delete meth (m_others r)\<rparr>
      else r\<lparr>m_others := AList.update meth rm (m_others r)\<rparr>)"

definition methods_get :: "string \<Rightarrow> 'h routeMethods \<Rightarrow> 'h routeMethod option" where
  "methods_get meth r =
     (if meth = MethodPub then m_pub r
      else if meth = MethodSub then m_sub r
      else if meth = MethodUnsub then m_unsub r
      else map_of (m_others r) meth)"

section \<open>Nodes\<close>

datatype kind = staticKind | paramKind | anyKind

definition paramLabel :: char where "paramLabel = CHR '':''"
definition anyLabel :: char where "anyLabel = CHR ''*''"

lemmas label_defs [node_defs] = paramLabel_def anyLabel_def

datatype 'h node = Node
  (n_kind: kind)
  (n_label: char)
  (n_prefix: string)
  (n_staticChildren: "'h node list")
  (n_originalPath: string)
  (n_methods: "'h routeMethods")
  (n_paramChild: "'h node option")
  (n_anyChild: "'h node option")
  (n_paramsCount: nat)
  (n_isLeaf: bool)
  (n_isHandler: bool)
  (n_notFoundHandler: "'h routeMethod option")

text \<open>
  The tree of \<^verbatim>\<open>NewHandlerRouter\<close>, Go's zero value but for \<^verbatim>\<open>methods\<close>. The slice of static children is
  nil exactly when it is empty: it only ever grows from nil.
\<close>

definition zeroNode :: "'h node" where
  "zeroNode = Node staticKind (CHR 0x00) [] [] [] newMethods None None 0 False False None"

definition isLeafNode :: "'h node \<Rightarrow> bool" where
  "isLeafNode n \<longleftrightarrow> n_staticChildren n = [] \<and> n_paramChild n = None \<and> n_anyChild n = None"

text \<open>\<^verbatim>\<open>newNode\<close>; taking the first byte of an empty prefix would panic.\<close>

definition newNode ::
  "kind \<Rightarrow> string \<Rightarrow> 'h node list \<Rightarrow> string \<Rightarrow> 'h routeMethods \<Rightarrow> nat \<Rightarrow> 'h node option \<Rightarrow>
   'h node option \<Rightarrow> 'h routeMethod option \<Rightarrow> 'h node option" where
  "newNode t pre sc originalPath methods paramsCount paramChildren anyChildren nfh =
     (case pre of
        [] \<Rightarrow> None
      | l # _ \<Rightarrow> Some (Node t l pre sc originalPath methods paramChildren anyChildren paramsCount
                 (sc = [] \<and> paramChildren = None \<and> anyChildren = None)
                 (methods_isHandler methods) nfh))"

text \<open>Field updates.\<close>

fun set_kind :: "kind \<Rightarrow> 'h node \<Rightarrow> 'h node" where
  "set_kind k (Node _ l p sc op m pc ac c lf hn nf) = Node k l p sc op m pc ac c lf hn nf"

fun set_prefix :: "char \<Rightarrow> string \<Rightarrow> 'h node \<Rightarrow> 'h node" where
  "set_prefix l p (Node k _ _ sc op m pc ac c lf hn nf) = Node k l p sc op m pc ac c lf hn nf"

fun set_isLeaf :: "bool \<Rightarrow> 'h node \<Rightarrow> 'h node" where
  "set_isLeaf lf (Node k l p sc op m pc ac c _ hn nf) = Node k l p sc op m pc ac c lf hn nf"

text \<open>\<^verbatim>\<open>currentNode.paramsCount = len(rm.pnames); currentNode.originalPath = rm.ppath\<close>\<close>

fun set_route :: "nat \<Rightarrow> string \<Rightarrow> 'h node \<Rightarrow> 'h node" where
  "set_route c op (Node k l p sc _ m pc ac _ lf hn nf) = Node k l p sc op m pc ac c lf hn nf"

fun set_paramsCount :: "nat \<Rightarrow> 'h node \<Rightarrow> 'h node" where
  "set_paramsCount c (Node k l p sc op m pc ac _ lf hn nf) = Node k l p sc op m pc ac c lf hn nf"

fun set_children :: "'h node list \<Rightarrow> 'h node option \<Rightarrow> 'h node option \<Rightarrow> 'h node \<Rightarrow> 'h node" where
  "set_children sc pc ac (Node k l p _ op m _ _ c lf hn nf) = Node k l p sc op m pc ac c lf hn nf"

definition addStaticChild :: "'h node \<Rightarrow> 'h node \<Rightarrow> 'h node" where
  "addStaticChild c n = set_children (n_staticChildren n @ [c]) (n_paramChild n) (n_anyChild n) n"

fun addMethod :: "string \<Rightarrow> 'h routeMethod \<Rightarrow> 'h node \<Rightarrow> 'h node" where
  "addMethod meth rm (Node k l p sc op m pc ac c lf hn nf) =
     (if meth = RouteNotFound then Node k l p sc op m pc ac c lf hn (Some rm)
      else
        let m = methods_set meth rm m
        in Node k l p sc op m pc ac c lf (if handler rm \<noteq> None then True else methods_isHandler m) nf)"

definition findMethod :: "string \<Rightarrow> 'h node \<Rightarrow> 'h routeMethod option" where
  "findMethod meth n = methods_get meth (n_methods n)"

text \<open>
  A pointer to a child, as \<^verbatim>\<open>insert\<close> follows it to go on with the child in place: the position among
  the static children, or one of the two other children.
\<close>

datatype childRef = StaticRef nat | ParamRef | AnyRef

fun find_index :: "('a \<Rightarrow> bool) \<Rightarrow> 'a list \<Rightarrow> nat option" where
  "find_index P [] = None"
| "find_index P (x # xs) = (if P x then Some 0 else map_option Suc (find_index P xs))"

definition findStaticChild :: "char \<Rightarrow> 'h node \<Rightarrow> 'h node option" where
  "findStaticChild l n = List.find (\<lambda>c. n_label c = l) (n_staticChildren n)"

definition findChildWithLabel :: "char \<Rightarrow> 'h node \<Rightarrow> childRef option" where
  "findChildWithLabel l n =
     (case find_index (\<lambda>c. n_label c = l) (n_staticChildren n) of
        Some i \<Rightarrow> Some (StaticRef i)
      | None \<Rightarrow>
          if l = paramLabel then map_option (\<lambda>_. ParamRef) (n_paramChild n)
          else if l = anyLabel then map_option (\<lambda>_. AnyRef) (n_anyChild n)
          else None)"

fun get_child :: "childRef \<Rightarrow> 'h node \<Rightarrow> 'h node option" where
  "get_child (StaticRef i) n =
     (if i < length (n_staticChildren n) then Some (n_staticChildren n ! i) else None)"
| "get_child ParamRef n = n_paramChild n"
| "get_child AnyRef n = n_anyChild n"

fun put_child :: "childRef \<Rightarrow> 'h node \<Rightarrow> 'h node \<Rightarrow> 'h node" where
  "put_child (StaticRef i) c n =
     set_children ((n_staticChildren n)[i := c]) (n_paramChild n) (n_anyChild n) n"
| "put_child ParamRef c n = set_children (n_staticChildren n) (Some c) (n_anyChild n) n"
| "put_child AnyRef c n = set_children (n_staticChildren n) (n_paramChild n) (Some c) n"

section \<open>Inserting a path\<close>

definition add_route :: "string \<Rightarrow> 'h routeMethod \<Rightarrow> 'h node \<Rightarrow> 'h node" where
  "add_route meth rm n = set_route (length (pnames rm)) (ppath rm) (addMethod meth rm n)"

definition update_isLeaf :: "'h node \<Rightarrow> 'h node" where
  "update_isLeaf n = set_isLeaf (isLeafNode n) n"

text \<open>The four branches of the loop body of \<^verbatim>\<open>insert\<close>; \<open>None\<close> is a panic.\<close>

definition insert_root :: "string \<Rightarrow> string \<Rightarrow> kind \<Rightarrow> 'h routeMethod \<Rightarrow> 'h node \<Rightarrow> 'h node option" where
  "insert_root meth search t rm n =
     (case search of
        [] \<Rightarrow> None
      | l # _ \<Rightarrow>
          let n = set_prefix l search n;
              n = (if handler rm \<noteq> None then add_route meth rm (set_kind t n) else n)
          in Some (update_isLeaf n))"

definition insert_split ::
  "string \<Rightarrow> string \<Rightarrow> kind \<Rightarrow> 'h routeMethod \<Rightarrow> nat \<Rightarrow> 'h node \<Rightarrow> 'h node option" where
  "insert_split meth search t rm lcp n =
     (case newNode (n_kind n) (drop lcp (n_prefix n)) (n_staticChildren n) (n_originalPath n)
             (n_methods n) (n_paramsCount n) (n_paramChild n) (n_anyChild n) (n_notFoundHandler n) of
        None \<Rightarrow> None
      | Some c \<Rightarrow>
          let cur = Node staticKind (n_prefix n ! 0) (take lcp (n_prefix n)) [] [] newMethods None None 0
                      False False None;
              cur = addStaticChild c cur
          in if lcp = length search then Some (update_isLeaf (add_route meth rm (set_kind t cur)))
             else
               (case newNode t (drop lcp search) [] [] newMethods 0 None None None of
                  None \<Rightarrow> None
                | Some c \<Rightarrow>
                    let c = (if handler rm \<noteq> None then add_route meth rm c else c)
                    in Some (update_isLeaf (addStaticChild c cur))))"

definition insert_child :: "string \<Rightarrow> string \<Rightarrow> kind \<Rightarrow> 'h routeMethod \<Rightarrow> 'h node \<Rightarrow> 'h node option" where
  "insert_child meth search t rm n =
     (case newNode t search [] (ppath rm) newMethods 0 None None None of
        None \<Rightarrow> None
      | Some c \<Rightarrow>
          let c = (if handler rm \<noteq> None
                   then set_paramsCount (length (pnames rm)) (addMethod meth rm c) else c);
              n = (case t of
                     staticKind \<Rightarrow> addStaticChild c n
                   | paramKind \<Rightarrow> set_children (n_staticChildren n) (Some c) (n_anyChild n) n
                   | anyKind \<Rightarrow> set_children (n_staticChildren n) (n_paramChild n) (Some c) n)
          in Some (update_isLeaf n))"

definition insert_here :: "string \<Rightarrow> 'h routeMethod \<Rightarrow> 'h node \<Rightarrow> 'h node option" where
  "insert_here meth rm n = Some (if handler rm \<noteq> None then add_route meth rm n else n)"

text \<open>
  The loop of \<^verbatim>\<open>insert\<close>. \<^verbatim>\<open>currentNode = c; continue\<close> is the recursive call on the child, whose
  result takes the child's place.
\<close>

function insert_loop :: "string \<Rightarrow> string \<Rightarrow> kind \<Rightarrow> 'h routeMethod \<Rightarrow> 'h node \<Rightarrow> 'h node option" where
  "insert_loop meth search t rm n =
     (let lcp = lcpLen search (n_prefix n)
      in if lcp = 0 then insert_root meth search t rm n
         else if lcp < length (n_prefix n) then insert_split meth search t rm lcp n
         else if lcp < length search then
           let search = drop lcp search
           in (case findChildWithLabel (search ! 0) n of
                 Some r \<Rightarrow>
                   (case get_child r n of
                      None \<Rightarrow> None
                    | Some c \<Rightarrow> map_option (\<lambda>c. put_child r c n) (insert_loop meth search t rm c))
               | None \<Rightarrow> insert_child meth search t rm n)
         else insert_here meth rm n)"
  by pat_completeness auto
termination
  by (relation "measure (\<lambda>(m, search, t, rm, n). length search)") auto

declare insert_loop.simps [simp del]

record Route =
  r_Method :: string
  r_Path :: string
  r_Name :: string

record 'h HandlerRouter =
  tree :: "'h node"
  routes :: "(string \<times> Route) list"
  maxParam :: nat

definition NewHandlerRouter :: "'h HandlerRouter" where
  "NewHandlerRouter = \<lparr>tree = zeroNode, routes = [], maxParam = 0\<rparr>"

definition router_insert ::
  "string \<Rightarrow> string \<Rightarrow> kind \<Rightarrow> 'h routeMethod \<Rightarrow> 'h HandlerRouter \<Rightarrow> 'h HandlerRouter option" where
  "router_insert meth path t rm r =
     (let paramLen = length (pnames rm);
          r = (if maxParam r < paramLen then r\<lparr>maxParam := paramLen\<rparr> else r)
      in map_option (\<lambda>n. r\<lparr>tree := n\<rparr>) (insert_loop meth path t rm (tree r)))"

section \<open>Adding a route\<close>

text \<open>\<^verbatim>\<open>for ; i < lcpIndex && path[i] != '/'; i++ {}\<close>\<close>

function scan_slash :: "string \<Rightarrow> nat \<Rightarrow> nat" where
  "scan_slash path i =
     (if i < length path \<and> path ! i \<noteq> CHR ''/'' then scan_slash path (Suc i) else i)"
  by pat_completeness auto
termination
  by (relation "measure (\<lambda>(path, i). length path - i)") auto

declare scan_slash.simps [simp del]

lemma scan_slash_ge: "i \<le> scan_slash path i"
proof (induction path i rule: scan_slash.induct)
  case (1 path i)
  then show ?case
    using scan_slash.simps [of path i] by (cases "i < length path \<and> path ! i \<noteq> CHR ''/''") auto
qed

text \<open>
  The loop of \<^verbatim>\<open>Add\<close>. Its bound \<^verbatim>\<open>lcpIndex\<close> is \<^verbatim>\<open>len(path)\<close> throughout: the code resets or decrements
  it whenever it shortens \<^verbatim>\<open>path\<close>. After a parameter name is cut out, \<open>i\<close> is set to the position after
  the colon and then incremented by the loop.
\<close>

function add_loop ::
  "string \<Rightarrow> string \<Rightarrow> 'h option \<Rightarrow> string \<Rightarrow> nat \<Rightarrow> string list \<Rightarrow> 'h HandlerRouter \<Rightarrow>
   (string \<times> string list \<times> 'h HandlerRouter) option" where
  "add_loop meth pp h path i pn r =
     (if i < length path then
        if path ! i = CHR '':'' then
          if 0 < i \<and> path ! (i - 1) = CHR 0x5C then
            add_loop meth pp h (take (i - 1) path @ drop i path) i pn r
          else
            case router_insert meth (take i path) staticKind zeroMethod r of
              None \<Rightarrow> None
            | Some r \<Rightarrow>
                let j = i + 1;
                    k = scan_slash path i;
                    pn = pn @ [take (k - j) (drop j path)];
                    path = take j path @ drop k path;
                    rm = (if j = length path then \<lparr>ppath = pp, pnames = pn, handler = h\<rparr>
                          else zeroMethod)
                in (case router_insert meth (take j path) paramKind rm r of
                      None \<Rightarrow> None
                    | Some r \<Rightarrow> add_loop meth pp h path (j + 1) pn r)
        else if path ! i = CHR ''*'' then
          case router_insert meth (take i path) staticKind zeroMethod r of
            None \<Rightarrow> None
          | Some r \<Rightarrow>
              let pn = pn @ [''*'']
              in (case router_insert meth (take (i + 1) path) anyKind
                         \<lparr>ppath = pp, pnames = pn, handler = h\<rparr> r of
                    None \<Rightarrow> None
                  | Some r \<Rightarrow> add_loop meth pp h path (i + 1) pn r)
        else add_loop meth pp h path (i + 1) pn r
      else Some (path, pn, r))"
  by pat_completeness auto
termination
proof (relation "measure (\<lambda>(m, pp, h, path, i, pn, r). length path - i)", goal_cases)
  case (3 meth pp h path i pn r r' j k pn' path' rm r'')
  then show ?case
    using scan_slash_ge [of i path] by (auto simp: min_def)
qed auto

declare add_loop.simps [simp del]

definition clean_path :: "string \<Rightarrow> string" where
  "clean_path path =
     (let path = (if path = [] then ''/'' else path)
      in if path ! 0 \<noteq> CHR ''/'' then CHR ''/'' # path else path)"

definition router_Add ::
  "string \<Rightarrow> string \<Rightarrow> 'h option \<Rightarrow> 'h HandlerRouter \<Rightarrow> 'h HandlerRouter option" where
  "router_Add meth path h r =
     (let pp = clean_path path
      in case add_loop meth pp h pp 0 [] r of
           None \<Rightarrow> None
         | Some (path, pn, r) \<Rightarrow>
             router_insert meth path staticKind \<lparr>ppath = pp, pnames = pn, handler = h\<rparr> r)"

end
