(* ===== verification/RouterInv.thy ===== *)
theory RouterInv
  imports Router
begin

text \<open>
  The shape of the broker's route tree and what \<^verbatim>\<open>insert\<close> does to it: a well-formed tree holds at most
  one node per pattern, \<open>route\<close> reads what is registered there, and one run of the insertion loop
  never panics, keeps the tree well formed and changes \<open>route\<close> at the inserted pattern only.
\<close>


section \<open>Node updates, as constructor terms\<close>

lemma node_updates:
  "set_kind k n = Node k (n_label n) (n_prefix n) (n_staticChildren n) (n_originalPath n)
     (n_methods n) (n_paramChild n) (n_anyChild n) (n_paramsCount n) (n_isLeaf n) (n_isHandler n)
     (n_notFoundHandler n)"
  "set_prefix l p n = Node (n_kind n) l p (n_staticChildren n) (n_originalPath n)
     (n_methods n) (n_paramChild n) (n_anyChild n) (n_paramsCount n) (n_isLeaf n) (n_isHandler n)
     (n_notFoundHandler n)"
  "set_isLeaf b n = Node (n_kind n) (n_label n) (n_prefix n) (n_staticChildren n) (n_originalPath n)
     (n_methods n) (n_paramChild n) (n_anyChild n) (n_paramsCount n) b (n_isHandler n)
     (n_notFoundHandler n)"
  "set_route c op n = Node (n_kind n) (n_label n) (n_prefix n) (n_staticChildren n) op
     (n_methods n) (n_paramChild n) (n_anyChild n) c (n_isLeaf n) (n_isHandler n)
     (n_notFoundHandler n)"
  "set_paramsCount c n = Node (n_kind n) (n_label n) (n_prefix n) (n_staticChildren n)
     (n_originalPath n) (n_methods n) (n_paramChild n) (n_anyChild n) c (n_isLeaf n) (n_isHandler n)
     (n_notFoundHandler n)"
  "set_children sc pc ac n = Node (n_kind n) (n_label n) (n_prefix n) sc (n_originalPath n)
     (n_methods n) pc ac (n_paramsCount n) (n_isLeaf n) (n_isHandler n) (n_notFoundHandler n)"
  "addMethod m rm n = Node (n_kind n) (n_label n) (n_prefix n) (n_staticChildren n)
     (n_originalPath n) (if m = RouteNotFound then n_methods n else methods_set m rm (n_methods n))
     (n_paramChild n) (n_anyChild n) (n_paramsCount n) (n_isLeaf n)
     (if m = RouteNotFound then n_isHandler n
      else handler rm \<noteq> None \<or> methods_isHandler (methods_set m rm (n_methods n)))
     (if m = RouteNotFound then Some rm else n_notFoundHandler n)"
  by (cases n; simp add: Let_def)+

lemma child_size:
  "c \<in> set (n_staticChildren n) \<Longrightarrow> size c < size n"
  "c \<in> set_option (n_paramChild n) \<Longrightarrow> size c < size n"
  "c \<in> set_option (n_anyChild n) \<Longrightarrow> size c < size n"
  by (cases n, auto dest: size_list_estimation' [where f = size and y = "size c", OF _ order.refl])+

section \<open>Well-formed trees\<close>

definition special :: "char \<Rightarrow> bool" where
  "special c \<longleftrightarrow> c = paramLabel \<or> c = anyLabel"

definition specials :: "string \<Rightarrow> nat" where
  "specials s = length (filter special s)"

lemma specials_simps [simp]:
  "specials [] = 0"
  "specials (c # s) = (if special c then Suc (specials s) else specials s)"
  "specials (s @ s') = specials s + specials s'"
  by (simp_all add: specials_def)

lemma specials_0: "\<forall>c\<in>set s. \<not> special c \<Longrightarrow> specials s = 0"
  by (simp add: specials_def filter_empty_conv)

text \<open>What a node says of itself, \<open>d\<close> parameters below the root in a router with room for \<open>B\<close>.\<close>

definition node_shape :: "nat \<Rightarrow> nat \<Rightarrow> 'h node \<Rightarrow> bool" where
  "node_shape B d n \<longleftrightarrow>
     (case n_kind n of
        staticKind \<Rightarrow> n_prefix n \<noteq> [] \<and> (\<forall>c\<in>set (n_prefix n). \<not> special c) \<and> n_label n = n_prefix n ! 0
      | paramKind \<Rightarrow> n_prefix n = [paramLabel] \<and> n_label n = paramLabel \<and> d < B
      | anyKind \<Rightarrow> n_prefix n = [anyLabel] \<and> n_label n = anyLabel \<and> d < B \<and> n_paramsCount n = Suc d) \<and>
     n_isLeaf n = isLeafNode n \<and> n_isHandler n = methods_isHandler (n_methods n) \<and>
     distinct (map n_label (n_staticChildren n))"

definition level_below :: "nat \<Rightarrow> 'h node \<Rightarrow> nat" where
  "level_below d n = (if n_kind n = staticKind then d else Suc d)"

function wf_node :: "nat \<Rightarrow> nat \<Rightarrow> 'h node \<Rightarrow> bool" where
  "wf_node B d n \<longleftrightarrow>
     node_shape B d n \<and>
     (\<forall>c\<in>set (n_staticChildren n). n_kind c = staticKind \<and> wf_node B (level_below d n) c) \<and>
     (\<forall>c\<in>set_option (n_paramChild n). n_kind c = paramKind \<and> wf_node B (level_below d n) c) \<and>
     (\<forall>c\<in>set_option (n_anyChild n). n_kind c = anyKind \<and> wf_node B (level_below d n) c)"
  by pat_completeness auto
termination
  by (relation "measure (\<lambda>(B, d, n). size n)") (auto simp: child_size)

declare wf_node.simps [simp del]

lemma wf_nodeD:
  assumes "wf_node B d n"
  shows "node_shape B d n"
    and "c \<in> set (n_staticChildren n) \<Longrightarrow> n_kind c = staticKind \<and> wf_node B (level_below d n) c"
    and "n_paramChild n = Some c \<Longrightarrow> n_kind c = paramKind \<and> wf_node B (level_below d n) c"
    and "n_anyChild n = Some c \<Longrightarrow> n_kind c = anyKind \<and> wf_node B (level_below d n) c"
  using assms by (auto simp: wf_node.simps [of B d n])

lemma wf_nodeI:
  assumes "node_shape B d n"
    and "\<And>c. c \<in> set (n_staticChildren n) \<Longrightarrow> n_kind c = staticKind \<and> wf_node B (level_below d n) c"
    and "\<And>c. n_paramChild n = Some c \<Longrightarrow> n_kind c = paramKind \<and> wf_node B (level_below d n) c"
    and "\<And>c. n_anyChild n = Some c \<Longrightarrow> n_kind c = anyKind \<and> wf_node B (level_below d n) c"
  shows "wf_node B d n"
  using assms by (auto simp: wf_node.simps [of B d n])

lemma wf_node_mono: "wf_node B d n \<Longrightarrow> B \<le> B' \<Longrightarrow> wf_node B' d n"
proof (induction B d n rule: wf_node.induct)
  case (1 B d n)
  note wf = wf_nodeD [OF "1.prems"(1)]
  show ?case
  proof (rule wf_nodeI)
    show "node_shape B' d n"
      using wf(1) "1.prems"(2) by (auto simp: node_shape_def split: kind.splits)
  qed (use wf "1.IH" "1.prems"(2) in auto)
qed

lemma wf_prefix_not_empty: "wf_node B d n \<Longrightarrow> n_prefix n \<noteq> []"
  by (auto dest!: wf_nodeD(1) simp: node_shape_def split: kind.splits)

lemma wf_label: "wf_node B d n \<Longrightarrow> n_label n = n_prefix n ! 0"
  by (auto dest!: wf_nodeD(1) simp: node_shape_def split: kind.splits)

lemma wf_static_label: "wf_node B d n \<Longrightarrow> n_kind n = staticKind \<Longrightarrow> \<not> special (n_label n)"
  by (auto dest!: wf_nodeD(1) simp: node_shape_def)

lemma wf_specials: "wf_node B d n \<Longrightarrow> level_below d n = d + specials (n_prefix n)"
  by (auto dest!: wf_nodeD(1) simp: node_shape_def level_below_def special_def specials_0 split: kind.splits)

section \<open>Children by label\<close>

definition child_at :: "char \<Rightarrow> 'h node \<Rightarrow> 'h node option" where
  "child_at l n = (case findChildWithLabel l n of None \<Rightarrow> None | Some r \<Rightarrow> get_child r n)"

lemma find_index_Some: "find_index P xs = Some i \<Longrightarrow> i < length xs \<and> P (xs ! i)"
  by (induction xs arbitrary: i) (auto split: if_splits)

lemma find_index_None: "find_index P xs = None \<longleftrightarrow> (\<forall>x\<in>set xs. \<not> P x)"
  by (induction xs) auto

lemma find_index_find: "List.find P xs = map_option ((!) xs) (find_index P xs)"
  by (induction xs) (auto simp: option.map_comp comp_def)

lemma find_index_append:
  "find_index P (xs @ ys) =
     (case find_index P xs of
        Some i \<Rightarrow> Some i
      | None \<Rightarrow> map_option (\<lambda>i. length xs + i) (find_index P ys))"
  by (cases "find_index P ys"; induction xs) (auto split: option.splits)

lemma find_index_update:
  "(\<And>y. i < length xs \<Longrightarrow> xs ! i = y \<Longrightarrow> P x = P y) \<Longrightarrow> find_index P (xs[i := x]) = find_index P xs"
  by (induction xs arbitrary: i) (auto split: nat.splits)

lemma child_at_eq:
  "child_at l n =
     (case findStaticChild l n of
        Some c \<Rightarrow> Some c
      | None \<Rightarrow> if l = paramLabel then n_paramChild n else if l = anyLabel then n_anyChild n else None)"
  by (auto simp: child_at_def findChildWithLabel_def findStaticChild_def find_index_find
      label_defs dest: find_index_Some split: option.splits)

lemma findStaticChildD:
  "findStaticChild l n = Some c \<Longrightarrow> c \<in> set (n_staticChildren n) \<and> n_label c = l"
  by (auto simp: findStaticChild_def dest: find_SomeD)

lemma wf_findStaticChild:
  assumes "wf_node B d n" and "findStaticChild l n = Some c"
  shows "n_kind c = staticKind" "wf_node B (level_below d n) c" "n_label c = l" "\<not> special l"
  using wf_nodeD(2) [OF assms(1)] findStaticChildD [OF assms(2)] wf_static_label by metis+

lemma wf_child_at:
  assumes "wf_node B d n" and "child_at l n = Some c"
  shows "wf_node B (level_below d n) c" and "n_label c = l"
proof -
  consider "findStaticChild l n = Some c" | "l = paramLabel" "n_paramChild n = Some c"
    | "l = anyLabel" "n_anyChild n = Some c"
    using assms(2) by (auto simp: child_at_eq split: option.splits if_splits)
  then have "wf_node B (level_below d n) c \<and> n_label c = l"
  proof cases
    case 1
    then show ?thesis using wf_findStaticChild [OF assms(1)] by blast
  next
    case 2
    then show ?thesis using wf_nodeD(3) [OF assms(1)] wf_nodeD(1) by (fastforce simp: node_shape_def)
  next
    case 3
    then show ?thesis using wf_nodeD(4) [OF assms(1)] wf_nodeD(1) by (fastforce simp: node_shape_def)
  qed
  then show "wf_node B (level_below d n) c" "n_label c = l" by simp_all
qed


section \<open>Routes of a tree\<close>

text \<open>The node that spells out a pattern, with parameter names left out.\<close>

function lookup_node :: "'h node \<Rightarrow> string \<Rightarrow> 'h node option" where
  "lookup_node n s =
     (if n_prefix n \<noteq> [] \<and> prefix (n_prefix n) s then
        let r = drop (length (n_prefix n)) s
        in if r = [] then Some n
           else (case child_at (r ! 0) n of None \<Rightarrow> None | Some c \<Rightarrow> lookup_node c r)
      else None)"
  by pat_completeness auto
termination
  by (relation "measure (\<lambda>(n, s). length s)") (auto simp: prefix_def)

declare lookup_node.simps [simp del]

text \<open>What is registered at a node for a method; a nil handler counts as nothing.\<close>

definition node_route :: "string \<Rightarrow> 'h node \<Rightarrow> 'h routeMethod option" where
  "node_route m n =
     (case (if m = RouteNotFound then n_notFoundHandler n else findMethod m n) of
        None \<Rightarrow> None
      | Some rm \<Rightarrow> if handler rm = None then None else Some rm)"

definition route :: "'h node \<Rightarrow> string \<Rightarrow> string \<Rightarrow> 'h routeMethod option" where
  "route n m s = (case lookup_node n s of None \<Rightarrow> None | Some x \<Rightarrow> node_route m x)"

lemma lookup_node_prefix: "n_prefix n \<noteq> [] \<Longrightarrow> lookup_node n (n_prefix n) = Some n"
  by (simp add: lookup_node.simps)

lemma lookup_node_descend:
  "n_prefix n \<noteq> [] \<Longrightarrow> r \<noteq> [] \<Longrightarrow>
   lookup_node n (n_prefix n @ r) = (case child_at (r ! 0) n of None \<Rightarrow> None | Some c \<Rightarrow> lookup_node c r)"
  by (subst lookup_node.simps) simp

lemma lookup_node_childless:
  "zs \<noteq> [] \<Longrightarrow> child_at (zs ! 0) n = None \<Longrightarrow> lookup_node n (n_prefix n @ zs) = None"
  by (subst lookup_node.simps) simp

lemma lookup_node_None: "\<not> prefix (n_prefix n) s \<Longrightarrow> lookup_node n s = None"
  by (subst lookup_node.simps) simp

lemma lookup_node_SomeD: "lookup_node n s = Some x \<Longrightarrow> \<exists>r. s = n_prefix n @ r \<and> n_prefix n \<noteq> []"
  by (subst (asm) lookup_node.simps) (auto simp: prefix_def split: if_splits)

lemma lookup_node_cases:
  obtains "s = n_prefix n" | zs where "s = n_prefix n @ zs" "zs \<noteq> []" | "\<not> prefix (n_prefix n) s"
  by (metis append_Nil2 prefixE)

text \<open>Two nodes with the same prefix differ in their routes only where their children do.\<close>

lemma lookup_node_change:
  assumes "n_prefix n' = n_prefix n" and "n_prefix n \<noteq> []"
  shows "lookup_node n' s =
    (if s = n_prefix n then Some n'
     else if prefix (n_prefix n) s \<and> child_at (drop (length (n_prefix n)) s ! 0) n' \<noteq>
             child_at (drop (length (n_prefix n)) s ! 0) n
     then (case child_at (drop (length (n_prefix n)) s ! 0) n' of
             None \<Rightarrow> None
           | Some c \<Rightarrow> lookup_node c (drop (length (n_prefix n)) s))
     else lookup_node n s)"
  using assms by (auto simp: lookup_node.simps [of n] lookup_node.simps [of n'] prefix_def Let_def)

lemma route_change:
  assumes "n_prefix n' = n_prefix n" and "n_prefix n \<noteq> []"
    and "\<And>l. child_at l n' = child_at l n"
  shows "route n' m s = (if s = n_prefix n then node_route m n' else route n m s)"
    and "lookup_node n' s \<noteq> None \<longleftrightarrow> lookup_node n s \<noteq> None"
  using assms by (auto simp: route_def lookup_node_change [OF assms(1,2)] lookup_node_prefix)


section \<open>Inserting keeps the tree well formed and adds one route\<close>

text \<open>
  \<^verbatim>\<open>Add\<close> extends a path step by step: what precedes the last stretch is in the tree already, the last
  stretch is either static or a single parameter.
\<close>

fun stretch_ok :: "kind \<Rightarrow> string \<Rightarrow> bool" where
  "stretch_ok staticKind q = (\<forall>c\<in>set q. \<not> special c)"
| "stretch_ok paramKind q = (q = [paramLabel])"
| "stretch_ok anyKind q = (q = [anyLabel])"

definition insertable :: "kind \<Rightarrow> string \<Rightarrow> 'h node \<Rightarrow> bool" where
  "insertable t search n \<longleftrightarrow>
     (\<exists>p q. search = p @ q \<and> (p = [] \<or> lookup_node n p \<noteq> None) \<and> stretch_ok t q)"

definition insert_pre :: "nat \<Rightarrow> nat \<Rightarrow> string \<Rightarrow> kind \<Rightarrow> 'h routeMethod \<Rightarrow> bool" where
  "insert_pre B d search t rm \<longleftrightarrow>
     d + specials search \<le> B \<and> (handler rm \<noteq> None \<longrightarrow> length (pnames rm) = d + specials search) \<and>
     (t = anyKind \<longrightarrow> handler rm \<noteq> None)"

definition inserted ::
  "nat \<Rightarrow> nat \<Rightarrow> string \<Rightarrow> string \<Rightarrow> 'h routeMethod \<Rightarrow> 'h node \<Rightarrow> 'h node \<Rightarrow> bool" where
  "inserted B d meth search rm n n' \<longleftrightarrow>
     wf_node B d n' \<and> n_label n' = n_label n \<and> n_kind n' = n_kind n \<and>
     (\<forall>s. lookup_node n s \<noteq> None \<longrightarrow> lookup_node n' s \<noteq> None) \<and> lookup_node n' search \<noteq> None \<and>
     (\<forall>m s. route n' m s =
        (if handler rm \<noteq> None \<and> m = meth \<and> s = search then Some rm else route n m s))"

lemma node_route_addMethod:
  "node_route m (addMethod meth rm n) =
     (if m = meth then (if handler rm = None then None else Some rm) else node_route m n)"
  by (auto simp: node_updates node_route_def findMethod_def methods_set_def methods_get_def method_defs)

lemma methods_isHandler_set:
  "handler rm \<noteq> None \<Longrightarrow> methods_isHandler (methods_set m rm r)"
  by (auto simp: methods_isHandler_def methods_set_def update_nonempty)

lemma add_route_simps [simp]:
  "n_kind (add_route m rm n) = n_kind n" "n_label (add_route m rm n) = n_label n"
  "n_prefix (add_route m rm n) = n_prefix n" "n_staticChildren (add_route m rm n) = n_staticChildren n"
  "n_paramChild (add_route m rm n) = n_paramChild n" "n_anyChild (add_route m rm n) = n_anyChild n"
  "n_isLeaf (add_route m rm n) = n_isLeaf n" "n_paramsCount (add_route m rm n) = length (pnames rm)"
  by (simp_all add: add_route_def node_updates)

lemma node_route_add_route [simp]:
  "node_route m (add_route meth rm n) = node_route m (addMethod meth rm n)"
  by (simp add: add_route_def node_updates node_route_def findMethod_def)

lemma isHandler_add_route:
  "n_isHandler n = methods_isHandler (n_methods n) \<Longrightarrow>
   n_isHandler (add_route m rm n) = methods_isHandler (n_methods (add_route m rm n))"
  by (auto simp: add_route_def node_updates methods_isHandler_set)

lemma child_at_cong:
  "n_staticChildren n' = n_staticChildren n \<Longrightarrow> n_paramChild n' = n_paramChild n \<Longrightarrow>
   n_anyChild n' = n_anyChild n \<Longrightarrow> child_at l n' = child_at l n"
  by (simp add: child_at_eq findStaticChild_def split: option.splits)

lemma wf_add_route:
  assumes "wf_node B d n" and "n_kind n = anyKind \<Longrightarrow> length (pnames rm) = Suc d"
  shows "wf_node B d (add_route meth rm n)"
proof (rule wf_nodeI)
  show "node_shape B d (add_route meth rm n)"
    using wf_nodeD(1) [OF assms(1)] assms(2) isHandler_add_route [of n meth rm]
    by (auto simp: node_shape_def isLeafNode_def level_below_def split: kind.splits)
qed (use wf_nodeD(2-) [OF assms(1)] in \<open>simp_all add: level_below_def\<close>)

lemma insert_here_inserted:
  assumes "wf_node B d n" and "insert_pre B d (n_prefix n) t rm" and "insert_here meth rm n = Some n'"
  shows "inserted B d meth (n_prefix n) rm n n'"
proof (cases "handler rm = None")
  case True
  then show ?thesis
    using assms wf_prefix_not_empty [OF assms(1)]
    by (auto simp: insert_here_def inserted_def lookup_node_prefix)
next
  case False
  then have n': "n' = add_route meth rm n"
    and len: "n_kind n = anyKind \<Longrightarrow> length (pnames rm) = Suc d"
    using assms wf_specials [OF assms(1)] by (auto simp: insert_here_def insert_pre_def level_below_def)
  have ne: "n_prefix n \<noteq> []" by (rule wf_prefix_not_empty [OF assms(1)])
  have ch: "child_at l n' = child_at l n" for l
    by (rule child_at_cong) (simp_all add: n')
  note change = route_change [of n' n, OF _ ne ch]
  show ?thesis
    using wf_add_route [OF assms(1) len, of meth] False change ne
    by (auto simp: inserted_def n' node_route_addMethod lookup_node_prefix route_def)
qed


text \<open>A new leaf, as \<^verbatim>\<open>newNode\<close> builds it for a stretch of a path.\<close>

definition leaf :: "kind \<Rightarrow> string \<Rightarrow> string \<Rightarrow> 'h node" where
  "leaf t search op = Node t (search ! 0) search [] op newMethods None None 0 True False None"

lemma newNode_leaf:
  "search \<noteq> [] \<Longrightarrow> newNode t search [] op newMethods 0 None None None = Some (leaf t search op)"
  by (auto simp: newNode_def leaf_def methods_isHandler_def newMethods_def neq_Nil_conv)

lemma leaf_simps [simp]:
  "n_kind (leaf t s op) = t" "n_label (leaf t s op) = s ! 0" "n_prefix (leaf t s op) = s"
  "child_at l (leaf t s op) = None" "node_route m (leaf t s op) = None"
  by (simp_all add: leaf_def child_at_eq findStaticChild_def node_route_def findMethod_def
      methods_get_def newMethods_def)

lemma stretch_ok_specials:
  "stretch_ok t q \<Longrightarrow> specials q = (if t = staticKind then 0 else 1)"
  by (cases t) (simp_all add: specials_0 special_def)

lemma wf_leaf_add_route:
  assumes "stretch_ok t q" and "q \<noteq> []" and "insert_pre B d q t rm"
  shows "wf_node B d (if handler rm \<noteq> None then add_route meth rm (leaf t q op) else leaf t q op)"
proof -
  have sp: "specials q = (if t = staticKind then 0 else 1)"
    by (rule stretch_ok_specials [OF assms(1)])
  have "node_shape B d (if handler rm \<noteq> None then add_route meth rm (leaf t q op) else leaf t q op)"
    using assms sp
    by (cases t) (auto simp: node_shape_def insert_pre_def leaf_def add_route_def node_updates
        isLeafNode_def methods_isHandler_set, auto simp: methods_isHandler_def newMethods_def)
  then show ?thesis
    by (rule wf_nodeI) (auto simp: leaf_def add_route_def node_updates)
qed

lemma leaf_routes:
  assumes "q \<noteq> []"
    and "c = (if handler rm \<noteq> None then add_route meth rm (leaf t q op) else leaf t q op)"
  shows "lookup_node c s = (if s = q then Some c else None)"
    and "route c m s = (if handler rm \<noteq> None \<and> m = meth \<and> s = q then Some rm else None)"
proof -
  have p: "n_prefix c = q" by (simp add: assms(2))
  have "child_at l c = child_at l (leaf t q op)" for l
    by (rule child_at_cong) (simp_all add: assms(2))
  then have "child_at l c = None" for l by simp
  then show l: "lookup_node c s = (if s = q then Some c else None)"
    using assms(1) p by (subst lookup_node.simps) (auto simp: prefix_def Let_def)
  show "route c m s = (if handler rm \<noteq> None \<and> m = meth \<and> s = q then Some rm else None)"
    by (simp add: route_def l) (auto simp: assms(2) node_route_addMethod)
qed

text \<open>Hanging a new child under a label that had none.\<close>

definition hang :: "kind \<Rightarrow> 'h node \<Rightarrow> 'h node \<Rightarrow> 'h node" where
  "hang t c n = update_isLeaf
     (case t of
        staticKind \<Rightarrow> addStaticChild c n
      | paramKind \<Rightarrow> set_children (n_staticChildren n) (Some c) (n_anyChild n) n
      | anyKind \<Rightarrow> set_children (n_staticChildren n) (n_paramChild n) (Some c) n)"

lemma hang_simps [simp]:
  "n_kind (hang t c n) = n_kind n" "n_label (hang t c n) = n_label n"
  "n_prefix (hang t c n) = n_prefix n" "n_paramsCount (hang t c n) = n_paramsCount n"
  "n_methods (hang t c n) = n_methods n" "n_isHandler (hang t c n) = n_isHandler n"
  "n_isLeaf (hang t c n) = isLeafNode (hang t c n)" "node_route m (hang t c n) = node_route m n"
  by (cases t; simp add: hang_def update_isLeaf_def addStaticChild_def node_updates isLeafNode_def
      node_route_def findMethod_def)+

lemma hang_children:
  "n_staticChildren (hang t c n) = n_staticChildren n @ (if t = staticKind then [c] else [])"
  "n_paramChild (hang t c n) = (if t = paramKind then Some c else n_paramChild n)"
  "n_anyChild (hang t c n) = (if t = anyKind then Some c else n_anyChild n)"
  by (cases t; simp add: hang_def update_isLeaf_def addStaticChild_def node_updates)+

lemma child_at_hang:
  assumes "child_at (n_label c) n = None" and "wf_node B d n" and "wf_node B d' c" and "n_kind c = t"
  shows "child_at l (hang t c n) = (if l = n_label c then Some c else child_at l n)"
proof -
  have fs: "findStaticChild l (hang t c n) =
      (if t = staticKind \<and> findStaticChild l n = None \<and> n_label c = l then Some c else findStaticChild l n)"
    by (auto simp: findStaticChild_def hang_children find_append split: option.splits)
  show ?thesis
    using assms wf_nodeD(1) [OF assms(3)] wf_findStaticChild(4) [OF assms(2)]
    by (auto simp: child_at_eq fs hang_children node_shape_def special_def label_defs
        split: option.splits kind.splits)
qed


lemma wf_hang:
  assumes "child_at (n_label c) n = None" and "wf_node B d n" and "wf_node B (level_below d n) c"
    and "n_kind c = t"
  shows "wf_node B d (hang t c n)"
proof (rule wf_nodeI)
  have "t = staticKind \<Longrightarrow> n_label c \<notin> n_label ` set (n_staticChildren n)"
    using assms(1) by (auto simp: child_at_eq findStaticChild_def find_None_iff split: option.splits)
  then show "node_shape B d (hang t c n)"
    using wf_nodeD(1) [OF assms(2)] by (auto simp: node_shape_def hang_children split: kind.splits)
qed (use wf_nodeD(2-) [OF assms(2)] assms(3,4) in
  \<open>auto simp: hang_children level_below_def split: if_splits\<close>)

lemma inserted_hang:
  assumes "wf_node B d n" and "r \<noteq> []" and "child_at (r ! 0) n = None" and "stretch_ok t r"
    and "insert_pre B (level_below d n) r t rm"
    and c: "c = (if handler rm \<noteq> None then add_route meth rm (leaf t r op) else leaf t r op)"
  shows "inserted B d meth (n_prefix n @ r) rm n (hang t c n)"
proof -
  have wfc: "wf_node B (level_below d n) c"
    unfolding c by (rule wf_leaf_add_route [OF assms(4,2,5)])
  have lab: "n_label c = r ! 0" "n_kind c = t" by (simp_all add: c)
  have none: "child_at (n_label c) n = None" using assms(3) lab by simp
  have ne: "n_prefix n \<noteq> []" by (rule wf_prefix_not_empty [OF assms(1)])
  note ch = child_at_hang [OF none assms(1) wfc lab(2)]
  note lf = leaf_routes [OF assms(2) c]
  have look: "lookup_node (hang t c n) s =
      (if s = n_prefix n then Some (hang t c n) else if s = n_prefix n @ r then Some c else lookup_node n s)" for s
  proof (cases rule: lookup_node_cases [of s n])
    case 1
    then show ?thesis using lookup_node_prefix [of "hang t c n"] ne by simp
  next
    case (2 zs)
    show ?thesis
    proof (cases "zs ! 0 = r ! 0")
      case True
      then show ?thesis
        using 2 ne lookup_node_descend [of "hang t c n" zs] lookup_node_childless [of zs n] assms(3) lab
        by (simp add: ch lf)
    next
      case False
      then show ?thesis
        using 2 ne lookup_node_descend [of "hang t c n" zs] lookup_node_descend [of n zs] lab
        by (auto simp: ch)
    qed
  next
    case 3
    then show ?thesis using lookup_node_None [of n s] lookup_node_None [of "hang t c n" s] by auto
  qed
  have "lookup_node n (n_prefix n @ r) = None"
    using lookup_node_descend [OF ne assms(2)] assms(3) by simp
  then show ?thesis
    using wf_hang [OF none assms(1) wfc lab(2)] lf(2) [of _ r] lf(1) [of r] ne
    by (auto simp: inserted_def look route_def lookup_node_prefix)
qed


text \<open>Replacing a child by a node with the same label and kind.\<close>

lemma put_child_simps [simp]:
  "n_kind (put_child r c n) = n_kind n" "n_label (put_child r c n) = n_label n"
  "n_prefix (put_child r c n) = n_prefix n" "n_paramsCount (put_child r c n) = n_paramsCount n"
  "n_methods (put_child r c n) = n_methods n" "n_isHandler (put_child r c n) = n_isHandler n"
  "n_isLeaf (put_child r c n) = n_isLeaf n" "node_route m (put_child r c n) = node_route m n"
  by (cases r; simp add: node_updates node_route_def findMethod_def)+

lemma put_child_children:
  "n_staticChildren (put_child r c n) =
     (case r of StaticRef i \<Rightarrow> (n_staticChildren n)[i := c] | _ \<Rightarrow> n_staticChildren n)"
  "n_paramChild (put_child r c n) = (if r = ParamRef then Some c else n_paramChild n)"
  "n_anyChild (put_child r c n) = (if r = AnyRef then Some c else n_anyChild n)"
  by (cases r; simp add: node_updates)+

declare put_child.simps [simp del]

lemma findChildWithLabelD:
  assumes "findChildWithLabel l n = Some r" and "get_child r n = Some c"
  obtains i where "r = StaticRef i" "i < length (n_staticChildren n)" "c = n_staticChildren n ! i"
      "n_label c = l" "find_index (\<lambda>c. n_label c = l) (n_staticChildren n) = Some i"
    | "r = ParamRef" "l = paramLabel" "n_paramChild n = Some c" "findStaticChild l n = None"
    | "r = AnyRef" "l = anyLabel" "n_anyChild n = Some c" "findStaticChild l n = None"
  using assms find_index_Some [of "\<lambda>c. n_label c = l" "n_staticChildren n"]
  by (auto simp: findChildWithLabel_def findStaticChild_def find_index_find
      split: option.splits if_splits)

lemma child_at_put:
  assumes "wf_node B d n" and "findChildWithLabel l0 n = Some r" and "get_child r n = Some c"
    and "n_label c' = l0"
  shows "child_at l (put_child r c' n) = (if l = l0 then Some c' else child_at l n)"
proof (cases rule: findChildWithLabelD [OF assms(2,3)])
  case (1 i)
  have same: "find_index (\<lambda>c. n_label c = l) ((n_staticChildren n)[i := c']) =
      find_index (\<lambda>c. n_label c = l) (n_staticChildren n)"
    using 1 assms(4) by (intro find_index_update) auto
  have "findStaticChild l (put_child r c' n) = (if l = l0 then Some c' else findStaticChild l n)"
  proof (cases "find_index (\<lambda>c. n_label c = l) (n_staticChildren n)")
    case None
    then show ?thesis using 1 by (auto simp: findStaticChild_def put_child_children find_index_find same)
  next
    case (Some j)
    note j = find_index_Some [OF Some]
    show ?thesis
    proof (cases "l = l0")
      case True
      then have "j = i" using 1(5) Some by simp
      then show ?thesis using True 1(1,2) Some same by (simp add: findStaticChild_def put_child_children find_index_find)
    next
      case False
      then have "j \<noteq> i" using 1(3,4) j by auto
      then show ?thesis using False 1(1) Some by (simp add: findStaticChild_def put_child_children find_index_find same)
    qed
  qed
  then show ?thesis
    using 1 by (auto simp: child_at_eq put_child_children split: option.split)
next
  case 2
  then show ?thesis
    by (auto simp: child_at_eq findStaticChild_def put_child_children label_defs split: option.splits)
next
  case 3
  then show ?thesis
    by (auto simp: child_at_eq findStaticChild_def put_child_children label_defs split: option.splits)
qed

lemma wf_put:
  assumes "wf_node B d n" and "findChildWithLabel l0 n = Some r" and "get_child r n = Some c"
    and "n_label c' = n_label c" "n_kind c' = n_kind c" and "wf_node B (level_below d n) c'"
  shows "wf_node B d (put_child r c' n)"
proof (rule wf_nodeI)
  have "map n_label (n_staticChildren (put_child r c' n)) = map n_label (n_staticChildren n)"
    using assms(4)
    by (cases rule: findChildWithLabelD [OF assms(2,3)])
      (auto simp: put_child_children map_update intro!: list_update_same_conv [THEN iffD2])
  moreover have "isLeafNode (put_child r c' n) = isLeafNode n"
    using assms(2,3) by (cases r) (auto simp: isLeafNode_def put_child_children split: if_splits)
  ultimately show "node_shape B d (put_child r c' n)"
    using wf_nodeD(1) [OF assms(1)] by (simp add: node_shape_def cong: kind.case_cong)
  have lv: "level_below d (put_child r c' n) = level_below d n" by (simp add: level_below_def)
  fix x
  show "x \<in> set (n_staticChildren (put_child r c' n)) \<Longrightarrow>
      n_kind x = staticKind \<and> wf_node B (level_below d (put_child r c' n)) x"
    using assms(3,5,6) wf_nodeD(2) [OF assms(1)] unfolding lv
    by (cases r) (auto simp: put_child_children in_set_conv_nth nth_list_update split: if_splits)
  show "n_paramChild (put_child r c' n) = Some x \<Longrightarrow>
      n_kind x = paramKind \<and> wf_node B (level_below d (put_child r c' n)) x"
    using assms(3,5,6) wf_nodeD(3) [OF assms(1)] unfolding lv
    by (cases r) (auto simp: put_child_children split: if_splits)
  show "n_anyChild (put_child r c' n) = Some x \<Longrightarrow>
      n_kind x = anyKind \<and> wf_node B (level_below d (put_child r c' n)) x"
    using assms(3,5,6) wf_nodeD(4) [OF assms(1)] unfolding lv
    by (cases r) (auto simp: put_child_children split: if_splits)
qed


lemma inserted_put:
  assumes "wf_node B d n" and "r \<noteq> []" and "findChildWithLabel (r ! 0) n = Some ref"
    and "get_child ref n = Some c" and "inserted B (level_below d n) meth r rm c c'"
  shows "inserted B d meth (n_prefix n @ r) rm n (put_child ref c' n)"
proof -
  have at: "child_at (r ! 0) n = Some c" using assms(3,4) by (simp add: child_at_def)
  have lab: "n_label c' = r ! 0" "n_label c' = n_label c" "n_kind c' = n_kind c"
    and wf': "wf_node B (level_below d n) c'"
    using assms(5) wf_child_at(2) [OF assms(1) at] by (simp_all add: inserted_def)
  have ne: "n_prefix n \<noteq> []" by (rule wf_prefix_not_empty [OF assms(1)])
  note ch = child_at_put [OF assms(1,3,4) lab(1)]
  have look: "(s = n_prefix n \<and> lookup_node (put_child ref c' n) s = Some (put_child ref c' n) \<and>
        lookup_node n s = Some n) \<or>
      (\<exists>zs. s = n_prefix n @ zs \<and> zs \<noteq> [] \<and>
        lookup_node (put_child ref c' n) s = lookup_node c' zs \<and> lookup_node n s = lookup_node c zs) \<or>
      (s \<noteq> n_prefix n @ r \<and> s \<noteq> n_prefix n \<and> lookup_node (put_child ref c' n) s = lookup_node n s)" for s
  proof (cases rule: lookup_node_cases [of s n])
    case 1
    then show ?thesis
      using lookup_node_prefix [of "put_child ref c' n"] lookup_node_prefix [of n] ne by simp
  next
    case (2 zs)
    then show ?thesis
      using ne lookup_node_descend [of "put_child ref c' n" zs] lookup_node_descend [of n zs] at
      by (cases "zs ! 0 = r ! 0") (auto simp: ch)
  next
    case 3
    then show ?thesis
      using lookup_node_None [of n s] lookup_node_None [of "put_child ref c' n" s] by auto
  qed
  have "lookup_node (put_child ref c' n) s \<noteq> None" if "lookup_node n s \<noteq> None" for s
    using look [of s] that assms(5) by (auto simp: inserted_def)
  moreover have "lookup_node (put_child ref c' n) (n_prefix n @ r) \<noteq> None"
    using look [of "n_prefix n @ r"] assms(2,5) by (auto simp: inserted_def)
  moreover have "route (put_child ref c' n) m s =
      (if handler rm \<noteq> None \<and> m = meth \<and> s = n_prefix n @ r then Some rm else route n m s)" for m s
  proof -
    have "route c' m zs = (if handler rm \<noteq> None \<and> m = meth \<and> zs = r then Some rm else route c m zs)" for zs
      using assms(5) by (simp add: inserted_def)
    then show ?thesis using look [of s] assms(2) unfolding route_def by (auto split: if_splits)
  qed
  ultimately show ?thesis
    using wf_put [OF assms(1,3,4) lab(2,3) wf'] by (simp add: inserted_def)
qed

text \<open>
  Splitting a static node at the longest common prefix \<open>pre\<close>: the rest of the prefix becomes a child
  that keeps all there was, under a new node for \<open>pre\<close>.
\<close>

definition split_lower :: "string \<Rightarrow> 'h node \<Rightarrow> 'h node" where
  "split_lower post n = Node (n_kind n) (post ! 0) post (n_staticChildren n) (n_originalPath n)
     (n_methods n) (n_paramChild n) (n_anyChild n) (n_paramsCount n)
     (isLeafNode n) (methods_isHandler (n_methods n)) (n_notFoundHandler n)"

definition split_upper :: "string \<Rightarrow> 'h node \<Rightarrow> 'h node" where
  "split_upper pre c = Node staticKind (pre ! 0) pre [c] [] newMethods None None 0 False False None"

lemma insert_split_eq:
  assumes "n_prefix n = pre @ post" and "pre \<noteq> []" and "post \<noteq> []" and "search = pre @ rest"
  shows "insert_split meth search t rm (length pre) n =
    Some (if rest = [] then update_isLeaf (add_route meth rm (set_kind t (split_upper pre (split_lower post n))))
          else hang staticKind
            (if handler rm \<noteq> None then add_route meth rm (leaf t rest []) else leaf t rest [])
            (split_upper pre (split_lower post n)))"
proof -
  have "newNode (n_kind n) post (n_staticChildren n) (n_originalPath n) (n_methods n) (n_paramsCount n)
      (n_paramChild n) (n_anyChild n) (n_notFoundHandler n) = Some (split_lower post n)"
    using assms(3) by (cases post) (auto simp: newNode_def split_lower_def isLeafNode_def)
  then show ?thesis
    using assms
    by (auto simp: insert_split_def Let_def split_upper_def hang_def addStaticChild_def nth_append newNode_leaf)
qed

lemma split_routes:
  assumes "n_prefix n = pre @ post" and "pre \<noteq> []" and "post \<noteq> []"
  defines "u \<equiv> split_upper pre (split_lower post n)"
  shows "lookup_node u s =
     (if s = pre then Some u
      else if s = n_prefix n then Some (split_lower post n)
      else lookup_node n s)"
proof -
  have chl: "child_at l (split_lower post n) = child_at l n" for l
    by (rule child_at_cong) (simp_all add: split_lower_def)
  have pl: "n_prefix (split_lower post n) = post" "n_label (split_lower post n) = post ! 0"
    by (simp_all add: split_lower_def)
  have pu: "n_prefix u = pre" by (simp add: u_def split_upper_def)
  have chu: "child_at l u = (if l = post ! 0 then Some (split_lower post n) else None)" for l
    by (auto simp: u_def split_upper_def child_at_eq findStaticChild_def pl)
  have low: "lookup_node (split_lower post n) z =
      (if z = post then Some (split_lower post n) else lookup_node n (pre @ z))" for z
    using assms(1-3) pl
    by (auto simp: lookup_node.simps [of n] lookup_node.simps [of "split_lower post n"] chl prefix_def Let_def)
  show ?thesis
  proof (cases rule: lookup_node_cases [of s u])
    case 1
    then show ?thesis using lookup_node_prefix [of u] pu assms(2) by simp
  next
    case (2 zs)
    then have s: "s = pre @ zs" by (simp add: pu)
    have "lookup_node u s = (if zs ! 0 = post ! 0 then lookup_node (split_lower post n) zs else None)"
      using 2(2) lookup_node_descend [of u zs] pu assms(2) s by (simp add: chu)
    moreover have "lookup_node n s = None" if "zs ! 0 \<noteq> post ! 0"
      using that assms(1,3) s by (intro lookup_node_None) (auto simp: prefix_def nth_append)
    ultimately show ?thesis using 2(2) s assms(1) by (auto simp: low)
  next
    case 3
    then show ?thesis
      using lookup_node_None [of u s] lookup_node_None [of n s] assms(1) pu by (auto simp: prefix_def)
  qed
qed


lemma wf_split:
  assumes "wf_node B d n" and "n_prefix n = pre @ post" and "pre \<noteq> []" and "post \<noteq> []"
  shows "n_kind n = staticKind" and "wf_node B d (split_lower post n)"
    and "wf_node B d (split_upper pre (split_lower post n))"
proof -
  show k: "n_kind n = staticKind"
    using wf_nodeD(1) [OF assms(1)] assms(2-)
    by (auto simp: node_shape_def Cons_eq_append_conv split: kind.splits)
  show lower: "wf_node B d (split_lower post n)"
  proof (rule wf_nodeI)
    show "node_shape B d (split_lower post n)"
      using wf_nodeD(1) [OF assms(1)] assms(2-) k
      by (auto simp: node_shape_def split_lower_def isLeafNode_def)
  qed (use wf_nodeD(2-) [OF assms(1)] in \<open>simp_all add: split_lower_def level_below_def\<close>)
  show "wf_node B d (split_upper pre (split_lower post n))"
  proof (rule wf_nodeI)
    show "node_shape B d (split_upper pre (split_lower post n))"
      using wf_nodeD(1) [OF assms(1)] assms(2-) k
      by (auto simp: node_shape_def split_upper_def isLeafNode_def methods_isHandler_def newMethods_def)
  qed (use lower k in \<open>auto simp: split_upper_def level_below_def split_lower_def\<close>)
qed

lemma split_inserted:
  assumes "wf_node B d n" and "n_prefix n = pre @ post" and "pre \<noteq> []" and "post \<noteq> []"
    and "\<forall>c\<in>set (pre @ rest). \<not> special c" and "insert_pre B d (pre @ rest) staticKind rm"
    and "rest = [] \<or> rest ! 0 \<noteq> post ! 0"
    and "insert_split meth (pre @ rest) staticKind rm (length pre) n = Some n'"
  shows "inserted B d meth (pre @ rest) rm n n'"
proof -
  define u where "u = split_upper pre (split_lower post n)"
  note wf = wf_split [OF assms(1-4)]
  note look = split_routes [OF assms(2-4), folded u_def]
  have nr: "node_route m (split_lower post n) = node_route m n" "node_route m u = None" for m
    by (auto simp: node_route_def findMethod_def split_lower_def u_def split_upper_def methods_get_def newMethods_def)
  have pu: "n_prefix u = pre" "n_label u = n_label n" "n_kind u = n_kind n"
    using wf(1) assms(2,3) wf_label [OF assms(1)] by (simp_all add: u_def split_upper_def nth_append)
  have none: "lookup_node n pre = None"
    using assms(2,4) by (intro lookup_node_None) (auto simp: prefix_def)
  then have none': "route n m pre = None" for m by (simp add: route_def)
  have np: "lookup_node n (n_prefix n) = Some n"
    using lookup_node_prefix [of n] assms(2,3) by simp
  have u_ins: "route u m s = route n m s" "lookup_node n s \<noteq> None \<Longrightarrow> lookup_node u s \<noteq> None" for m s
    using none np by (auto simp: route_def look nr)
  show ?thesis
  proof (cases "rest = []")
    case True
    have n': "n' = add_route meth rm u"
      using assms(8) True insert_split_eq [OF assms(2-4), of "pre @ rest" rest]
      by (auto simp: u_def split_upper_def update_isLeaf_def isLeafNode_def add_route_def node_updates)
    have "child_at l n' = child_at l u" for l
      by (rule child_at_cong) (simp_all add: n')
    note change = route_change [of n' u, unfolded pu(1), OF _ assms(3) this]
    have "wf_node B d n'"
      unfolding n' using wf(1,3) pu(3) by (intro wf_add_route) (auto simp: u_def)
    moreover have "route n' m s =
        (if handler rm \<noteq> None \<and> m = meth \<and> s = pre then Some rm else route n m s)" for m s
      using change(1) [of m s] nr(2) none' by (auto simp: n' pu u_ins(1) node_route_addMethod)
    moreover have "lookup_node n' s \<noteq> None" if "s = pre \<or> lookup_node n s \<noteq> None" for s
      using change(2) [of s] u_ins(2) [of s] that look [of s] by (auto simp: n' pu)
    ultimately show ?thesis
      using True pu by (simp add: inserted_def n')
  next
    case False
    define c where "c = (if handler rm \<noteq> None then add_route meth rm (leaf staticKind rest [])
      else leaf staticKind rest [])"
    have n': "n' = hang staticKind c u"
      using assms(8) False insert_split_eq [OF assms(2-4), of "pre @ rest" rest] by (auto simp: u_def c_def)
    have "child_at (rest ! 0) u = None"
      using False assms(5,7)
      by (auto simp: u_def split_upper_def split_lower_def child_at_eq findStaticChild_def special_def)
    moreover have "insert_pre B (level_below d u) rest staticKind rm"
      using assms(5,6) wf(1) pu(3) by (simp add: insert_pre_def level_below_def specials_0)
    ultimately have "inserted B d meth (n_prefix u @ rest) rm u n'"
      unfolding n' using assms(5) False wf(3) by (intro inserted_hang) (auto simp: u_def c_def)
    then show ?thesis
      using u_ins pu by (auto simp: inserted_def)
  qed
qed

text \<open>The loop of \<^verbatim>\<open>insert\<close> on a well-formed tree.\<close>

lemma insertable_descend:
  assumes "insertable t (n_prefix n @ r) n" and "r \<noteq> []" and "n_prefix n \<noteq> []"
  shows "child_at (r ! 0) n = Some c \<Longrightarrow> insertable t r c"
    and "child_at (r ! 0) n = None \<Longrightarrow> stretch_ok t r"
proof -
  obtain p q where pq: "n_prefix n @ r = p @ q" "p = [] \<or> lookup_node n p \<noteq> None" "stretch_ok t q"
    using assms(1) by (auto simp: insertable_def)
  have "stretch_ok t r \<or> (\<exists>p'. r = p' @ q \<and> p' \<noteq> [] \<and> lookup_node n (n_prefix n @ p') \<noteq> None)"
  proof (cases "p = []")
    case True
    then have "t = staticKind"
      using pq assms(2,3) by (cases t) (auto simp: append_eq_Cons_conv)
    then show ?thesis using pq True by auto
  next
    case False
    then obtain p' where p': "p = n_prefix n @ p'"
      using pq(2) lookup_node_SomeD [of n p] by auto
    then show ?thesis using pq False by (cases "p' = []") auto
  qed
  then consider "stretch_ok t r"
    | p' where "r = p' @ q" "p' \<noteq> []" "lookup_node n (n_prefix n @ p') \<noteq> None"
    by blast
  then have "(case child_at (r ! 0) n of None \<Rightarrow> stretch_ok t r | Some c \<Rightarrow> insertable t r c)"
  proof cases
    case 1
    then show ?thesis by (auto simp: insertable_def split: option.split)
  next
    case (2 p')
    then show ?thesis
      using lookup_node_descend [OF assms(3) 2(2)] pq(3)
      by (auto simp: insertable_def nth_append split: option.splits)
  qed
  then show "child_at (r ! 0) n = Some c \<Longrightarrow> insertable t r c"
    and "child_at (r ! 0) n = None \<Longrightarrow> stretch_ok t r"
    by simp_all
qed

lemma insertable_split:
  assumes "insertable t (pre @ rest) n" and "n_prefix n = pre @ post" and "pre \<noteq> []" and "post \<noteq> []"
    and "rest = [] \<or> rest ! 0 \<noteq> post ! 0" and "wf_node B d n"
  shows "t = staticKind" and "\<forall>c\<in>set (pre @ rest). \<not> special c"
proof -
  obtain p q where pq: "pre @ rest = p @ q" "p = [] \<or> lookup_node n p \<noteq> None" "stretch_ok t q"
    using assms(1) by (auto simp: insertable_def)
  have "p = []"
  proof (rule ccontr)
    assume "p \<noteq> []"
    then obtain z where "p = (pre @ post) @ z"
      using pq(2) lookup_node_SomeD [of n p] assms(2) by auto
    then have "rest = post @ z @ q" using pq(1) by simp
    then show False using assms(4,5) by (auto simp: nth_append)
  qed
  then have q: "stretch_ok t (pre @ rest)" using pq by simp
  moreover have "\<not> special (pre ! 0)"
    using wf_nodeD(1) [OF assms(6)] wf_split(1) [OF assms(6,2-4)] assms(2,3)
    by (auto simp: node_shape_def)
  ultimately show "t = staticKind"
    using assms(3) by (cases t) (auto simp: special_def append_eq_Cons_conv)
  then show "\<forall>c\<in>set (pre @ rest). \<not> special c" using q by simp
qed

lemma insert_child_eq:
  "r \<noteq> [] \<Longrightarrow> insert_child meth r t rm n =
     Some (hang t (if handler rm \<noteq> None then add_route meth rm (leaf t r (ppath rm))
                   else leaf t r (ppath rm)) n)"
  by (simp add: insert_child_def newNode_leaf Let_def hang_def, cases t)
    (auto simp: add_route_def node_updates leaf_def)

lemma findChildWithLabel_get: "findChildWithLabel l n = Some r \<Longrightarrow> \<exists>c. get_child r n = Some c"
  by (auto simp: findChildWithLabel_def split: option.splits if_splits dest: find_index_Some)

theorem insert_loop_inserted:
  assumes "wf_node B d n" and "insertable t search n" and "insert_pre B d search t rm"
    and "search \<noteq> []" and "search ! 0 = n_label n"
  shows "\<exists>n'. insert_loop meth search t rm n = Some n' \<and> inserted B d meth search rm n n'"
  using assms
proof (induction meth search t rm n arbitrary: d rule: insert_loop.induct)
  case (1 meth search t rm n)
  have ne: "n_prefix n \<noteq> []" by (rule wf_prefix_not_empty [OF "1.prems"(1)])
  have hd: "search ! 0 = n_prefix n ! 0" using wf_label [OF "1.prems"(1)] "1.prems"(5) by simp
  obtain pre rest post where sp: "search = pre @ rest" "n_prefix n = pre @ post"
      "lcpLen search (n_prefix n) = length pre" "rest = [] \<or> post = [] \<or> hd rest \<noteq> hd post"
    by (rule lcpLen_split)
  have pre: "pre \<noteq> []"
    using sp(3) hd ne "1.prems"(4) by (cases search; cases "n_prefix n") auto
  show ?case
  proof (cases "post = []")
    case False
    have neq: "rest = [] \<or> rest ! 0 \<noteq> post ! 0" using sp(4) False by (auto simp: hd_conv_nth)
    note st = insertable_split [OF _ sp(2) pre False neq "1.prems"(1), of t]
    have "t = staticKind" "\<forall>c\<in>set (pre @ rest). \<not> special c"
      using st "1.prems"(2) sp(1) by auto
    moreover obtain n' where "insert_split meth (pre @ rest) t rm (length pre) n = Some n'"
      using insert_split_eq [OF sp(2) pre False, of "pre @ rest" rest] by blast
    moreover have "insert_loop meth search t rm n = insert_split meth (pre @ rest) t rm (length pre) n"
      using sp pre False by (subst insert_loop.simps) simp
    ultimately show ?thesis
      using split_inserted [OF "1.prems"(1) sp(2) pre False _ _ neq] "1.prems"(3) sp(1) by auto
  next
    case True
    then have pn: "n_prefix n = pre" using sp(2) by simp
    show ?thesis
    proof (cases "rest = []")
      case True
      then have "insert_loop meth search t rm n = insert_here meth rm n"
        using sp pre pn by (subst insert_loop.simps) simp
      then show ?thesis
        using insert_here_inserted [OF "1.prems"(1)] "1.prems"(3) sp(1) True pn
        by (auto simp: insert_here_def)
    next
      case False
      have ins: "insertable t (n_prefix n @ rest) n" using "1.prems"(2) sp(1) pn by simp
      have pre': "insert_pre B (level_below d n) rest t rm"
        using "1.prems"(3) sp(1) pn wf_specials [OF "1.prems"(1)] by (simp add: insert_pre_def)
      have eq: "insert_loop meth search t rm n =
          (case findChildWithLabel (rest ! 0) n of
             Some r \<Rightarrow>
               (case get_child r n of
                  None \<Rightarrow> None
                | Some c \<Rightarrow> map_option (\<lambda>c. put_child r c n) (insert_loop meth rest t rm c))
           | None \<Rightarrow> insert_child meth rest t rm n)"
        using sp pre pn False by (subst insert_loop.simps) simp
      show ?thesis
      proof (cases "findChildWithLabel (rest ! 0) n")
        case None
        then have none: "child_at (rest ! 0) n = None" by (simp add: child_at_def)
        have "insert_loop meth search t rm n = insert_child meth rest t rm n"
          using eq None by simp
        then show ?thesis
          using inserted_hang [OF "1.prems"(1) False none insertable_descend(2) [OF ins False ne none] pre' refl]
            insert_child_eq [OF False, of meth t rm n] sp(1) pn by auto
      next
        case (Some r)
        then obtain c where c: "get_child r n = Some c"
          using findChildWithLabel_get by blast
        then have at: "child_at (rest ! 0) n = Some c" using Some by (simp add: child_at_def)
        note wfc = wf_child_at [OF "1.prems"(1) at]
        have "\<exists>c'. insert_loop meth rest t rm c = Some c' \<and>
            inserted B (level_below d n) meth rest rm c c'"
          using "1.IH" [OF refl _ _ _ refl, of r c "level_below d n"] sp pre pn False Some c wfc pre'
            insertable_descend(1) [OF ins False ne at] by simp
        then show ?thesis
          using inserted_put [OF "1.prems"(1) False Some c] eq Some c sp(1) pn by auto
      qed
    qed
  qed
qed

end
