(* ===== verification/RouterAdd.thy ===== *)
theory RouterAdd
  imports RouterInv
begin

text \<open>
  Registering routes with \<^verbatim>\<open>HandlerRouter.Add\<close> (\<^verbatim>\<open>src/pubsub/broker-router.go\<close>): on a router built by
  \<^verbatim>\<open>Add\<close> alone it never panics, keeps the tree well formed, and acts as an update of the table from
  methods and patterns to handlers. The table's laws are a locale, interpreted on the router.
\<close>


section \<open>The tree of a router\<close>

definition tree_ok :: "nat \<Rightarrow> 'h node \<Rightarrow> bool" where
  "tree_ok B n \<longleftrightarrow>
     n = zeroNode \<or> wf_node B 0 n \<and> n_label n = CHR ''/'' \<and> n_kind n = staticKind"

definition router_inv :: "'h HandlerRouter \<Rightarrow> bool" where
  "router_inv r \<longleftrightarrow> tree_ok (maxParam r) (tree r)"

lemma zeroNode_simps [simp]:
  "lookup_node zeroNode s = None" "route zeroNode m s = None"
  by (simp_all add: zeroNode_def lookup_node.simps route_def)

lemma insert_root_zero:
  "search \<noteq> [] \<Longrightarrow> insert_root meth search staticKind rm zeroNode =
     Some (if handler rm \<noteq> None then add_route meth rm (leaf staticKind search []) else leaf staticKind search [])"
  by (cases search) (auto simp: insert_root_def zeroNode_def leaf_def add_route_def update_isLeaf_def
      node_updates isLeafNode_def)

text \<open>One call of \<^verbatim>\<open>insert\<close> on a router.\<close>

definition router_inserted ::
  "nat \<Rightarrow> string \<Rightarrow> string \<Rightarrow> 'h routeMethod \<Rightarrow> 'h HandlerRouter \<Rightarrow> 'h HandlerRouter \<Rightarrow> bool" where
  "router_inserted B meth search rm r r' \<longleftrightarrow>
     tree_ok B (tree r') \<and> maxParam r' = max (maxParam r) (length (pnames rm)) \<and>
     lookup_node (tree r') search \<noteq> None \<and>
     (\<forall>m s. route (tree r') m s =
        (if handler rm \<noteq> None \<and> m = meth \<and> s = search then Some rm else route (tree r) m s))"

lemma router_insert_ok:
  assumes "tree_ok B (tree r)" and "insertable t search (tree r)" and "search \<noteq> []"
    and "search ! 0 = CHR ''/''" and "insert_pre B 0 search t rm"
  shows "\<exists>r'. router_insert meth search t rm r = Some r' \<and> router_inserted B meth search rm r r'"
proof -
  have "\<exists>n'. insert_loop meth search t rm (tree r) = Some n' \<and> tree_ok B n' \<and>
      lookup_node n' search \<noteq> None \<and>
      (\<forall>m s. route n' m s =
        (if handler rm \<noteq> None \<and> m = meth \<and> s = search then Some rm else route (tree r) m s))"
  proof (cases "tree r = zeroNode")
    case True
    then have st: "stretch_ok t search" using assms(2) by (auto simp: insertable_def)
    then have t: "t = staticKind" using assms(3,4) by (cases t) (auto simp: label_defs)
    define c where "c = (if handler rm \<noteq> None then add_route meth rm (leaf staticKind search [])
        else leaf staticKind search [])"
    have "insert_loop meth search t rm (tree r) = Some c"
      using True t insert_root_zero [OF assms(3), of meth rm]
      by (subst insert_loop.simps) (simp add: c_def zeroNode_def)
    moreover have "tree_ok B c"
      using wf_leaf_add_route [OF st assms(3,5), of meth "[]"] t assms(4)
      by (auto simp: tree_ok_def c_def split: if_splits)
    ultimately show ?thesis
      using leaf_routes [OF assms(3) c_def] True by auto
  next
    case False
    then have "wf_node B 0 (tree r)" "n_label (tree r) = CHR ''/''" "n_kind (tree r) = staticKind"
      using assms(1) by (auto simp: tree_ok_def)
    then show ?thesis
      using insert_loop_inserted [OF _ assms(2,5,3), of meth] assms(4)
      by (fastforce simp: inserted_def tree_ok_def)
  qed
  then show ?thesis
    by (auto simp: router_insert_def router_inserted_def Let_def)
qed

section \<open>Patterns and parameter names\<close>

text \<open>A path with its parameter names cut out, and the names.\<close>

function pattern :: "string \<Rightarrow> string" where
  "pattern [] = []"
| "pattern (c # s) =
     (if c = paramLabel then paramLabel # pattern (dropWhile (\<lambda>c. c \<noteq> CHR ''/'') s) else c # pattern s)"
  by pat_completeness auto
termination
  by (relation "measure length") (auto simp: le_imp_less_Suc length_dropWhile_le)

function param_names :: "string \<Rightarrow> string list" where
  "param_names [] = []"
| "param_names (c # s) =
     (if c = paramLabel
      then takeWhile (\<lambda>c. c \<noteq> CHR ''/'') s # param_names (dropWhile (\<lambda>c. c \<noteq> CHR ''/'') s)
      else if c = anyLabel then ''*'' # param_names s else param_names s)"
  by pat_completeness auto
termination
  by (relation "measure length") (auto simp: le_imp_less_Suc length_dropWhile_le)

lemma specials_pattern: "specials (pattern s) = length (param_names s)"
  by (induction s rule: pattern.induct) (auto simp: special_def)

text \<open>Where a path is registered: at its own pattern, and at every \<open>*\<close> on the way.\<close>

definition registers :: "string \<Rightarrow> string \<Rightarrow> bool" where
  "registers pat s \<longleftrightarrow> s = pat \<or> (s \<noteq> [] \<and> last s = anyLabel \<and> prefix s pat)"

lemma scan_slash_eq:
  "i \<le> length path \<Longrightarrow> scan_slash path i = i + length (takeWhile (\<lambda>c. c \<noteq> CHR ''/'') (drop i path))"
proof (induction path i rule: scan_slash.induct)
  case (1 path i)
  show ?case
  proof (cases "i < length path")
    case True
    then have "drop i path = path ! i # drop (Suc i) path" by (simp add: Cons_nth_drop_Suc)
    then show ?thesis
      using 1 True by (subst scan_slash.simps) auto
  next
    case False
    then show ?thesis using 1 by (subst scan_slash.simps) auto
  qed
qed

lemma insertable_snoc:
  assumes "insertable staticKind s n" and "\<not> special c"
  shows "insertable staticKind (s @ [c]) n"
proof -
  obtain p q where "s = p @ q" "p = [] \<or> lookup_node n p \<noteq> None" "stretch_ok staticKind q"
    using assms(1) by (auto simp: insertable_def)
  then have "s @ [c] = p @ (q @ [c])" "stretch_ok staticKind (q @ [c])" using assms(2) by auto
  then show ?thesis
    unfolding insertable_def using \<open>p = [] \<or> _\<close> by blast
qed

lemma insertable_present: "lookup_node n s \<noteq> None \<Longrightarrow> stretch_ok t q \<Longrightarrow> insertable t (s @ q) n"
  by (auto simp: insertable_def)

lemma insertable_present_self: "lookup_node n s \<noteq> None \<Longrightarrow> insertable staticKind s n"
  using insertable_present [of n s staticKind "[]"] by simp


section \<open>The loop of Add\<close>

text \<open>The patterns the loop registers while it consumes \<open>todo\<close>, the cleaned path so far being \<open>pre\<close>.\<close>

definition loop_adds :: "string \<Rightarrow> string \<Rightarrow> string \<Rightarrow> bool" where
  "loop_adds pre todo s \<longleftrightarrow>
     (\<exists>u. s = pre @ u \<and> prefix u (pattern todo) \<and> u \<noteq> [] \<and>
          (last u = anyLabel \<or> u = pattern todo \<and> last u = paramLabel))"

lemma loop_adds_Nil [simp]: "\<not> loop_adds pre [] s"
  by (auto simp: loop_adds_def)

lemma loop_adds_snoc:
  assumes "pattern todo = c # pattern s"
  shows "loop_adds pre todo x \<longleftrightarrow>
    (x = pre @ [c] \<and> (c = anyLabel \<or> c = paramLabel \<and> pattern s = [])) \<or> loop_adds (pre @ [c]) s x"
  (is "?l \<longleftrightarrow> ?a \<or> ?r")
proof
  assume ?l
  then obtain u where u: "x = pre @ u" "prefix u (c # pattern s)" "u \<noteq> []"
      "last u = anyLabel \<or> u = c # pattern s \<and> last u = paramLabel"
    by (auto simp: loop_adds_def assms)
  then obtain v where "u = c # v" "prefix v (pattern s)" by (cases u) auto
  then show "?a \<or> ?r" using u by (cases "v = []") (auto simp: loop_adds_def)
next
  assume "?a \<or> ?r"
  then show ?l
  proof
    assume ?a
    then show ?l by (auto simp: loop_adds_def assms intro!: exI [of _ "[c]"])
  next
    assume ?r
    then obtain v where "x = pre @ c # v" "prefix v (pattern s)" "v \<noteq> []"
        "last v = anyLabel \<or> v = pattern s \<and> last v = paramLabel"
      by (auto simp: loop_adds_def)
    then show ?l by (auto simp: loop_adds_def assms intro!: exI [of _ "c # v"])
  qed
qed

definition loop_result ::
  "nat \<Rightarrow> string \<Rightarrow> string \<Rightarrow> 'h \<Rightarrow> string \<Rightarrow> string \<Rightarrow> string list \<Rightarrow> 'h HandlerRouter \<Rightarrow> 'h HandlerRouter \<Rightarrow> bool" where
  "loop_result B meth pp h pre todo pn r r' \<longleftrightarrow>
     tree_ok B (tree r') \<and> insertable staticKind (pre @ pattern todo) (tree r') \<and>
     maxParam r \<le> maxParam r' \<and> maxParam r' \<le> max (maxParam r) (length (pn @ param_names todo)) \<and>
     (\<forall>m s. route (tree r') m s =
        (if m = meth \<and> loop_adds pre todo s
         then Some \<lparr>ppath = pp, pnames = take (specials s) (pn @ param_names todo), handler = Some h\<rparr>
         else route (tree r) m s))"

text \<open>The two insertions the loop does for a parameter.\<close>

lemma param_inserts:
  assumes "tree_ok B (tree r)" and "insertable staticKind pre (tree r)" and "pre \<noteq> []"
    and "pre ! 0 = CHR ''/''" and "insert_pre B 0 (pre @ [l]) t rm" and "stretch_ok t [l]" and "special l"
  obtains r1 r2 where "router_insert meth pre staticKind zeroMethod r = Some r1"
    "router_insert meth (pre @ [l]) t rm r1 = Some r2" "tree_ok B (tree r2)"
    "maxParam r2 = max (maxParam r) (length (pnames rm))"
    "insertable staticKind (pre @ [l]) (tree r2)"
    "\<And>m s. route (tree r2) m s =
       (if handler rm \<noteq> None \<and> m = meth \<and> s = pre @ [l] then Some rm else route (tree r) m s)"
proof -
  have "insert_pre B 0 pre staticKind zeroMethod"
    using assms(5) by (auto simp: insert_pre_def zeroMethod_def)
  then obtain r1 where r1: "router_insert meth pre staticKind zeroMethod r = Some r1"
      "router_inserted B meth pre zeroMethod r r1"
    using router_insert_ok [OF assms(1-4)] by blast
  then have "tree_ok B (tree r1)" "insertable t (pre @ [l]) (tree r1)"
    using assms(6) by (auto simp: router_inserted_def intro: insertable_present)
  then obtain r2 where r2: "router_insert meth (pre @ [l]) t rm r1 = Some r2"
      "router_inserted B meth (pre @ [l]) rm r1 r2"
    using router_insert_ok [OF _ _ _ _ assms(5), of r1 meth] assms(3,4) by (auto simp: nth_append)
  show thesis
  proof (rule that [OF r1(1) r2(1)])
    show "insertable staticKind (pre @ [l]) (tree r2)"
      using r2(2) by (intro insertable_present_self) (simp add: router_inserted_def)
  qed (use r1(2) r2(2) in \<open>auto simp: router_inserted_def zeroMethod_def\<close>)
qed


lemma loop_result_step:
  assumes rest: "loop_result B meth pp h (pre @ [l]) s pn' r2 r'"
    and todo: "pattern todo = l # pattern s" "pn' @ param_names s = pn @ param_names todo"
    and mp: "maxParam r \<le> maxParam r2" "maxParam r2 \<le> max (maxParam r) (length pn')"
    and here: "\<And>m x. route (tree r2) m x =
      (if m = meth \<and> x = pre @ [l] \<and> (l = anyLabel \<or> l = paramLabel \<and> pattern s = [])
       then Some \<lparr>ppath = pp, pnames = pn', handler = Some h\<rparr> else route (tree r) m x)"
    and len: "length pn' = specials (pre @ [l])"
  shows "loop_result B meth pp h pre todo pn r r'"
proof -
  have "route (tree r') m x =
      (if m = meth \<and> loop_adds pre todo x
       then Some \<lparr>ppath = pp, pnames = take (specials x) (pn @ param_names todo), handler = Some h\<rparr>
       else route (tree r) m x)" for m x
  proof (cases "loop_adds (pre @ [l]) s x")
    case True
    then show ?thesis
      using rest loop_adds_snoc [OF todo(1), of pre x] by (auto simp: loop_result_def todo(2) here)
  next
    case False
    then have "route (tree r') m x = route (tree r2) m x" using rest by (simp add: loop_result_def)
    moreover have "take (specials (pre @ [l])) (pn @ param_names todo) = pn'"
      using len by (simp flip: todo(2))
    ultimately show ?thesis
      using loop_adds_snoc [OF todo(1), of pre x] False by (auto simp: here simp del: take_append)
  qed
  moreover have "length pn' \<le> length (pn @ param_names todo)" by (simp flip: todo(2))
  moreover have "max (maxParam r2) (length (pn' @ param_names s)) \<le> max (maxParam r) (length (pn @ param_names todo))"
    using mp(2) \<open>length pn' \<le> _\<close> unfolding todo(2) by linarith
  ultimately show ?thesis
    using rest mp(1) todo(1) by (auto simp: loop_result_def)
qed

lemma add_loop_end: "length path \<le> i \<Longrightarrow> add_loop meth pp h path i pn r = Some (path, pn, r)"
  by (subst add_loop.simps) simp

lemma add_loop_plain:
  "\<not> special c \<Longrightarrow> add_loop meth pp h (pre @ c # s) (length pre) pn r =
     add_loop meth pp h ((pre @ [c]) @ s) (length (pre @ [c])) pn r"
  by (subst add_loop.simps) (auto simp: special_def label_defs)

lemma add_loop_any:
  assumes "router_insert meth pre staticKind zeroMethod r = Some r1"
    and "router_insert meth (pre @ [anyLabel]) anyKind
       \<lparr>ppath = pp, pnames = pn @ [''*''], handler = h\<rparr> r1 = Some r2"
  shows "add_loop meth pp h (pre @ anyLabel # s) (length pre) pn r =
     add_loop meth pp h ((pre @ [anyLabel]) @ s) (length (pre @ [anyLabel])) (pn @ [''*'']) r2"
  using assms by (subst add_loop.simps) (simp add: label_defs)

lemma add_loop_param:
  assumes "CHR 0x5C \<notin> set pre"
    and "router_insert meth pre staticKind zeroMethod r = Some r1"
    and "router_insert meth (pre @ [paramLabel]) paramKind
       (if s' = [] then \<lparr>ppath = pp, pnames = pn @ [name], handler = h\<rparr> else zeroMethod) r1 = Some r2"
    and "name = takeWhile (\<lambda>c. c \<noteq> CHR ''/'') s" and "s' = dropWhile (\<lambda>c. c \<noteq> CHR ''/'') s"
  shows "add_loop meth pp h (pre @ paramLabel # s) (length pre) pn r =
     add_loop meth pp h (pre @ paramLabel # s') (length pre + 2) (pn @ [name]) r2"
proof -
  have esc: "\<not> (0 < length pre \<and> (pre @ paramLabel # s) ! (length pre - 1) = CHR 0x5C)"
    using assms(1) nth_mem [of "length pre - 1" pre]
    by (auto simp: nth_append simp del: nth_mem)
  have k: "scan_slash (pre @ paramLabel # s) (length pre) = length pre + 1 + length name"
    using assms(4) by (simp add: scan_slash_eq label_defs)
  have "name @ s' = s" using assms(4,5) by simp
  then have name: "take (length name) s = name" "drop (length name) s = s'"
      "length s = length name + length s'" by auto
  show ?thesis
    using assms(2,3) esc name k unfolding label_defs
    by (cases "pre = []"; subst add_loop.simps; simp)
qed


definition loop_pre :: "nat \<Rightarrow> string \<Rightarrow> string \<Rightarrow> string list \<Rightarrow> 'h HandlerRouter \<Rightarrow> bool" where
  "loop_pre B pre todo pn r \<longleftrightarrow>
     tree_ok B (tree r) \<and> insertable staticKind pre (tree r) \<and> CHR 0x5C \<notin> set pre \<and>
     pre @ todo \<noteq> [] \<and> (pre @ todo) ! 0 = CHR ''/'' \<and> length pn = specials pre \<and>
     specials pre + length (param_names todo) \<le> B \<and> CHR 0x5C \<notin> set todo"

definition loop_post ::
  "nat \<Rightarrow> string \<Rightarrow> string \<Rightarrow> 'h \<Rightarrow> string \<Rightarrow> string \<Rightarrow> string list \<Rightarrow> 'h HandlerRouter \<Rightarrow> bool" where
  "loop_post B meth pp h pre todo pn r \<longleftrightarrow>
     (\<exists>r'. add_loop meth pp (Some h) (pre @ todo) (length pre) pn r =
        Some (pre @ pattern todo, pn @ param_names todo, r') \<and> loop_result B meth pp h pre todo pn r r')"

lemma loop_plain:
  assumes "loop_pre B pre (c # s) pn r" and "\<not> special c"
    and "loop_pre B (pre @ [c]) s pn r \<Longrightarrow> loop_post B meth pp h (pre @ [c]) s pn r"
  shows "loop_post B meth pp h pre (c # s) pn r"
proof -
  have c: "c \<noteq> paramLabel" "c \<noteq> anyLabel" using assms(2) by (auto simp: special_def)
  have "loop_pre B (pre @ [c]) s pn r"
    using assms(1,2) c insertable_snoc [of pre "tree r" c] by (simp add: loop_pre_def)
  then obtain r' where r': "add_loop meth pp (Some h) ((pre @ [c]) @ s) (length (pre @ [c])) pn r =
      Some ((pre @ [c]) @ pattern s, pn @ param_names s, r')" "loop_result B meth pp h (pre @ [c]) s pn r r'"
    using assms(3) by (auto simp: loop_post_def)
  have "loop_result B meth pp h pre (c # s) pn r r'"
    using c assms(1,2) by (intro loop_result_step [OF r'(2)]) (auto simp: loop_pre_def)
  then show ?thesis
    using r'(1) add_loop_plain [OF assms(2), of meth pp "Some h" pre s pn r] c by (auto simp: loop_post_def)
qed

lemma loop_special_pre:
  assumes "loop_pre B pre (l # s) pn r" and "special l"
  shows "pre \<noteq> []" and "pre ! 0 = CHR ''/''"
  using assms by (cases pre; auto simp: loop_pre_def special_def label_defs)+

lemma loop_any:
  assumes "loop_pre B pre (anyLabel # s) pn r"
    and "\<And>r2. loop_pre B (pre @ [anyLabel]) s (pn @ [''*'']) r2 \<Longrightarrow>
      loop_post B meth pp h (pre @ [anyLabel]) s (pn @ [''*'']) r2"
  shows "loop_post B meth pp h pre (anyLabel # s) pn r"
proof -
  let ?rm = "\<lparr>ppath = pp, pnames = pn @ [''*''], handler = Some h\<rparr>"
  have l: "anyLabel \<noteq> paramLabel" "special anyLabel" "anyLabel \<noteq> CHR 0x5C" by (simp_all add: label_defs special_def)
  note pe = loop_special_pre [OF assms(1) l(2)]
  have "insert_pre B 0 (pre @ [anyLabel]) anyKind ?rm"
    using assms(1) l by (auto simp: loop_pre_def insert_pre_def)
  then obtain r1 r2 where r: "router_insert meth pre staticKind zeroMethod r = Some r1"
      "router_insert meth (pre @ [anyLabel]) anyKind ?rm r1 = Some r2" "tree_ok B (tree r2)"
      "maxParam r2 = max (maxParam r) (length (pnames ?rm))"
      "insertable staticKind (pre @ [anyLabel]) (tree r2)"
      "\<And>m s. route (tree r2) m s =
         (if handler ?rm \<noteq> None \<and> m = meth \<and> s = pre @ [anyLabel] then Some ?rm else route (tree r) m s)"
    using param_inserts [of B r pre anyLabel anyKind ?rm meth thesis] assms(1) pe l
    by (auto simp: loop_pre_def)
  have "loop_pre B (pre @ [anyLabel]) s (pn @ [''*'']) r2"
    using assms(1) r(3,5) l by (auto simp: loop_pre_def)
  then obtain r' where r': "add_loop meth pp (Some h) ((pre @ [anyLabel]) @ s) (length (pre @ [anyLabel]))
        (pn @ [''*'']) r2 = Some ((pre @ [anyLabel]) @ pattern s, (pn @ [''*'']) @ param_names s, r')"
      "loop_result B meth pp h (pre @ [anyLabel]) s (pn @ [''*'']) r2 r'"
    using assms(2) by (auto simp: loop_post_def)
  have "loop_result B meth pp h pre (anyLabel # s) pn r r'"
    using l assms(1) r(4,6) by (intro loop_result_step [OF r'(2)]) (auto simp: loop_pre_def)
  then show ?thesis
    using r'(1) add_loop_any [OF r(1,2), of s] l by (auto simp: loop_post_def)
qed

text \<open>After the name of a parameter comes the end of the path or a slash.\<close>

lemma loop_param_rest:
  assumes "loop_pre B pre (paramLabel # s) pn r"
    and "\<And>r2 pn' s'. length s' \<le> length s \<Longrightarrow> loop_pre B (pre @ [paramLabel, CHR ''/'']) s' pn' r2 \<Longrightarrow>
      loop_post B meth pp h (pre @ [paramLabel, CHR ''/'']) s' pn' r2"
    and name_def: "name = takeWhile (\<lambda>c. c \<noteq> CHR ''/'') s" and s'_def: "s' = dropWhile (\<lambda>c. c \<noteq> CHR ''/'') s"
    and l: "special paramLabel" "\<not> special (CHR ''/'')" "paramLabel \<noteq> anyLabel" "CHR ''/'' \<noteq> paramLabel"
      "paramLabel \<noteq> CHR 0x5C"
    and r: "tree_ok B (tree r2)" "insertable staticKind (pre @ [paramLabel]) (tree r2)"
    and pe: "pre \<noteq> []" "pre ! 0 = CHR ''/''"
  shows "\<exists>r'. add_loop meth pp (Some h) (pre @ paramLabel # s') (length pre + 2) (pn @ [name]) r2 =
      Some (pre @ paramLabel # pattern s', pn @ name # param_names s', r') \<and>
      loop_result B meth pp h (pre @ [paramLabel]) s' (pn @ [name]) r2 r'"
proof (cases s')
  case Nil
  then show ?thesis using r by (simp add: add_loop_end loop_result_def)
next
  case (Cons c z)
  then have c: "c = CHR ''/''" using hd_dropWhile [of "\<lambda>c. c \<noteq> CHR ''/''" s] s'_def by auto
  have z: "length z \<le> length s" "set z \<subseteq> set s"
    using Cons s'_def length_dropWhile_le [of "\<lambda>c. c \<noteq> CHR ''/''" s] set_dropWhileD [of _ "\<lambda>c. c \<noteq> CHR ''/''" s]
    by (auto simp: subset_iff)
  have nm: "param_names (paramLabel # s) = name # param_names z"
    using Cons c l by (simp add: name_def flip: s'_def) (simp add: label_defs)
  have ins: "insertable staticKind (pre @ [paramLabel, CHR ''/'']) (tree r2)"
    using insertable_snoc [OF r(2) l(2)] by simp
  have nxt: "loop_pre B (pre @ [paramLabel, CHR ''/'']) z (pn @ [name]) r2"
    using assms(1) r(1) ins l z(2) pe nm by (auto simp: loop_pre_def nth_append)
  obtain r' where r': "add_loop meth pp (Some h) ((pre @ [paramLabel, CHR ''/'']) @ z)
        (length (pre @ [paramLabel, CHR ''/''])) (pn @ [name]) r2 =
        Some ((pre @ [paramLabel, CHR ''/'']) @ pattern z, (pn @ [name]) @ param_names z, r')"
      "loop_result B meth pp h (pre @ [paramLabel, CHR ''/'']) z (pn @ [name]) r2 r'"
    using assms(2) [OF z(1) nxt] by (auto simp: loop_post_def)
  have sl: "CHR ''/'' \<noteq> paramLabel" "CHR ''/'' \<noteq> anyLabel" by (simp_all add: label_defs)
  have "loop_result B meth pp h ((pre @ [paramLabel]) @ [CHR ''/'']) z (pn @ [name]) r2 r'"
    using r'(2) by simp
  then have "loop_result B meth pp h (pre @ [paramLabel]) (CHR ''/'' # z) (pn @ [name]) r2 r'"
    by (rule loop_result_step) (use sl nxt in \<open>simp_all add: loop_pre_def\<close>)
  then show ?thesis using r'(1) sl Cons c by simp
qed

lemma loop_param:
  assumes "loop_pre B pre (paramLabel # s) pn r"
    and "\<And>r2 pn' s'. length s' \<le> length s \<Longrightarrow> loop_pre B (pre @ [paramLabel, CHR ''/'']) s' pn' r2 \<Longrightarrow>
      loop_post B meth pp h (pre @ [paramLabel, CHR ''/'']) s' pn' r2"
  shows "loop_post B meth pp h pre (paramLabel # s) pn r"
proof -
  define name s' where "name = takeWhile (\<lambda>c. c \<noteq> CHR ''/'') s" and "s' = dropWhile (\<lambda>c. c \<noteq> CHR ''/'') s"
  let ?rm = "if s' = [] then \<lparr>ppath = pp, pnames = pn @ [name], handler = Some h\<rparr> else zeroMethod"
  have l: "special paramLabel" "\<not> special (CHR ''/'')" "paramLabel \<noteq> anyLabel" "CHR ''/'' \<noteq> paramLabel"
      "paramLabel \<noteq> CHR 0x5C"
    by (simp_all add: label_defs special_def)
  have todo: "pattern (paramLabel # s) = paramLabel # pattern s'"
      "(pn @ [name]) @ param_names s' = pn @ param_names (paramLabel # s)"
    by (simp_all add: s'_def name_def)
  note pe = loop_special_pre [OF assms(1) l(1)]
  have "insert_pre B 0 (pre @ [paramLabel]) paramKind ?rm"
    using assms(1) l by (auto simp: loop_pre_def insert_pre_def zeroMethod_def)
  then obtain r1 r2 where r: "router_insert meth pre staticKind zeroMethod r = Some r1"
      "router_insert meth (pre @ [paramLabel]) paramKind ?rm r1 = Some r2" "tree_ok B (tree r2)"
      "maxParam r2 = max (maxParam r) (length (pnames ?rm))"
      "insertable staticKind (pre @ [paramLabel]) (tree r2)"
      "\<And>m s. route (tree r2) m s =
         (if handler ?rm \<noteq> None \<and> m = meth \<and> s = pre @ [paramLabel] then Some ?rm else route (tree r) m s)"
    using param_inserts [of B r pre paramLabel paramKind ?rm meth thesis] assms(1) pe l
    by (auto simp: loop_pre_def)
  have esc: "CHR 0x5C \<notin> set pre" using assms(1) by (simp add: loop_pre_def)
  note eq = add_loop_param [OF esc r(1,2) name_def s'_def]
  have "\<exists>r'. add_loop meth pp (Some h) (pre @ paramLabel # s') (length pre + 2) (pn @ [name]) r2 =
      Some (pre @ paramLabel # pattern s', pn @ name # param_names s', r') \<and>
      loop_result B meth pp h (pre @ [paramLabel]) s' (pn @ [name]) r2 r'"
    by (rule loop_param_rest [OF assms name_def s'_def l r(3,5) pe])
  then obtain r' where r': "add_loop meth pp (Some h) (pre @ paramLabel # s') (length pre + 2) (pn @ [name]) r2 =
      Some (pre @ paramLabel # pattern s', pn @ name # param_names s', r')"
      "loop_result B meth pp h (pre @ [paramLabel]) s' (pn @ [name]) r2 r'" by blast
  have "pattern s' = [] \<longleftrightarrow> s' = []" by (cases s') auto
  then have "loop_result B meth pp h pre (paramLabel # s) pn r r'"
    using l assms(1) r(4,6) by (intro loop_result_step [OF r'(2) todo]) (auto simp: loop_pre_def zeroMethod_def)
  then show ?thesis
    using r'(1) eq todo by (auto simp: loop_post_def)
qed

theorem add_loop_ok: "loop_pre B pre todo pn r \<Longrightarrow> loop_post B meth pp h pre todo pn r"
proof (induction "length todo" arbitrary: pre todo pn r rule: less_induct)
  case less
  show ?case
  proof (cases todo)
    case Nil
    then show ?thesis using less.prems by (simp add: loop_pre_def loop_post_def add_loop_end loop_result_def)
  next
    case (Cons c s)
    have IH: "loop_post B meth pp h pre' todo' pn' r'"
      if "length todo' \<le> length s" "loop_pre B pre' todo' pn' r'" for pre' todo' pn' r'
      using less.hyps [of todo' pre' pn' r'] that Cons by simp
    consider "\<not> special c" | "c = anyLabel" | "c = paramLabel" by (auto simp: special_def)
    then show ?thesis
    proof cases
      case 1
      then show ?thesis
        using loop_plain [of B pre c s pn r meth pp h] IH [of s "pre @ [c]" pn r] less.prems Cons by simp
    next
      case 2
      then show ?thesis
        using loop_any [of B pre s pn r meth pp h] IH [of s "pre @ [anyLabel]" "pn @ [''*'']"] less.prems Cons by simp
    next
      case 3
      then show ?thesis
        using loop_param [of B pre s pn r meth pp h] IH less.prems Cons by simp
    qed
  qed
qed

section \<open>Add\<close>

definition plain_path :: "string \<Rightarrow> bool" where
  "plain_path path \<longleftrightarrow> CHR 0x5C \<notin> set path"

text \<open>The entry a registered path has at a pattern it covers.\<close>

definition entry :: "string \<Rightarrow> 'h \<Rightarrow> string \<Rightarrow> 'h routeMethod" where
  "entry path h s =
     \<lparr>ppath = clean_path path, pnames = take (specials s) (param_names (clean_path path)), handler = Some h\<rparr>"

definition covers :: "string \<Rightarrow> string \<Rightarrow> bool" where
  "covers path s \<longleftrightarrow> registers (pattern (clean_path path)) s"

lemma clean_path_simps:
  "clean_path path \<noteq> []" "clean_path path ! 0 = CHR ''/''" "plain_path (clean_path path) = plain_path path"
  by (auto simp: clean_path_def plain_path_def)

lemma registers_loop_adds:
  "registers (pattern todo) s \<longleftrightarrow> s = pattern todo \<or> loop_adds [] todo s"
  by (auto simp: loop_adds_def registers_def)

lemma router_Add_loop:
  assumes "router_inv r" and "plain_path path"
  shows "\<exists>r'. router_Add meth path (Some h) r = Some r' \<and> router_inv r' \<and>
    (\<forall>m s. route (tree r') m s =
       (if m = meth \<and> covers path s then Some (entry path h s) else route (tree r) m s))"
proof -
  let ?pp = "clean_path path" and ?pn = "param_names (clean_path path)"
  let ?B = "max (maxParam r) (length ?pn)"
  let ?rm = "\<lparr>ppath = ?pp, pnames = ?pn, handler = Some h\<rparr>"
  have "tree_ok ?B (tree r)"
    using assms(1) wf_node_mono [of "maxParam r" 0 "tree r" ?B] by (auto simp: router_inv_def tree_ok_def)
  moreover have "insertable staticKind [] (tree r)" by (simp add: insertable_def)
  ultimately have "loop_pre ?B [] ?pp [] r"
    using assms(2) clean_path_simps [of path] by (auto simp: loop_pre_def plain_path_def)
  then obtain r1 where r1: "add_loop meth ?pp (Some h) ?pp 0 [] r = Some (pattern ?pp, ?pn, r1)"
      "loop_result ?B meth ?pp h [] ?pp [] r r1"
    using add_loop_ok [of ?B "[]" ?pp "[]" r meth ?pp h] by (auto simp: loop_post_def)
  have pat: "pattern ?pp \<noteq> []" "pattern ?pp ! 0 = CHR ''/''"
    using clean_path_simps [of path] by (cases ?pp; simp add: label_defs)+
  have "insert_pre ?B 0 (pattern ?pp) staticKind ?rm"
    by (simp add: insert_pre_def specials_pattern)
  then obtain r' where r': "router_insert meth (pattern ?pp) staticKind ?rm r1 = Some r'"
      "router_inserted ?B meth (pattern ?pp) ?rm r1 r'"
    using router_insert_ok [of ?B r1 staticKind "pattern ?pp" ?rm meth] r1(2) pat
    by (auto simp: loop_result_def)
  have "maxParam r' = ?B" using r'(2) r1(2) by (auto simp: router_inserted_def loop_result_def)
  moreover have "tree_ok ?B (tree r')" using r'(2) by (auto simp: router_inserted_def)
  ultimately have "router_inv r'" unfolding router_inv_def by simp
  moreover have "route (tree r') m s =
      (if m = meth \<and> covers path s then Some (entry path h s) else route (tree r) m s)" for m s
    using r'(2) r1(2)
    by (auto simp: router_inserted_def loop_result_def covers_def registers_loop_adds entry_def specials_pattern)
  ultimately show ?thesis
    using r1(1) r'(1) by (simp add: router_Add_def)
qed


section \<open>The route table as an interface\<close>

text \<open>
  A table that routes are added to: adding is total on the paths the table accepts and overwrites the
  entries the path covers, under the method it is added for.
\<close>

fun add_all :: "(string \<Rightarrow> 'p \<Rightarrow> 'h \<Rightarrow> 's \<Rightarrow> 's option) \<Rightarrow> (string \<times> 'p \<times> 'h) list \<Rightarrow> 's \<Rightarrow> 's option" where
  "add_all add [] s = Some s"
| "add_all add ((m, p, h) # rs) s = (case add m p h s of None \<Rightarrow> None | Some s \<Rightarrow> add_all add rs s)"

locale route_table =
  fixes inv :: "'s \<Rightarrow> bool" and accepts :: "'p \<Rightarrow> bool" and covers :: "'p \<Rightarrow> 'k \<Rightarrow> bool"
    and entry :: "'p \<Rightarrow> 'h \<Rightarrow> 'k \<Rightarrow> 'e" and add :: "string \<Rightarrow> 'p \<Rightarrow> 'h \<Rightarrow> 's \<Rightarrow> 's option"
    and look :: "'s \<Rightarrow> string \<Rightarrow> 'k \<Rightarrow> 'e option"
  assumes add_total: "inv s \<Longrightarrow> accepts p \<Longrightarrow> \<exists>s'. add m p h s = Some s' \<and> inv s'"
    and look_add: "inv s \<Longrightarrow> accepts p \<Longrightarrow> add m p h s = Some s' \<Longrightarrow>
      look s' m' k = (if m' = m \<and> covers p k then Some (entry p h k) else look s m' k)"
begin

lemma add_all_total:
  "inv s \<Longrightarrow> \<forall>(m, p, h)\<in>set rs. accepts p \<Longrightarrow> \<exists>s'. add_all add rs s = Some s' \<and> inv s'"
proof (induction rs arbitrary: s)
  case (Cons r rs)
  obtain m p h where r: "r = (m, p, h)" by (cases r)
  then obtain s1 where "add m p h s = Some s1" "inv s1" using add_total Cons.prems by force
  then show ?case using Cons r by auto
qed simp

lemma look_add_all:
  "inv s \<Longrightarrow> \<forall>(m, p, h)\<in>set rs. accepts p \<Longrightarrow> add_all add rs s = Some s' \<Longrightarrow>
   look s' m k = (case List.find (\<lambda>(m', p, h). m' = m \<and> covers p k) (rev rs) of
      Some (m', p, h) \<Rightarrow> Some (entry p h k) | None \<Rightarrow> look s m k)"
proof (induction rs arbitrary: s)
  case (Cons r rs)
  obtain m1 p h where r: "r = (m1, p, h)" by (cases r)
  then obtain s1 where s1: "add m1 p h s = Some s1" "inv s1" using add_total Cons.prems by force
  then have "look s' m k = (case List.find (\<lambda>(m', p, h). m' = m \<and> covers p k) (rev rs) of
      Some (m', p, h) \<Rightarrow> Some (entry p h k) | None \<Rightarrow> look s1 m k)"
    using Cons r by auto
  moreover have "look s1 m k = (if m = m1 \<and> covers p k then Some (entry p h k) else look s m k)"
    using look_add [OF Cons.prems(1) _ s1(1)] Cons.prems(2) r by auto
  ultimately show ?case by (auto simp: r find_append split: option.split)
qed simp

text \<open>Routes under different methods, or covering disjoint patterns, commute.\<close>

lemma add_commute:
  assumes "inv s" and "accepts p1" and "accepts p2" and "m1 \<noteq> m2 \<or> (\<forall>k. \<not> (covers p1 k \<and> covers p2 k))"
    and "add_all add [(m1, p1, h1), (m2, p2, h2)] s = Some s'"
    and "add_all add [(m2, p2, h2), (m1, p1, h1)] s = Some s''"
  shows "look s' m k = look s'' m k"
  using look_add_all [OF assms(1) _ assms(5), of m k] look_add_all [OF assms(1) _ assms(6), of m k] assms(2-4)
  by (auto split: if_splits)

end

definition router_add :: "string \<Rightarrow> string \<Rightarrow> 'h \<Rightarrow> 'h HandlerRouter \<Rightarrow> 'h HandlerRouter option" where
  "router_add m p h r = router_Add m p (Some h) r"

definition router_look :: "'h HandlerRouter \<Rightarrow> string \<Rightarrow> string \<Rightarrow> 'h routeMethod option" where
  "router_look r = route (tree r)"

interpretation rt: route_table router_inv plain_path covers entry router_add router_look
proof
  fix s :: "'a HandlerRouter" and p m h
  assume "router_inv s" "plain_path p"
  then show "\<exists>s'. router_add m p h s = Some s' \<and> router_inv s'"
    using router_Add_loop [of s p m h] by (auto simp: router_add_def)
next
  fix s s' :: "'a HandlerRouter" and p m h m' k
  assume "router_inv s" "plain_path p" "router_add m p h s = Some s'"
  then show "router_look s' m' k = (if m' = m \<and> covers p k then Some (entry p h k) else router_look s m' k)"
    using router_Add_loop [of s p m h] by (auto simp: router_add_def router_look_def)
qed

lemma router_inv_New: "router_inv NewHandlerRouter"
  by (simp add: router_inv_def NewHandlerRouter_def tree_ok_def)

lemma router_look_New [simp]: "router_look NewHandlerRouter m s = None"
  by (simp add: router_look_def NewHandlerRouter_def)


section \<open>Properties\<close>

text \<open>
  (C4) On a well-formed router, registering a path without backslash escapes never panics, keeps the route tree
  well formed, and refines the update of a table, for the given method at just the patterns that the path \<open>covers\<close>:
  its own pattern and the prefix of it that ends at each \<open>*\<close> on the way. There the handler is found with the
  parameter names in order, also where a handler was registered before: \<open>/a/*/b\<close> replaces an existing \<open>/a/*\<close>. Every
  other entry of the table is kept.
\<close>

theorem router_Add_refines:
  assumes "router_inv r" and "plain_path path"
  shows "\<exists>r'. router_Add meth path (Some h) r = Some r' \<and> router_inv r' \<and>
    (\<forall>m s. router_look r' m s =
       (if m = meth \<and> covers path s then Some (entry path h s) else router_look r m s))"
  using rt.add_total [OF assms, of meth h] rt.look_add [OF assms, of meth h]
  by (fastforce simp: router_add_def)

theorem router_Add_refines_witness:
  "\<exists>r'. router_Add MethodPub ''/users/:id/files/*'' (Some (7::nat)) NewHandlerRouter = Some r' \<and> router_inv r' \<and>
    router_look r' MethodPub ''/users/:/files/*'' =
      Some \<lparr>ppath = ''/users/:id/files/*'', pnames = [''id'', ''*''], handler = Some 7\<rparr> \<and>
    router_look r' MethodPub ''/users/:'' = None"
proof -
  have "plain_path ''/users/:id/files/*''" by (simp add: plain_path_def)
  from router_Add_refines [OF router_inv_New this, of MethodPub "7 :: nat"] show ?thesis
    by (auto simp: covers_def registers_def entry_def clean_path_def label_defs special_def)
qed

text \<open>
  A router built by any sequence of registrations holds, for each method and pattern, the handler of
  the last registration that covers it, and nothing where none does: a later registration overrides
  an earlier one, never another pattern's or another method's.
\<close>

theorem router_last_registration_wins:
  assumes "\<forall>(m, p, h)\<in>set rs. plain_path p"
  shows "\<exists>r'. add_all router_add rs NewHandlerRouter = Some r' \<and> router_inv r' \<and>
    (\<forall>m s. router_look r' m s =
       (case List.find (\<lambda>(m', p, h). m' = m \<and> covers p s) (rev rs) of
          Some (m', p, h) \<Rightarrow> Some (entry p h s) | None \<Rightarrow> None))"
  using rt.add_all_total [OF router_inv_New assms] rt.look_add_all [OF router_inv_New assms]
  by (fastforce split: option.split)

theorem router_last_registration_wins_witness:
  "\<exists>r'. add_all router_add
      [(MethodPub, ''/a/:x'', 1), (MethodSub, ''/a/:x'', 2), (MethodPub, ''/a/:y'', 3::nat)] NewHandlerRouter = Some r' \<and>
    router_look r' MethodPub ''/a/:'' = Some \<lparr>ppath = ''/a/:y'', pnames = [''y''], handler = Some 3\<rparr> \<and>
    router_look r' MethodSub ''/a/:'' = Some \<lparr>ppath = ''/a/:x'', pnames = [''x''], handler = Some 2\<rparr>"
proof -
  let ?rs = "[(MethodPub, ''/a/:x'', 1), (MethodSub, ''/a/:x'', 2), (MethodPub, ''/a/:y'', 3::nat)]"
  have "\<forall>(m, p, h)\<in>set ?rs. plain_path p" by (simp add: plain_path_def)
  from router_last_registration_wins [OF this] show ?thesis
    by (auto simp: covers_def registers_def entry_def clean_path_def label_defs special_def method_defs)
qed

end
