(* ===== verification/RouterFind.thy ===== *)
theory RouterFind
  imports Router
begin

text \<open>
  Routing a topic to a handler: \<^verbatim>\<open>HandlerRouter.Find\<close> (\<^verbatim>\<open>src/pubsub/broker-router.go\<close>), a loop of three
  blocks linked by \<^verbatim>\<open>goto\<close> that walks the tree with backtracking over parent pointers.
\<close>

section \<open>The router context\<close>

text \<open>The handler stored in the context: one of the two fallback handlers, or a registered one.\<close>

datatype 'h handlerVal = NotFoundHandler | MethodNotAllowedHandler | UserHandler 'h

record 'h RouterContext =
  c_path :: string
  c_pnames :: "string list"
  c_pvalues :: "string list"
  c_handler :: "'h handlerVal option"

fun Param_loop :: "string \<Rightarrow> string list \<Rightarrow> string list \<Rightarrow> string" where
  "Param_loop name [] vs = []"
| "Param_loop name (n # ns) [] = Param_loop name ns []"
| "Param_loop name (n # ns) (v # vs) = (if n = name then v else Param_loop name ns vs)"

definition ctx_Param :: "string \<Rightarrow> 'h RouterContext \<Rightarrow> string" where
  "ctx_Param name c = Param_loop name (c_pnames c) (c_pvalues c)"

text \<open>\<^verbatim>\<open>c.pvalues[:len(c.pnames)]\<close> panics when there are fewer values than names.\<close>

definition ctx_ParamValues :: "'h RouterContext \<Rightarrow> panic + string list" where
  "ctx_ParamValues c =
     (if length (c_pnames c) \<le> length (c_pvalues c)
      then Inr (take (length (c_pnames c)) (c_pvalues c)) else Inl IndexOutOfRange)"

section \<open>The loop\<close>

text \<open>
  The local variables of \<^verbatim>\<open>Find\<close>. \<open>f_stack\<close> is \<^verbatim>\<open>currentNode\<close> followed by its parent, its parent's
  parent and so on to the root; it is empty when \<^verbatim>\<open>currentNode\<close> is nil. \<^verbatim>\<open>matchedRouteMethod\<close> is only
  set right before the loop is left, so it is a part of the outcome.
\<close>

record 'h findState =
  f_stack :: "'h node list"
  f_best :: "'h node option"
  f_search :: string
  f_searchIndex :: nat
  f_paramIndex :: nat
  f_paramValues :: "string list"

datatype block = TopBlock | ParamBlock | AnyBlock

datatype 'h outcome =
    Goto block "'h findState"
  | Return "'h findState"
  | Break "'h routeMethod option" "'h findState"
  | Panicked panic

fun next_kind :: "kind \<Rightarrow> kind" where
  "next_kind staticKind = paramKind"
| "next_kind paramKind = anyKind"
| "next_kind anyKind = staticKind"

text \<open>
  \<^verbatim>\<open>backtrackToNextNodeKind\<close>: the next kind to try, and whether there is a parent to try it at. The
  nil dereference and the slice bounds are the panics Go would raise.
\<close>

definition backtrack ::
  "kind \<Rightarrow> string \<Rightarrow> 'h findState \<Rightarrow> panic + (kind \<times> bool \<times> 'h findState)" where
  "backtrack fromKind path st =
     (case f_stack st of
        [] \<Rightarrow> Inl NilDereference
      | previous # rest \<Rightarrow>
          let st = st\<lparr>f_stack := rest\<rparr>;
              valid = (rest \<noteq> []);
              nextNodeKind = next_kind (n_kind previous)
          in if fromKind = staticKind then Inr (nextNodeKind, valid, st)
             else if n_kind previous = staticKind then
               if length (n_prefix previous) \<le> f_searchIndex st then
                 let i = f_searchIndex st - length (n_prefix previous)
                 in Inr (nextNodeKind, valid, st\<lparr>f_searchIndex := i, f_search := drop i path\<rparr>)
               else Inl IndexOutOfRange
             else if 0 < f_paramIndex st \<and> f_paramIndex st - 1 < length (f_paramValues st) \<and>
                     length (f_paramValues st ! (f_paramIndex st - 1)) \<le> f_searchIndex st then
               let p = f_paramIndex st - 1;
                   i = f_searchIndex st - length (f_paramValues st ! p)
               in Inr (nextNodeKind, valid,
                    st\<lparr>f_paramIndex := p, f_searchIndex := i, f_search := drop i path,
                       f_paramValues := (f_paramValues st)[p := []]\<rparr>)
             else Inl IndexOutOfRange)"

definition remember :: "'h node \<Rightarrow> 'h findState \<Rightarrow> 'h findState" where
  "remember n st = (if f_best st = None then st\<lparr>f_best := Some n\<rparr> else st)"

text \<open>From the top of the loop to the label \<^verbatim>\<open>Param\<close>.\<close>

definition static_step :: "'h node \<Rightarrow> 'h findState \<Rightarrow> 'h outcome" where
  "static_step cur st =
     (if f_search st \<noteq> [] then
        case findStaticChild (f_search st ! 0) cur of
          Some child \<Rightarrow> Goto TopBlock (st\<lparr>f_stack := child # f_stack st\<rparr>)
        | None \<Rightarrow> Goto ParamBlock st
      else Goto ParamBlock st)"

definition top_block :: "string \<Rightarrow> string \<Rightarrow> 'h findState \<Rightarrow> 'h outcome" where
  "top_block meth path st =
     (case f_stack st of
        [] \<Rightarrow> Panicked NilDereference
      | cur # _ \<Rightarrow>
          let prefixLen = (if n_kind cur = staticKind then length (n_prefix cur) else 0);
              lcp = (if n_kind cur = staticKind then lcpLen (f_search st) (n_prefix cur) else 0)
          in if lcp \<noteq> prefixLen then
               (case backtrack staticKind path st of
                  Inl p \<Rightarrow> Panicked p
                | Inr (nk, ok, st) \<Rightarrow>
                    if \<not> ok then Return st
                    else if nk = paramKind then Goto ParamBlock st
                    else Break None st)
             else
               let st = st\<lparr>f_search := drop lcp (f_search st), f_searchIndex := f_searchIndex st + lcp\<rparr>
               in if f_search st = [] \<and> n_isHandler cur then
                    let st = remember cur st
                    in (case findMethod meth cur of
                          Some rm \<Rightarrow> Break (Some rm) st
                        | None \<Rightarrow> static_step cur st)
                  else if f_search st = [] \<and> n_notFoundHandler cur \<noteq> None then
                    Break (n_notFoundHandler cur) st
                  else static_step cur st)"

definition param_block :: "'h findState \<Rightarrow> 'h outcome" where
  "param_block st =
     (case f_stack st of
        [] \<Rightarrow> Panicked NilDereference
      | cur # _ \<Rightarrow>
          (case n_paramChild cur of
             None \<Rightarrow> Goto AnyBlock st
           | Some child \<Rightarrow>
               if f_search st \<noteq> [] then
                 let i = (if n_isLeaf child then length (f_search st) else scan_slash (f_search st) 0)
                 in if f_paramIndex st < length (f_paramValues st) then
                      Goto TopBlock
                        (st\<lparr>f_stack := child # f_stack st,
                            f_paramValues := (f_paramValues st)[f_paramIndex st := take i (f_search st)],
                            f_paramIndex := f_paramIndex st + 1,
                            f_search := drop i (f_search st),
                            f_searchIndex := f_searchIndex st + i\<rparr>)
                    else Panicked IndexOutOfRange
               else Goto AnyBlock st))"

definition any_backtrack :: "string \<Rightarrow> 'h findState \<Rightarrow> 'h outcome" where
  "any_backtrack path st =
     (case backtrack anyKind path st of
        Inl p \<Rightarrow> Panicked p
      | Inr (nk, ok, st) \<Rightarrow>
          if \<not> ok then Break None st
          else if nk = paramKind then Goto ParamBlock st
          else if nk = anyKind then Goto AnyBlock st
          else Break None st)"

definition any_block :: "string \<Rightarrow> string \<Rightarrow> 'h findState \<Rightarrow> 'h outcome" where
  "any_block meth path st =
     (case f_stack st of
        [] \<Rightarrow> Panicked NilDereference
      | cur # _ \<Rightarrow>
          (case n_anyChild cur of
             None \<Rightarrow> any_backtrack path st
           | Some child \<Rightarrow>
               if 0 < n_paramsCount child \<and> n_paramsCount child - 1 < length (f_paramValues st) then
                 let st = st\<lparr>f_stack := child # f_stack st,
                     f_paramValues := (f_paramValues st)[n_paramsCount child - 1 := f_search st],
                     f_paramIndex := f_paramIndex st + 1,
                     f_searchIndex := f_searchIndex st + length (f_search st),
                     f_search := []\<rparr>
                 in (case findMethod meth child of
                       Some rm \<Rightarrow> Break (Some rm) st
                     | None \<Rightarrow>
                         let st = remember child st
                         in if n_notFoundHandler child \<noteq> None
                            then Break (n_notFoundHandler child) st
                            else any_backtrack path st)
               else Panicked IndexOutOfRange))"

fun find_block :: "string \<Rightarrow> string \<Rightarrow> block \<Rightarrow> 'h findState \<Rightarrow> 'h outcome" where
  "find_block meth path TopBlock st = top_block meth path st"
| "find_block meth path ParamBlock st = param_block st"
| "find_block meth path AnyBlock st = any_block meth path st"

text \<open>The loop, with fuel: \<open>None\<close> when the fuel runs out. Theory \<open>RouterSearch\<close> shows that
  three rounds per node of the tree are enough.\<close>

fun find_loop :: "nat \<Rightarrow> string \<Rightarrow> string \<Rightarrow> block \<Rightarrow> 'h findState \<Rightarrow> 'h outcome option" where
  "find_loop 0 meth path b st = None"
| "find_loop (Suc fuel) meth path b st =
     (case find_block meth path b st of
        Goto b st \<Rightarrow> find_loop fuel meth path b st
      | out \<Rightarrow> Some out)"

text \<open>The code after the loop: the context's path, parameter names and handler.\<close>

definition find_finish ::
  "'h routeMethod option \<Rightarrow> 'h findState \<Rightarrow> 'h RouterContext \<Rightarrow> panic + 'h RouterContext" where
  "find_finish matched st c =
     (if f_stack st = [] \<and> f_best st = None then Inr c
      else
        case matched of
          Some rm \<Rightarrow>
            Inr (c\<lparr>c_path := ppath rm, c_pnames := pnames rm, c_handler := map_option UserHandler (handler rm)\<rparr>)
        | None \<Rightarrow>
            (case f_best st of
               None \<Rightarrow> Inl NilDereference
             | Some n \<Rightarrow>
                 (case n_notFoundHandler n of
                    Some rm \<Rightarrow>
                      Inr (c\<lparr>c_path := ppath rm, c_pnames := pnames rm,
                             c_handler := map_option UserHandler (handler rm)\<rparr>)
                  | None \<Rightarrow>
                      Inr (c\<lparr>c_path := n_originalPath n, c_pnames := [],
                             c_handler := Some (if n_isHandler n then MethodNotAllowedHandler
                                                else NotFoundHandler)\<rparr>))))"

text \<open>The number of nodes of a tree: each is entered at most once, in at most three blocks.\<close>

fun node_count :: "'h node \<Rightarrow> nat" where
  "node_count (Node k l p sc op m pc ac c lf hn nf) =
     Suc (sum_list (map node_count sc) + (case pc of None \<Rightarrow> 0 | Some n \<Rightarrow> node_count n) +
          (case ac of None \<Rightarrow> 0 | Some n \<Rightarrow> node_count n))"

definition find_fuel :: "'h node \<Rightarrow> nat" where
  "find_fuel n = 3 * node_count n"

definition router_Find ::
  "string \<Rightarrow> string \<Rightarrow> 'h HandlerRouter \<Rightarrow> 'h RouterContext \<Rightarrow> (panic + 'h RouterContext) option" where
  "router_Find meth path r c =
     (let c = c\<lparr>c_path := path\<rparr>;
          st = \<lparr>f_stack = [tree r], f_best = None, f_search = path, f_searchIndex = 0,
                f_paramIndex = 0, f_paramValues = c_pvalues c\<rparr>
      in case find_loop (find_fuel (tree r)) meth path TopBlock st of
           None \<Rightarrow> None
         | Some (Goto _ _) \<Rightarrow> None
         | Some (Panicked p) \<Rightarrow> Some (Inl p)
         | Some (Return st) \<Rightarrow> Some (Inr (c\<lparr>c_pvalues := f_paramValues st\<rparr>))
         | Some (Break matched st) \<Rightarrow>
             Some (find_finish matched st (c\<lparr>c_pvalues := f_paramValues st\<rparr>)))"

end
