(* ===== verification/RouterSearch.thy ===== *)
theory RouterSearch
  imports RouterAdd RouterFind
begin

text \<open>
  The routing loop of \<^verbatim>\<open>HandlerRouter.Find\<close> against a reference search: \<open>candidates\<close> lists the nodes whose
  pattern matches a topic in order of priority, \<open>decide\<close> takes the first of them that settles the
  matter, and the loop ends within three rounds per node with that verdict.
\<close>


section \<open>The nodes that match a topic, in order of priority\<close>

text \<open>How much of the search a parameter takes: up to the next slash, or all of it at a leaf.\<close>

definition param_len :: "'h node \<Rightarrow> string \<Rightarrow> nat" where
  "param_len c r = (if n_isLeaf c then length r else scan_slash r 0)"

text \<open>
  The candidates below a node whose own prefix has matched, \<open>r\<close> being what is left of the topic and \<open>vs\<close>
  the parameter values so far: the node itself, then its static child, its parameter child and its
  wildcard child. The flag marks a wildcard.
\<close>

function candidates :: "'h node \<Rightarrow> string \<Rightarrow> string list \<Rightarrow> ('h node \<times> string list \<times> bool) list" where
  "candidates n r vs =
     (if r = [] then [(n, vs, False)]
      else
        (case findStaticChild (r ! 0) n of
           None \<Rightarrow> []
         | Some c \<Rightarrow> if prefix (n_prefix c) r then candidates c (drop (length (n_prefix c)) r) vs else []) @
        (case n_paramChild n of
           None \<Rightarrow> []
         | Some c \<Rightarrow> candidates c (drop (param_len c r) r) (vs @ [take (param_len c r) r]))) @
     (case n_anyChild n of None \<Rightarrow> [] | Some c \<Rightarrow> [(c, vs @ [r], True)])"
  by pat_completeness auto
termination
  by (relation "measure (\<lambda>(n, r, vs). size n)") (auto simp: child_size dest!: findStaticChildD)

declare candidates.simps [simp del]

datatype 'h verdict =
    Found "'h routeMethod" "'h node option" "string list"
  | Stopped "'h node option"
  | Failed "'h node option"

definition better :: "'h node option \<Rightarrow> 'h node \<Rightarrow> 'h node option" where
  "better best n = (if best = None then Some n else best)"

fun decide :: "string \<Rightarrow> ('h node \<times> string list \<times> bool) list \<Rightarrow> 'h node option \<Rightarrow> 'h verdict" where
  "decide meth [] best = Failed best"
| "decide meth ((n, vs, False) # cs) best =
     (if n_isHandler n then
        (case findMethod meth n of
           Some rm \<Rightarrow> Found rm (better best n) vs
         | None \<Rightarrow> decide meth cs (better best n))
      else
        (case n_notFoundHandler n of
           Some rm \<Rightarrow> Found rm best vs
         | None \<Rightarrow> decide meth cs best))"
| "decide meth ((n, vs, True) # cs) best =
     (case findMethod meth n of
        Some rm \<Rightarrow> Found rm best vs
      | None \<Rightarrow>
          (case n_notFoundHandler n of
             Some rm \<Rightarrow> Found rm (better best n) vs
           | None \<Rightarrow> Stopped (better best n)))"

lemma decide_append:
  "decide meth (xs @ ys) best =
     (case decide meth xs best of Failed b \<Rightarrow> decide meth ys b | v \<Rightarrow> v)"
  by (induction meth xs best rule: decide.induct) (auto split: option.split)

section \<open>The loop takes the first candidate that decides\<close>

definition restored :: "'h findState \<Rightarrow> 'h findState \<Rightarrow> bool" where
  "restored base st \<longleftrightarrow>
     f_search st = f_search base \<and> f_searchIndex st = f_searchIndex base \<and>
     f_paramIndex st = f_paramIndex base \<and>
     length (f_paramValues st) = length (f_paramValues base) \<and>
     take (f_paramIndex base) (f_paramValues st) = take (f_paramIndex base) (f_paramValues base)"

lemma restored_refl [simp]: "restored st st"
  by (simp add: restored_def)

text \<open>
  What it means that the loop leaves the node above \<open>rest\<close> with verdict \<open>v\<close> and state \<open>st\<close>, \<open>g\<close> being the
  loop as a function of the fuel: a failed node gives the search back as \<open>base\<close> had it and goes on with
  block \<open>nxt\<close> at its parent.
\<close>

definition leaves ::
  "string \<Rightarrow> string \<Rightarrow> 'h node list \<Rightarrow> block \<Rightarrow> 'h findState \<Rightarrow> 'h verdict \<Rightarrow> 'h findState \<Rightarrow>
   (nat \<Rightarrow> 'h outcome option) \<Rightarrow> bool" where
  "leaves meth path rest nxt base v st g \<longleftrightarrow>
     length (f_paramValues st) = length (f_paramValues base) \<and>
     (case v of
        Found rm best vs \<Rightarrow>
          f_best st = best \<and> f_stack st \<noteq> [] \<and> take (length vs) (f_paramValues st) = vs \<and>
          g = (\<lambda>f. Some (Break (Some rm) st))
      | Stopped best \<Rightarrow> f_best st = best \<and> f_stack st \<noteq> [] \<and> g = (\<lambda>f. Some (Break None st))
      | Failed best \<Rightarrow>
          f_best st = best \<and> f_stack st = rest \<and> restored base st \<and>
          (if rest = []
           then g = (\<lambda>f. Some (Break None st)) \<or> best = None \<and> g = (\<lambda>f. Some (Return st))
           else g = (\<lambda>f. find_loop f meth path nxt st)))"

text \<open>From block \<open>b\<close> in state \<open>st\<close> the loop does so within \<open>c\<close> rounds.\<close>

definition exits ::
  "string \<Rightarrow> string \<Rightarrow> 'h node list \<Rightarrow> block \<Rightarrow> 'h findState \<Rightarrow> block \<Rightarrow> 'h findState \<Rightarrow> nat \<Rightarrow> 'h verdict \<Rightarrow> bool" where
  "exits meth path rest nxt base b st c v \<longleftrightarrow>
     (\<exists>k\<le>c. \<exists>st'. leaves meth path rest nxt base v st' (\<lambda>f. find_loop (k + f) meth path b st))"

lemma exits_mono: "exits meth path rest nxt base b st c v \<Longrightarrow> c \<le> c' \<Longrightarrow> exits meth path rest nxt base b st c' v"
  unfolding exits_def by (meson le_trans)

lemma exits_step:
  assumes "find_block meth path b st = Goto b' st'" and "exits meth path rest nxt base b' st' c v"
  shows "exits meth path rest nxt base b st (Suc c) v"
proof -
  obtain k st'' where "k \<le> c" "leaves meth path rest nxt base v st'' (\<lambda>f. find_loop (k + f) meth path b' st')"
    using assms(2) by (auto simp: exits_def)
  moreover have "(\<lambda>f. find_loop (Suc k + f) meth path b st) = (\<lambda>f. find_loop (k + f) meth path b' st')"
    using assms(1) by simp
  ultimately show ?thesis
    unfolding exits_def by (intro exI [of _ "Suc k"]) auto
qed

lemma exits_now:
  assumes "leaves meth path rest nxt base v st' (\<lambda>f. find_loop (Suc f) meth path b st)"
  shows "exits meth path rest nxt base b st 1 v"
  unfolding exits_def using assms by (intro exI [of _ 1]) auto

text \<open>A child that fails hands over to the parent's next block.\<close>

lemma exits_seq:
  assumes "exits meth path (p # rest) nxt1 st b1 st1 c1 v1"
    and "length (f_paramValues st) = length (f_paramValues base)"
    and "\<And>best st2. v1 = Failed best \<Longrightarrow> f_best st2 = best \<Longrightarrow> f_stack st2 = p # rest \<Longrightarrow> restored st st2 \<Longrightarrow>
      exits meth path rest nxt base nxt1 st2 c2 v"
    and "\<forall>best. v1 \<noteq> Failed best \<Longrightarrow> v = v1"
  shows "exits meth path rest nxt base b1 st1 (c1 + c2) v"
proof -
  obtain k1 st2 where k1: "k1 \<le> c1"
      "leaves meth path (p # rest) nxt1 st v1 st2 (\<lambda>f. find_loop (k1 + f) meth path b1 st1)"
    using assms(1) by (auto simp: exits_def)
  show ?thesis
  proof (cases "\<exists>best. v1 = Failed best")
    case True
    then have g: "find_loop (k1 + f) meth path b1 st1 = find_loop f meth path nxt1 st2" for f
      using k1(2) by (auto simp: leaves_def fun_eq_iff)
    have "exits meth path rest nxt base nxt1 st2 c2 v"
      using True k1(2) assms(3) by (auto simp: leaves_def)
    then obtain k2 st3 where "k2 \<le> c2"
        "leaves meth path rest nxt base v st3 (\<lambda>f. find_loop (k2 + f) meth path nxt1 st2)"
      by (auto simp: exits_def)
    then show ?thesis
      unfolding exits_def using k1(1) g
      by (intro exI [of _ "k1 + k2"] conjI exI [of _ st3]) (auto simp: add.assoc)
  next
    case False
    then have "v = v1" using assms(4) by blast
    then have "leaves meth path rest nxt base v st2 (\<lambda>f. find_loop (k1 + f) meth path b1 st1)"
      using k1(2) assms(2) False by (auto simp: leaves_def split: verdict.splits)
    then show ?thesis unfolding exits_def using k1(1) trans_le_add1 by blast
  qed
qed


text \<open>The state right after the prefix of \<open>n\<close>, or the value of its parameter, has been taken off the search.\<close>

definition at_node :: "string \<Rightarrow> nat \<Rightarrow> 'h node \<Rightarrow> 'h node list \<Rightarrow> 'h findState \<Rightarrow> 'h findState \<Rightarrow> bool" where
  "at_node path d n rest base st \<longleftrightarrow>
     f_stack st = n # rest \<and> n_kind n \<noteq> anyKind \<and>
     f_search st = drop (f_searchIndex st) path \<and> f_searchIndex st \<le> length path \<and>
     f_search base = drop (f_searchIndex base) path \<and>
     length (f_paramValues st) = length (f_paramValues base) \<and>
     take d (f_paramValues st) = take d (f_paramValues base) \<and>
     f_paramIndex base = d \<and> f_paramIndex st = level_below d n \<and>
     level_below d n \<le> length (f_paramValues base) \<and>
     f_searchIndex st = f_searchIndex base +
       (if n_kind n = staticKind then length (n_prefix n) else length (f_paramValues st ! d))"

definition next_block :: "'h node \<Rightarrow> block" where
  "next_block n = (if n_kind n = staticKind then ParamBlock else AnyBlock)"

lemma at_node_restored:
  assumes "at_node path d n rest base st" and "restored st st2" and "f_stack st2 = n # rest"
  shows "at_node path d n rest base st2"
proof -
  have lv: "take (level_below d n) (f_paramValues st2) = take (level_below d n) (f_paramValues st)"
    and len: "length (f_paramValues st2) = length (f_paramValues st)"
    using assms(1,2) by (auto simp: at_node_def restored_def)
  have "take d (f_paramValues st2) = take d (f_paramValues st)"
    using arg_cong [OF lv, of "take d"] by (simp add: level_below_def min_def split: if_splits)
  moreover have "f_paramValues st2 ! d = f_paramValues st ! d" if "n_kind n \<noteq> staticKind"
    using arg_cong [OF lv, of "\<lambda>xs. xs ! d"] that by (simp add: level_below_def)
  ultimately show ?thesis
    using assms len by (auto simp: at_node_def restored_def)
qed

lemma at_node_best [simp]: "at_node path d n rest base (st\<lparr>f_best := x\<rparr>) = at_node path d n rest base st"
  by (simp add: at_node_def)

text \<open>Giving up on a node.\<close>

lemma any_backtrack_exits:
  assumes "at_node path d n rest base st" and "find_block meth path b st = any_backtrack path st"
  shows "exits meth path rest (next_block n) base b st 1 (Failed (f_best st))"
proof -
  define st' where "st' = (if n_kind n = staticKind
    then st\<lparr>f_stack := rest, f_searchIndex := f_searchIndex base, f_search := f_search base\<rparr>
    else st\<lparr>f_stack := rest, f_paramIndex := d, f_searchIndex := f_searchIndex base, f_search := f_search base,
            f_paramValues := (f_paramValues st)[d := []]\<rparr>)"
  have "backtrack anyKind path st = Inr (next_kind (n_kind n), rest \<noteq> [], st')"
    using assms(1) by (cases "n_kind n") (auto simp: backtrack_def at_node_def st'_def level_below_def Let_def)
  then have "any_backtrack path st = (if rest = [] then Break None st' else Goto (next_block n) st')"
    using assms(1) by (cases "n_kind n") (auto simp: any_backtrack_def next_block_def at_node_def)
  moreover have "restored base st'" "f_best st' = f_best st" "f_stack st' = rest"
      "length (f_paramValues st') = length (f_paramValues base)"
    using assms(1) by (auto simp: restored_def st'_def at_node_def level_below_def)
  ultimately show ?thesis
    using assms(2) by (intro exits_now [of _ _ _ _ _ _ st']) (auto simp: leaves_def)
qed

definition any_candidates :: "'h node \<Rightarrow> string \<Rightarrow> string list \<Rightarrow> ('h node \<times> string list \<times> bool) list" where
  "any_candidates n r vs = (case n_anyChild n of None \<Rightarrow> [] | Some c \<Rightarrow> [(c, vs @ [r], True)])"

lemma any_block_exits:
  assumes "wf_node B d n" and "B \<le> length (f_paramValues base)" and "at_node path d n rest base st"
  shows "exits meth path rest (next_block n) base AnyBlock st 1
    (decide meth (any_candidates n (f_search st) (take (f_paramIndex st) (f_paramValues st))) (f_best st))"
proof (cases "n_anyChild n")
  case None
  then have "find_block meth path AnyBlock st = any_backtrack path st"
    using assms(3) by (simp add: any_block_def at_node_def)
  then show ?thesis
    using any_backtrack_exits [OF assms(3)] None by (simp add: any_candidates_def)
next
  case (Some c)
  let ?l = "level_below d n"
  have c: "n_kind c = anyKind" "n_paramsCount c = Suc ?l" "?l < length (f_paramValues st)"
    using wf_nodeD(4) [OF assms(1) Some] wf_nodeD(1) [of B ?l c] assms(2,3)
    by (auto simp: node_shape_def at_node_def)
  define st1 where "st1 = st\<lparr>f_stack := c # f_stack st, f_paramValues := (f_paramValues st)[?l := f_search st],
      f_paramIndex := f_paramIndex st + 1, f_searchIndex := f_searchIndex st + length (f_search st), f_search := []\<rparr>"
  have blk: "any_block meth path st =
      (case findMethod meth c of
         Some rm \<Rightarrow> Break (Some rm) st1
       | None \<Rightarrow>
           if n_notFoundHandler c \<noteq> None then Break (n_notFoundHandler c) (remember c st1)
           else any_backtrack path (remember c st1))"
    using assms(3) Some c by (auto simp: any_block_def at_node_def st1_def Let_def split: option.split)
  have st1: "f_stack st1 = c # n # rest" "f_best st1 = f_best st" "f_paramIndex st1 = Suc ?l"
      "length (f_paramValues st1) = length (f_paramValues base)" "f_paramValues st1 ! ?l = f_search st"
      "length (f_search st) \<le> f_searchIndex st1"
      "take (Suc ?l) (f_paramValues st1) = take (f_paramIndex st) (f_paramValues st) @ [f_search st]"
    using assms(3) c by (auto simp: st1_def at_node_def take_Suc_conv_app_nth)
  have bt: "\<exists>st2. any_backtrack path (remember c st1) = Break None st2 \<and> f_best st2 = better (f_best st) c \<and>
      f_stack st2 = n # rest \<and> length (f_paramValues st2) = length (f_paramValues base)"
    using st1 c assms(3) unfolding at_node_def
    by (auto simp: any_backtrack_def backtrack_def Let_def remember_def better_def)
  have len: "length (take (f_paramIndex st) (f_paramValues st) @ [f_search st]) = Suc ?l"
    using assms(3) c by (simp add: at_node_def)
  show ?thesis
  proof (cases "findMethod meth c")
    case None
    show ?thesis
    proof (cases "n_notFoundHandler c")
      case None2: None
      then obtain st2 where "find_block meth path AnyBlock st = Break None st2" "f_best st2 = better (f_best st) c"
          "f_stack st2 = n # rest" "length (f_paramValues st2) = length (f_paramValues base)"
        using bt blk None by auto
      then show ?thesis
        using Some None None2 by (intro exits_now [of _ _ _ _ _ _ st2]) (simp add: leaves_def any_candidates_def)
    next
      case (Some rm)
      then show ?thesis
        using \<open>n_anyChild n = Some c\<close> None blk st1 len
        by (intro exits_now [of _ _ _ _ _ _ "remember c st1"])
          (auto simp: leaves_def any_candidates_def remember_def better_def)
    qed
  next
    case Some2: (Some rm)
    then show ?thesis
      using Some blk st1 len by (intro exits_now [of _ _ _ _ _ _ st1]) (auto simp: leaves_def any_candidates_def)
  qed
qed


definition param_candidates :: "'h node \<Rightarrow> string \<Rightarrow> string list \<Rightarrow> ('h node \<times> string list \<times> bool) list" where
  "param_candidates n r vs =
     (if r = [] then []
      else case n_paramChild n of
             None \<Rightarrow> []
           | Some c \<Rightarrow> candidates c (drop (param_len c r) r) (vs @ [take (param_len c r) r]))"

definition static_candidates :: "'h node \<Rightarrow> string \<Rightarrow> string list \<Rightarrow> ('h node \<times> string list \<times> bool) list" where
  "static_candidates n r vs =
     (if r = [] then []
      else case findStaticChild (r ! 0) n of
             None \<Rightarrow> []
           | Some c \<Rightarrow> if prefix (n_prefix c) r then candidates c (drop (length (n_prefix c)) r) vs else [])"

lemma candidates_eq:
  "candidates n r vs =
     (if r = [] then [(n, vs, False)] else []) @ static_candidates n r vs @ param_candidates n r vs @
     any_candidates n r vs"
  by (subst candidates.simps) (simp add: static_candidates_def param_candidates_def any_candidates_def)

text \<open>What is to show of a child, for the two ways a child is entered.\<close>

definition enters_param :: "string \<Rightarrow> string \<Rightarrow> 'h node \<Rightarrow> bool" where
  "enters_param meth path n \<longleftrightarrow>
     (\<forall>B d rest base st. wf_node B d n \<longrightarrow> B \<le> length (f_paramValues base) \<longrightarrow>
        at_node path d n rest base st \<longrightarrow> n_kind n = paramKind \<longrightarrow>
        exits meth path rest AnyBlock base TopBlock st (3 * node_count n)
          (decide meth (candidates n (f_search st) (take (f_paramIndex st) (f_paramValues st))) (f_best st)))"

definition enters_static :: "string \<Rightarrow> string \<Rightarrow> 'h node \<Rightarrow> bool" where
  "enters_static meth path n \<longleftrightarrow>
     (\<forall>B rest st. wf_node B (f_paramIndex st) n \<longrightarrow> B \<le> length (f_paramValues st) \<longrightarrow> n_kind n = staticKind \<longrightarrow>
        f_stack st = n # rest \<longrightarrow> f_search st = drop (f_searchIndex st) path \<longrightarrow>
        f_searchIndex st \<le> length path \<longrightarrow> f_paramIndex st \<le> length (f_paramValues st) \<longrightarrow>
        (rest = [] \<longrightarrow> f_best st = None) \<longrightarrow>
        exits meth path rest ParamBlock st TopBlock st (3 * node_count n)
          (decide meth
             (if prefix (n_prefix n) (f_search st)
              then candidates n (drop (length (n_prefix n)) (f_search st)) (take (f_paramIndex st) (f_paramValues st))
              else [])
             (f_best st)))"

lemma enters_paramD:
  assumes "enters_param meth path n" and "wf_node B d n" and "B \<le> length (f_paramValues base)"
    and "at_node path d n rest base st" and "n_kind n = paramKind"
  shows "exits meth path rest AnyBlock base TopBlock st (3 * node_count n)
          (decide meth (candidates n (f_search st) (take (f_paramIndex st) (f_paramValues st))) (f_best st))"
  using assms unfolding enters_param_def by blast

lemma enters_staticD:
  assumes "enters_static meth path n" and "wf_node B (f_paramIndex st) n" and "B \<le> length (f_paramValues st)"
    and "n_kind n = staticKind" and "f_stack st = n # rest" and "f_search st = drop (f_searchIndex st) path"
    and "f_searchIndex st \<le> length path" and "f_paramIndex st \<le> length (f_paramValues st)"
    and "rest = [] \<longrightarrow> f_best st = None"
  shows "exits meth path rest ParamBlock st TopBlock st (3 * node_count n)
          (decide meth
             (if prefix (n_prefix n) (f_search st)
              then candidates n (drop (length (n_prefix n)) (f_search st)) (take (f_paramIndex st) (f_paramValues st))
              else [])
             (f_best st))"
  using assms unfolding enters_static_def by blast

lemma node_count_eq:
  "node_count n = Suc (sum_list (map node_count (n_staticChildren n)) +
     (case n_paramChild n of None \<Rightarrow> 0 | Some c \<Rightarrow> node_count c) +
     (case n_anyChild n of None \<Rightarrow> 0 | Some c \<Rightarrow> node_count c))"
  by (cases n) simp

lemma node_count_child:
  "findStaticChild l n = Some c \<Longrightarrow> Suc (node_count c +
     (case n_paramChild n of None \<Rightarrow> 0 | Some c \<Rightarrow> node_count c)) \<le> node_count n"
  using member_le_sum_list [of "node_count c" "map node_count (n_staticChildren n)"] findStaticChildD [of l n c]
  by (auto simp: node_count_eq [of n])

lemma param_block_exits:
  assumes "wf_node B d n" and "B \<le> length (f_paramValues base)" and at: "at_node path d n rest base st"
    and child: "\<And>c. n_paramChild n = Some c \<Longrightarrow> enters_param meth path c"
  shows "exits meth path rest (next_block n) base ParamBlock st
    (2 + 3 * (case n_paramChild n of None \<Rightarrow> 0 | Some c \<Rightarrow> node_count c))
    (decide meth
       (param_candidates n (f_search st) (take (f_paramIndex st) (f_paramValues st)) @
        any_candidates n (f_search st) (take (f_paramIndex st) (f_paramValues st))) (f_best st))"
proof (cases "f_search st = [] \<or> n_paramChild n = None")
  case True
  then have "find_block meth path ParamBlock st = Goto AnyBlock st"
    using at by (auto simp: param_block_def at_node_def split: option.split)
  moreover have "param_candidates n (f_search st) vs = []" for vs
    using True by (auto simp: param_candidates_def)
  ultimately show ?thesis
    using exits_mono [OF exits_step [OF _ any_block_exits [OF assms(1,2) at]]] by simp
next
  case False
  then obtain c where c: "n_paramChild n = Some c" and ne: "f_search st \<noteq> []" by auto
  let ?l = "level_below d n" and ?i = "param_len c (f_search st)"
  have wfc: "n_kind c = paramKind" "wf_node B ?l c" using wf_nodeD(3) [OF assms(1) c] by simp_all
  have lt: "?l < B" using wf_nodeD(1) [OF wfc(2)] wfc(1) by (simp add: node_shape_def)
  define st1 where "st1 = st\<lparr>f_stack := c # f_stack st,
      f_paramValues := (f_paramValues st)[?l := take ?i (f_search st)], f_paramIndex := ?l + 1,
      f_search := drop ?i (f_search st), f_searchIndex := f_searchIndex st + ?i\<rparr>"
  have i: "?i \<le> length (f_search st)"
    by (simp add: param_len_def scan_slash_eq length_takeWhile_le)
  have blk: "find_block meth path ParamBlock st = Goto TopBlock st1"
    using at c ne lt assms(2) by (simp add: param_block_def at_node_def st1_def param_len_def Let_def)
  have at1: "at_node path ?l c (n # rest) st st1"
    using at wfc(1) lt assms(2) i by (auto simp: at_node_def st1_def level_below_def add_ac)
  have vs: "take (f_paramIndex st1) (f_paramValues st1) =
      take (f_paramIndex st) (f_paramValues st) @ [take ?i (f_search st)]"
    using at lt assms(2) by (simp add: st1_def at_node_def take_Suc_conv_app_nth)
  have lenB: "B \<le> length (f_paramValues st)" using at assms(2) by (simp add: at_node_def)
  have srch: "f_search st1 = drop ?i (f_search st)" "f_best st1 = f_best st" by (simp_all add: st1_def)
  let ?v = "decide meth (candidates c (drop ?i (f_search st))
      (take (f_paramIndex st) (f_paramValues st) @ [take ?i (f_search st)])) (f_best st)"
  have "exits meth path (n # rest) AnyBlock st TopBlock st1 (3 * node_count c) ?v"
    using enters_paramD [OF child [OF c] wfc(2) lenB at1 wfc(1)] unfolding vs srch .
  then have "exits meth path rest (next_block n) base TopBlock st1 (3 * node_count c + 1)
    (decide meth
       (param_candidates n (f_search st) (take (f_paramIndex st) (f_paramValues st)) @
        any_candidates n (f_search st) (take (f_paramIndex st) (f_paramValues st))) (f_best st))"
  proof (rule exits_seq)
    fix best st2
    assume st2: "?v = Failed best" "f_best st2 = best" "f_stack st2 = n # rest" "restored st st2"
    have "at_node path d n rest base st2" using at_node_restored [OF at st2(4,3)] .
    then show "exits meth path rest (next_block n) base AnyBlock st2 1
      (decide meth
         (param_candidates n (f_search st) (take (f_paramIndex st) (f_paramValues st)) @
          any_candidates n (f_search st) (take (f_paramIndex st) (f_paramValues st))) (f_best st))"
      using any_block_exits [OF assms(1,2), of path rest st2 meth] st2 c ne
      by (simp add: decide_append param_candidates_def restored_def)
  next
    show "length (f_paramValues st) = length (f_paramValues base)" using at by (simp add: at_node_def)
    show "\<forall>best. ?v \<noteq> Failed best \<Longrightarrow> decide meth
       (param_candidates n (f_search st) (take (f_paramIndex st) (f_paramValues st)) @
        any_candidates n (f_search st) (take (f_paramIndex st) (f_paramValues st))) (f_best st) = ?v"
      using c ne by (simp add: decide_append param_candidates_def split: verdict.split)
  qed
  then show ?thesis
    using exits_step [OF blk] c by simp
qed


text \<open>The part of the first block after the prefix has been taken off.\<close>

definition top_tail :: "string \<Rightarrow> 'h node \<Rightarrow> 'h findState \<Rightarrow> 'h outcome" where
  "top_tail meth n st =
     (if f_search st = [] \<and> n_isHandler n then
        (case findMethod meth n of
           Some rm \<Rightarrow> Break (Some rm) (remember n st)
         | None \<Rightarrow> static_step n (remember n st))
      else if f_search st = [] \<and> n_notFoundHandler n \<noteq> None then Break (n_notFoundHandler n) st
      else static_step n st)"

lemma static_step_exits:
  assumes "wf_node B d n" and "B \<le> length (f_paramValues base)" and at: "at_node path d n rest base st"
    and pchild: "\<And>c. n_paramChild n = Some c \<Longrightarrow> enters_param meth path c"
    and schild: "\<And>l c. findStaticChild l n = Some c \<Longrightarrow> enters_static meth path c"
    and blk: "find_block meth path b st0 = static_step n st"
  shows "exits meth path rest (next_block n) base b st0 (3 * node_count n)
    (decide meth
       (static_candidates n (f_search st) (take (f_paramIndex st) (f_paramValues st)) @
        param_candidates n (f_search st) (take (f_paramIndex st) (f_paramValues st)) @
        any_candidates n (f_search st) (take (f_paramIndex st) (f_paramValues st))) (f_best st))"
proof (cases "f_search st = [] \<or> findStaticChild (f_search st ! 0) n = None")
  case True
  then have "find_block meth path b st0 = Goto ParamBlock st" "static_candidates n (f_search st) vs = []" for vs
    using blk by (auto simp: static_step_def static_candidates_def)
  moreover have "Suc (2 + 3 * (case n_paramChild n of None \<Rightarrow> 0 | Some c \<Rightarrow> node_count c)) \<le> 3 * node_count n"
    by (simp add: node_count_eq [of n])
  ultimately show ?thesis
    using exits_mono [OF exits_step [OF _ param_block_exits [OF assms(1,2) at pchild]]] by simp
next
  case False
  then obtain c where c: "findStaticChild (f_search st ! 0) n = Some c" and ne: "f_search st \<noteq> []" by auto
  define st1 where "st1 = st\<lparr>f_stack := c # f_stack st\<rparr>"
  have goto: "find_block meth path b st0 = Goto TopBlock st1"
    using blk c ne by (simp add: static_step_def st1_def)
  note wfc = wf_findStaticChild [OF assms(1) c]
  let ?vs = "take (f_paramIndex st) (f_paramValues st)"
  let ?v = "decide meth (static_candidates n (f_search st) ?vs) (f_best st)"
  have "exits meth path (n # rest) ParamBlock st1 TopBlock st1 (3 * node_count c) ?v"
  proof -
    have "B \<le> length (f_paramValues st1)" "f_stack st1 = c # n # rest" "f_search st1 = drop (f_searchIndex st1) path"
        "f_searchIndex st1 \<le> length path" "f_paramIndex st1 \<le> length (f_paramValues st1)"
        "wf_node B (f_paramIndex st1) c"
      using at assms(2) wfc(2) by (simp_all add: at_node_def st1_def)
    from enters_staticD [OF schild [OF c] this(6,1) wfc(1) this(2-5)] show ?thesis
      using c ne by (auto simp: static_candidates_def st1_def split: if_splits)
  qed
  then have "exits meth path rest (next_block n) base TopBlock st1
    (3 * node_count c + (2 + 3 * (case n_paramChild n of None \<Rightarrow> 0 | Some c \<Rightarrow> node_count c)))
    (decide meth (static_candidates n (f_search st) ?vs @ param_candidates n (f_search st) ?vs @
        any_candidates n (f_search st) ?vs) (f_best st))"
  proof (rule exits_seq)
    fix best st2
    assume st2: "?v = Failed best" "f_best st2 = best" "f_stack st2 = n # rest" "restored st1 st2"
    then have re: "restored st st2" by (simp add: restored_def st1_def)
    have at2: "at_node path d n rest base st2" using at_node_restored [OF at re st2(3)] .
    show "exits meth path rest (next_block n) base ParamBlock st2
      (2 + 3 * (case n_paramChild n of None \<Rightarrow> 0 | Some c \<Rightarrow> node_count c))
      (decide meth (static_candidates n (f_search st) ?vs @ param_candidates n (f_search st) ?vs @
         any_candidates n (f_search st) ?vs) (f_best st))"
      using param_block_exits [OF assms(1,2) at2 pchild] re st2(1)
      by (subst decide_append) (simp add: restored_def flip: st2(2))
  next
    show "length (f_paramValues st1) = length (f_paramValues base)" using at by (simp add: at_node_def st1_def)
    show "\<forall>best. ?v \<noteq> Failed best \<Longrightarrow> decide meth (static_candidates n (f_search st) ?vs @
        param_candidates n (f_search st) ?vs @ any_candidates n (f_search st) ?vs) (f_best st) = ?v"
      by (simp add: decide_append split: verdict.split)
  qed
  then show ?thesis
    by (rule exits_mono [OF exits_step [OF goto]]) (use node_count_child [OF c] in simp)
qed

lemma top_tail_exits:
  assumes "wf_node B d n" and "B \<le> length (f_paramValues base)" and at: "at_node path d n rest base st"
    and pchild: "\<And>c. n_paramChild n = Some c \<Longrightarrow> enters_param meth path c"
    and schild: "\<And>l c. findStaticChild l n = Some c \<Longrightarrow> enters_static meth path c"
    and blk: "find_block meth path b st0 = top_tail meth n st"
  shows "exits meth path rest (next_block n) base b st0 (3 * node_count n)
    (decide meth (candidates n (f_search st) (take (f_paramIndex st) (f_paramValues st))) (f_best st))"
proof -
  let ?vs = "take (f_paramIndex st) (f_paramValues st)"
  have len: "length ?vs = f_paramIndex st" and st: "f_stack st = n # rest" "length (f_paramValues st) = length (f_paramValues base)"
    using at by (simp_all add: at_node_def)
  have one: "1 \<le> 3 * node_count n" by (simp add: node_count_eq [of n])
  have at': "at_node path d n rest base (remember n st)" using at by (simp add: remember_def)
  have rem: "f_search (remember n st) = f_search st" "f_paramIndex (remember n st) = f_paramIndex st"
      "f_paramValues (remember n st) = f_paramValues st" "f_best (remember n st) = better (f_best st) n"
      "f_stack (remember n st) = f_stack st"
    by (simp_all add: remember_def better_def)
  note step = static_step_exits [OF assms(1,2) _ pchild schild]
  show ?thesis
  proof (cases "f_search st = []")
    case False
    then show ?thesis
      using step [OF at] blk by (simp add: top_tail_def candidates_eq)
  next
    case True
    consider (hit) rm where "n_isHandler n" "findMethod meth n = Some rm"
      | (other) "n_isHandler n" "findMethod meth n = None"
      | (nf) rm where "\<not> n_isHandler n" "n_notFoundHandler n = Some rm"
      | (none) "\<not> n_isHandler n" "n_notFoundHandler n = None"
      by (metis option.exhaust)
    then show ?thesis
    proof cases
      case hit
      then show ?thesis
        using True blk rem len st
        by (intro exits_mono [OF exits_now [of _ _ _ _ _ _ "remember n st"] one])
          (auto simp: top_tail_def leaves_def candidates_eq)
    next
      case other
      then show ?thesis
        using True step [OF at'] blk rem by (simp add: top_tail_def candidates_eq)
    next
      case nf
      then show ?thesis
        using True blk len st
        by (intro exits_mono [OF exits_now [of _ _ _ _ _ _ st] one])
          (auto simp: top_tail_def leaves_def candidates_eq)
    next
      case none
      then show ?thesis
        using True step [OF at] blk by (simp add: top_tail_def candidates_eq)
    qed
  qed
qed


lemma top_block_tail:
  assumes "f_stack st = n # rest"
  shows "n_kind n = paramKind \<Longrightarrow> top_block meth path st = top_tail meth n st"
    and "n_kind n = staticKind \<Longrightarrow> prefix (n_prefix n) (f_search st) \<Longrightarrow> top_block meth path st =
      top_tail meth n (st\<lparr>f_search := drop (length (n_prefix n)) (f_search st),
        f_searchIndex := f_searchIndex st + length (n_prefix n)\<rparr>)"
    and "n_kind n = staticKind \<Longrightarrow> \<not> prefix (n_prefix n) (f_search st) \<Longrightarrow> top_block meth path st =
      (if rest = [] then Return (st\<lparr>f_stack := rest\<rparr>) else Goto ParamBlock (st\<lparr>f_stack := rest\<rparr>))"
proof -
  have lcp: "lcpLen (f_search st) (n_prefix n) = length (n_prefix n) \<longleftrightarrow> prefix (n_prefix n) (f_search st)"
    unfolding lcpLen_full by (metis append_eq_conv_conj prefix_def)
  show "n_kind n = paramKind \<Longrightarrow> top_block meth path st = top_tail meth n st"
    using assms by (auto simp: top_block_def top_tail_def Let_def split: option.split)
  show "n_kind n = staticKind \<Longrightarrow> prefix (n_prefix n) (f_search st) \<Longrightarrow> top_block meth path st =
      top_tail meth n (st\<lparr>f_search := drop (length (n_prefix n)) (f_search st),
        f_searchIndex := f_searchIndex st + length (n_prefix n)\<rparr>)"
    using assms lcp by (auto simp: top_block_def top_tail_def Let_def split: option.split)
  show "n_kind n = staticKind \<Longrightarrow> \<not> prefix (n_prefix n) (f_search st) \<Longrightarrow> top_block meth path st =
      (if rest = [] then Return (st\<lparr>f_stack := rest\<rparr>) else Goto ParamBlock (st\<lparr>f_stack := rest\<rparr>))"
    using assms lcp by (auto simp: top_block_def backtrack_def Let_def)
qed

theorem enters_node: "enters_static meth path n \<and> enters_param meth path n"
proof (induction n rule: measure_induct_rule [of size])
  case (less n)
  have pchild: "\<And>c. n_paramChild n = Some c \<Longrightarrow> enters_param meth path c"
    using less child_size(2) by force
  have schild: "\<And>l c. findStaticChild l n = Some c \<Longrightarrow> enters_static meth path c"
    using less child_size(1) findStaticChildD by blast
  have "enters_param meth path n"
    unfolding enters_param_def
  proof (intro allI impI)
    fix B d rest and base st :: "'a findState"
    assume A: "wf_node B d n" "B \<le> length (f_paramValues base)" "at_node path d n rest base st" "n_kind n = paramKind"
    then have "find_block meth path TopBlock st = top_tail meth n st"
      using top_block_tail(1) [of st n rest] by (simp add: at_node_def)
    from top_tail_exits [OF A(1-3) pchild schild this]
    show "exits meth path rest AnyBlock base TopBlock st (3 * node_count n)
        (decide meth (candidates n (f_search st) (take (f_paramIndex st) (f_paramValues st))) (f_best st))"
      using A(4) by (simp add: next_block_def)
  qed
  moreover have "enters_static meth path n"
    unfolding enters_static_def
  proof (intro allI impI)
    fix B rest and st :: "'a findState"
    assume A: "wf_node B (f_paramIndex st) n" "B \<le> length (f_paramValues st)" "n_kind n = staticKind"
      "f_stack st = n # rest" "f_search st = drop (f_searchIndex st) path" "f_searchIndex st \<le> length path"
      "f_paramIndex st \<le> length (f_paramValues st)" "rest = [] \<longrightarrow> f_best st = None"
    let ?p = "n_prefix n"
    show "exits meth path rest ParamBlock st TopBlock st (3 * node_count n)
        (decide meth
           (if prefix ?p (f_search st)
            then candidates n (drop (length ?p) (f_search st)) (take (f_paramIndex st) (f_paramValues st))
            else [])
           (f_best st))"
    proof (cases "prefix ?p (f_search st)")
      case True
      define st1 where "st1 = st\<lparr>f_search := drop (length ?p) (f_search st),
        f_searchIndex := f_searchIndex st + length ?p\<rparr>"
      have "length ?p \<le> length (f_search st)" using True by (rule prefix_length_le)
      then have at: "at_node path (f_paramIndex st) n rest st st1"
        using A by (auto simp: at_node_def st1_def level_below_def add_ac)
      have "find_block meth path TopBlock st = top_tail meth n st1"
        using top_block_tail(2) [OF A(4,3) True] by (simp add: st1_def)
      from top_tail_exits [OF A(1,2) at pchild schild this]
      show ?thesis using True A(3) by (simp add: next_block_def st1_def)
    next
      case False
      have "1 \<le> 3 * node_count n" by (simp add: node_count_eq [of n])
      then show ?thesis
        using top_block_tail(3) [OF A(4,3) False, of meth path] False A(8)
        by (intro exits_mono [OF exits_now [of _ _ _ _ _ _ "st\<lparr>f_stack := rest\<rparr>"]])
          (auto simp: leaves_def restored_def)
    qed
  qed
  ultimately show ?case by simp
qed


section \<open>Find as a function of the candidates\<close>

definition find_candidates :: "'h node \<Rightarrow> string \<Rightarrow> ('h node \<times> string list \<times> bool) list" where
  "find_candidates n path =
     (if prefix (n_prefix n) path then candidates n (drop (length (n_prefix n)) path) [] else [])"

text \<open>The context for a path that matched without its method.\<close>

definition best_match :: "'h node \<Rightarrow> 'h RouterContext \<Rightarrow> 'h RouterContext" where
  "best_match n c =
     (case n_notFoundHandler n of
        Some rm \<Rightarrow>
          c\<lparr>c_path := ppath rm, c_pnames := pnames rm, c_handler := map_option UserHandler (handler rm)\<rparr>
      | None \<Rightarrow>
          c\<lparr>c_path := n_originalPath n, c_pnames := [],
            c_handler := Some (if n_isHandler n then MethodNotAllowedHandler else NotFoundHandler)\<rparr>)"

fun find_result :: "'h verdict \<Rightarrow> 'h RouterContext \<Rightarrow> 'h RouterContext" where
  "find_result (Found rm b vs) c =
     c\<lparr>c_path := ppath rm, c_pnames := pnames rm, c_handler := map_option UserHandler (handler rm)\<rparr>"
| "find_result (Stopped b) c = (case b of None \<Rightarrow> c | Some n \<Rightarrow> best_match n c)"
| "find_result (Failed b) c = (case b of None \<Rightarrow> c | Some n \<Rightarrow> best_match n c)"

lemma better_not_None [simp]: "better b n \<noteq> None" "\<exists>y. better b n = Some y"
  by (auto simp: better_def)

lemma decide_Stopped: "decide meth cs best = Stopped b \<Longrightarrow> b \<noteq> None"
  by (induction meth cs best rule: decide.induct) (auto split: if_splits option.splits)

lemma decide_zero: "decide meth (find_candidates zeroNode path) None = Failed None"
  by (auto simp: find_candidates_def candidates.simps zeroNode_def findStaticChild_def)

lemma find_loop_zero:
  assumes "f_stack st = [zeroNode]" and "f_best st = None" and "f_searchIndex st = 0"
    and "f_search st = path"
  shows "find_loop (Suc (Suc (Suc f))) meth path TopBlock st = Some (Break None (st\<lparr>f_stack := []\<rparr>))"
proof -
  have "top_block meth path st = Goto ParamBlock st"
    using assms by (simp add: top_block_def zeroNode_def Let_def static_step_def findStaticChild_def)
  moreover have "param_block st = Goto AnyBlock st" using assms(1) by (simp add: param_block_def zeroNode_def)
  moreover have "any_block meth path st = Break None (st\<lparr>f_stack := []\<rparr>)"
    using assms by (simp add: any_block_def any_backtrack_def backtrack_def zeroNode_def Let_def)
  ultimately show ?thesis by simp
qed

definition find_start :: "'h node \<Rightarrow> string \<Rightarrow> string list \<Rightarrow> 'h findState" where
  "find_start n path pvalues = \<lparr>f_stack = [n], f_best = None, f_search = path, f_searchIndex = 0,
     f_paramIndex = 0, f_paramValues = pvalues\<rparr>"

lemma find_loop_leaves:
  fixes meth path :: string
  assumes "router_inv r" and "maxParam r \<le> length pvalues"
  defines "v \<equiv> decide meth (find_candidates (tree r) path) None" and "st \<equiv> find_start (tree r) path pvalues"
  shows "\<exists>st'. leaves meth path [] ParamBlock st v st' (\<lambda>f. find_loop (find_fuel (tree r) + f) meth path TopBlock st)"
proof (cases "tree r = zeroNode")
  case True
  have "find_loop (3 + f) meth path TopBlock st = Some (Break None (st\<lparr>f_stack := []\<rparr>))" for f
    using find_loop_zero [of st path f meth] True by (simp add: st_def find_start_def numeral_3_eq_3)
  then have "(\<lambda>f. find_loop (find_fuel (tree r) + f) meth path TopBlock st) =
      (\<lambda>f. Some (Break None (st\<lparr>f_stack := []\<rparr>)))"
    using True by (simp add: find_fuel_def zeroNode_def)
  moreover have "v = Failed None" using decide_zero [of meth path] True by (simp add: v_def)
  ultimately show ?thesis
    by (intro exI [of _ "st\<lparr>f_stack := []\<rparr>"]) (simp add: leaves_def restored_def st_def find_start_def)
next
  case False
  then have wf: "wf_node (maxParam r) 0 (tree r)" "n_kind (tree r) = staticKind"
    using assms(1) by (auto simp: router_inv_def tree_ok_def)
  have "exits meth path [] ParamBlock st TopBlock st (3 * node_count (tree r)) v"
    using enters_staticD [OF conjunct1 [OF enters_node], of "maxParam r" st "tree r" "[]" path meth] wf assms(2)
    by (simp add: st_def find_start_def v_def find_candidates_def cong: if_cong)
  then obtain k st' where k: "k \<le> find_fuel (tree r)"
      "leaves meth path [] ParamBlock st v st' (\<lambda>f. find_loop (k + f) meth path TopBlock st)"
    by (auto simp: exits_def find_fuel_def)
  then have "leaves meth path [] ParamBlock st v st'
      (\<lambda>f. find_loop (find_fuel (tree r) + f) meth path TopBlock st)"
    using fun_cong [where x = "find_fuel (tree r) - k + _"]
    by (auto simp: leaves_def fun_eq_iff split: verdict.splits)
      (metis add.assoc le_add_diff_inverse)+
  then show ?thesis by blast
qed

theorem router_Find_decides:
  fixes meth path :: string
  assumes "router_inv r" and "maxParam r \<le> length (c_pvalues c)"
  defines "v \<equiv> decide meth (find_candidates (tree r) path) None"
  shows "\<exists>pv. length pv = length (c_pvalues c) \<and>
    router_Find meth path r c = Some (Inr (find_result v (c\<lparr>c_path := path, c_pvalues := pv\<rparr>))) \<and>
    (\<forall>rm b vs. v = Found rm b vs \<longrightarrow> take (length vs) pv = vs)"
proof -
  define st where "st = find_start (tree r) path (c_pvalues c)"
  obtain st' where st': "leaves meth path [] ParamBlock st v st'
      (\<lambda>f. find_loop (find_fuel (tree r) + f) meth path TopBlock st)"
    using find_loop_leaves [OF assms(1,2)] unfolding st_def v_def by blast
  have run: "router_Find meth path r c =
      (case find_loop (find_fuel (tree r) + 0) meth path TopBlock st of
         None \<Rightarrow> None
       | Some (Goto _ _) \<Rightarrow> None
       | Some (Panicked p) \<Rightarrow> Some (Inl p)
       | Some (Return st) \<Rightarrow> Some (Inr (c\<lparr>c_path := path, c_pvalues := f_paramValues st\<rparr>))
       | Some (Break matched st) \<Rightarrow>
           Some (find_finish matched st (c\<lparr>c_path := path, c_pvalues := f_paramValues st\<rparr>)))"
    by (simp add: router_Find_def st_def find_start_def Let_def)
  have len: "length (f_paramValues st') = length (c_pvalues c)"
    using st' by (simp add: leaves_def st_def find_start_def)
  have "router_Find meth path r c =
      Some (Inr (find_result v (c\<lparr>c_path := path, c_pvalues := f_paramValues st'\<rparr>)))"
  proof (cases v)
    case (Found rm b vs)
    then have "find_loop (find_fuel (tree r) + 0) meth path TopBlock st = Some (Break (Some rm) st')"
        "f_stack st' \<noteq> []"
      using st' by (auto simp: leaves_def dest!: fun_cong [where x = 0])
    then show ?thesis by (simp add: run Found find_finish_def)
  next
    case (Stopped b)
    then have "find_loop (find_fuel (tree r) + 0) meth path TopBlock st = Some (Break None st')"
        "f_best st' = b" "b \<noteq> None"
      using st' decide_Stopped [of meth "find_candidates (tree r) path" None b]
      by (auto simp: leaves_def v_def dest!: fun_cong [where x = 0])
    then show ?thesis by (auto simp: run Stopped find_finish_def best_match_def split: option.split)
  next
    case (Failed b)
    then have "find_loop (find_fuel (tree r) + 0) meth path TopBlock st = Some (Break None st') \<or>
        b = None \<and> find_loop (find_fuel (tree r) + 0) meth path TopBlock st = Some (Return st')"
        "f_best st' = b" "f_stack st' = []"
      using st' by (auto simp: leaves_def dest!: fun_cong [where x = 0])
    then show ?thesis by (auto simp: run Failed find_finish_def best_match_def split: option.split)
  qed
  moreover have "take (length vs) (f_paramValues st') = vs" if "v = Found rm b vs" for rm b vs
    using st' that by (simp add: leaves_def)
  ultimately show ?thesis using len by blast
qed

end
