(* ===== verification/RouterMatch.thy ===== *)
theory RouterMatch
  imports RouterSearch
begin

text \<open>
  What routing a topic guarantees (\<^verbatim>\<open>HandlerRouter.Find\<close>): matches are sound, static routes are always
  found, and three situations in which a registered route is not reached.
\<close>

section \<open>Candidates are nodes whose pattern matches\<close>

text \<open>A pattern with its parameters replaced by values.\<close>

fun fill :: "string \<Rightarrow> string list \<Rightarrow> string" where
  "fill [] vs = []"
| "fill (c # p) vs =
     (if special c then (case vs of [] \<Rightarrow> c # fill p [] | v # vs \<Rightarrow> v @ fill p vs) else c # fill p vs)"

lemma fill_static: "\<forall>c\<in>set p. \<not> special c \<Longrightarrow> fill (p @ s) vs = p @ fill s vs"
  by (induction p) auto

lemma wf_special_child_at:
  assumes "wf_node B d n"
  shows "child_at paramLabel n = n_paramChild n" and "child_at anyLabel n = n_anyChild n"
proof -
  have "findStaticChild l n = None" if "special l" for l
    using wf_findStaticChild(4) [OF assms, of l] that by (cases "findStaticChild l n") auto
  then show "child_at paramLabel n = n_paramChild n" "child_at anyLabel n = n_anyChild n"
    by (auto simp: child_at_eq special_def label_defs)
qed

definition reaches :: "'h node \<Rightarrow> string \<Rightarrow> string list \<Rightarrow> 'h node \<Rightarrow> string list \<Rightarrow> bool" where
  "reaches n r vs x ws \<longleftrightarrow>
     (\<exists>s us. lookup_node n (n_prefix n @ s) = Some x \<and> ws = vs @ us \<and> length us = specials s \<and> fill s us = r)"

lemma reaches_child:
  assumes "reaches c r' (vs @ us') x ws" and "child_at l n = Some c" and "n_prefix n \<noteq> []"
    and "n_prefix c = l # pre" and "length us' = specials (n_prefix c)"
    and "\<And>s vs. fill (n_prefix c @ s) (us' @ vs) = q @ fill s vs" and "r = q @ r'"
  shows "reaches n r vs x ws"
proof -
  obtain s us2 where s: "lookup_node c (n_prefix c @ s) = Some x" "ws = (vs @ us') @ us2"
      "length us2 = specials s" "fill s us2 = r'"
    using assms(1) by (auto simp: reaches_def)
  have "lookup_node n (n_prefix n @ (n_prefix c @ s)) = Some x"
    using lookup_node_descend [OF assms(3), of "n_prefix c @ s"] assms(2,4) s(1) by simp
  moreover have "fill (n_prefix c @ s) (us' @ us2) = r" using assms(6,7) s(4) by simp
  ultimately show ?thesis
    unfolding reaches_def using s assms(5) by (intro exI [of _ "n_prefix c @ s"] exI [of _ "us' @ us2"]) simp
qed

lemma reaches_self: "n_prefix n \<noteq> [] \<Longrightarrow> reaches n [] vs n vs"
  unfolding reaches_def by (intro exI [of _ "[]"]) (simp add: lookup_node_prefix)

lemma candidates_cases [consumes 1]:
  assumes "(x, ws, a) \<in> set (candidates n r vs)"
  obtains (here) "r = []" "x = n" "ws = vs" "\<not> a"
    | (static) c where "r \<noteq> []" "findStaticChild (r ! 0) n = Some c" "prefix (n_prefix c) r"
        "(x, ws, a) \<in> set (candidates c (drop (length (n_prefix c)) r) vs)"
    | (param) c where "r \<noteq> []" "n_paramChild n = Some c"
        "(x, ws, a) \<in> set (candidates c (drop (param_len c r) r) (vs @ [take (param_len c r) r]))"
    | (any) c where "n_anyChild n = Some c" "x = c" "ws = vs @ [r]" "a"
  using assms
  unfolding candidates_eq [of n r vs] static_candidates_def param_candidates_def any_candidates_def
  by (cases "findStaticChild (r ! 0) n"; cases "n_paramChild n"; cases "n_anyChild n")
    (auto split: if_splits)

lemma candidates_sound:
  "wf_node B d n \<Longrightarrow> (x, ws, a) \<in> set (candidates n r vs) \<Longrightarrow> reaches n r vs x ws"
proof (induction n r vs arbitrary: d rule: candidates.induct)
  case (1 n r vs)
  have ne: "n_prefix n \<noteq> []" by (rule wf_prefix_not_empty [OF "1.prems"(1)])
  note sp = wf_special_child_at [OF "1.prems"(1)]
  from "1.prems"(2) show ?case
  proof (cases rule: candidates_cases)
    case here
    then show ?thesis using reaches_self [OF ne] by simp
  next
    case (static c)
    note c = wf_findStaticChild [OF "1.prems"(1) static(2)]
    have pl: "\<forall>x\<in>set (n_prefix c). \<not> special x" using wf_nodeD(1) [OF c(2)] c(1) by (simp add: node_shape_def)
    obtain pre where pre: "n_prefix c = r ! 0 # pre"
      using wf_label [OF c(2)] wf_prefix_not_empty [OF c(2)] c(3) by (cases "n_prefix c") auto
    obtain q where q: "r = n_prefix c @ q" using static(3) by (auto simp: prefix_def)
    have "reaches c q (vs @ []) x ws"
      using "1.IH"(1) [OF static(1,2,3) c(2)] static(4) q by simp
    then show ?thesis
      by (rule reaches_child [OF _ _ ne pre])
        (use static(2) pl q in \<open>simp_all add: child_at_eq specials_0 fill_static\<close>)
  next
    case (param c)
    note c = wf_nodeD(3) [OF "1.prems"(1) param(2)]
    have pre: "n_prefix c = [paramLabel]" using wf_nodeD(1) [of B "level_below d n" c] c by (simp add: node_shape_def)
    have "reaches c (drop (param_len c r) r) (vs @ [take (param_len c r) r]) x ws"
      using "1.IH"(2) [OF param(1,2)] param(3) c by blast
    then show ?thesis
      by (rule reaches_child [where q = "take (param_len c r) r", OF _ _ ne pre])
        (use param(2) sp pre in \<open>simp_all add: special_def\<close>)
  next
    case (any c)
    note c = wf_nodeD(4) [OF "1.prems"(1) any(1)]
    have pre: "n_prefix c = [anyLabel]" using wf_nodeD(1) [of B "level_below d n" c] c by (simp add: node_shape_def)
    have "reaches c [] (vs @ [r]) x ws" using reaches_self [of c] any pre by simp
    then show ?thesis
      by (rule reaches_child [OF _ _ ne pre]) (use any(1) sp pre in \<open>simp_all add: special_def\<close>)
  qed
qed

section \<open>Which candidate decides\<close>

lemma decide_FoundD:
  assumes "decide meth cs best = Found rm b vs"
  shows "\<exists>x a. (x, vs, a) \<in> set cs \<and> (findMethod meth x = Some rm \<or> n_notFoundHandler x = Some rm)"
  using assms
proof (induction meth cs best rule: decide.induct)
  case (2 meth x vs' cs best)
  then show ?case
    by (cases "n_isHandler x"; cases "findMethod meth x"; cases "n_notFoundHandler x") auto
next
  case (3 meth x vs' cs best)
  then show ?case
    by (cases "findMethod meth x"; cases "n_notFoundHandler x") auto
qed simp

lemma decide_best:
  assumes "decide meth cs best = Stopped (Some n) \<or> decide meth cs best = Failed (Some n)"
  shows "best = Some n \<or> (\<exists>vs a. (n, vs, a) \<in> set cs)"
  using assms
proof (induction meth cs best rule: decide.induct)
  case (2 meth x vs cs best)
  then show ?case
    by (cases "n_isHandler x"; cases "findMethod meth x"; cases "n_notFoundHandler x"; cases best)
      (auto simp: better_def)
next
  case (3 meth x vs cs best)
  then show ?case
    by (cases "findMethod meth x"; cases "n_notFoundHandler x"; cases best) (auto simp: better_def)
qed simp

lemma find_candidates_sound:
  assumes "router_inv r" and "tree r \<noteq> zeroNode" and "(x, ws, a) \<in> set (find_candidates (tree r) path)"
  obtains s where "lookup_node (tree r) s = Some x" "length ws = specials s" "fill s ws = path"
proof -
  have wf: "wf_node (maxParam r) 0 (tree r)" and st: "n_kind (tree r) = staticKind"
    using assms(1,2) by (auto simp: router_inv_def tree_ok_def)
  have pl: "\<forall>x\<in>set (n_prefix (tree r)). \<not> special x" using wf_nodeD(1) [OF wf] st by (simp add: node_shape_def)
  obtain q where q: "path = n_prefix (tree r) @ q" "(x, ws, a) \<in> set (candidates (tree r) q [])"
    using assms(3) by (auto simp: find_candidates_def prefix_def split: if_splits)
  from candidates_sound [OF wf q(2)] obtain s where
      "lookup_node (tree r) (n_prefix (tree r) @ s) = Some x" "length ws = specials s" "fill s ws = q"
    by (auto simp: reaches_def)
  then show thesis
    using that [of "n_prefix (tree r) @ s"] pl q(1) by (simp add: fill_static specials_0)
qed


lemma methods_get_isHandler: "methods_get m r = Some rm \<Longrightarrow> methods_isHandler r"
  by (auto simp: methods_get_def methods_isHandler_def split: if_splits)

lemma lookup_node_wf:
  assumes "wf_node B d n" and "lookup_node n s = Some x"
  shows "\<exists>d'. wf_node B d' x"
  using assms
proof (induction "length s" arbitrary: n s d rule: less_induct)
  case less
  obtain q where s: "s = n_prefix n @ q" "n_prefix n \<noteq> []"
    using lookup_node_SomeD [OF less.prems(2)] by blast
  show ?case
  proof (cases "q = []")
    case True
    then show ?thesis using less.prems s lookup_node_prefix [of n] by auto
  next
    case False
    then obtain c where c: "child_at (q ! 0) n = Some c" "lookup_node c q = Some x"
      using less.prems(2) lookup_node_descend [of n q] s by (auto split: option.splits)
    then show ?thesis
      using less.hyps [of q "level_below d n" c] s wf_child_at(1) [OF less.prems(1) c(1)] by simp
  qed
qed

text \<open>A static pattern that is spelled out by the topic comes first.\<close>

lemma candidates_static:
  assumes "wf_node B d n" and "lookup_node n (n_prefix n @ r) = Some x" and "\<forall>c\<in>set r. \<not> special c"
  shows "\<exists>cs. candidates n r vs = (x, vs, False) # cs"
  using assms
proof (induction "length r" arbitrary: n r d rule: less_induct)
  case less
  have ne: "n_prefix n \<noteq> []" by (rule wf_prefix_not_empty [OF less.prems(1)])
  show ?case
  proof (cases "r = []")
    case True
    then show ?thesis using less.prems(2) lookup_node_prefix [OF ne] by (simp add: candidates_eq)
  next
    case False
    then obtain c where c: "child_at (r ! 0) n = Some c" "lookup_node c r = Some x"
      using less.prems(2) lookup_node_descend [OF ne False] by (auto split: option.splits)
    have fs: "findStaticChild (r ! 0) n = Some c"
      using c(1) less.prems(3) False
      by (auto simp: child_at_eq special_def split: option.splits if_splits)
    note wfc = wf_findStaticChild [OF less.prems(1) fs]
    obtain q where q: "r = n_prefix c @ q" "n_prefix c \<noteq> []" using lookup_node_SomeD [OF c(2)] by blast
    then have "\<exists>cs. candidates c q vs = (x, vs, False) # cs"
      using less.hyps [of q "level_below d n" c] wfc(2) c(2) less.prems(3) by simp
    then show ?thesis
      using False fs q by (auto simp: candidates_eq [of n] static_candidates_def)
  qed
qed

lemma router_Find_static:
  assumes "router_inv r" and "maxParam r \<le> length (c_pvalues c)" and "meth \<noteq> RouteNotFound"
    and "router_look r meth path = Some rm" and "\<forall>c\<in>set path. \<not> special c"
  shows "\<exists>pv. router_Find meth path r c = Some (Inr (c\<lparr>c_pvalues := pv, c_path := ppath rm, c_pnames := pnames rm,
      c_handler := map_option UserHandler (handler rm)\<rparr>))"
proof -
  have nz: "tree r \<noteq> zeroNode" using assms(4) by (auto simp: router_look_def)
  then have wf: "wf_node (maxParam r) 0 (tree r)"
    using assms(1) by (auto simp: router_inv_def tree_ok_def)
  obtain x where x: "lookup_node (tree r) path = Some x" "findMethod meth x = Some rm"
    using assms(3,4) by (auto simp: router_look_def route_def node_route_def split: option.splits if_splits)
  obtain q where q: "path = n_prefix (tree r) @ q" using lookup_node_SomeD [OF x(1)] by blast
  obtain cs where "find_candidates (tree r) path = (x, [], False) # cs"
    using candidates_static [OF wf, of q x "[]"] x(1) q assms(5) by (auto simp: find_candidates_def)
  moreover obtain d' where "wf_node (maxParam r) d' x" using lookup_node_wf [OF wf x(1)] by blast
  then have "n_isHandler x"
    using x(2) wf_nodeD(1) [of "maxParam r" d' x] by (auto simp: node_shape_def findMethod_def methods_get_isHandler)
  ultimately have "decide meth (find_candidates (tree r) path) None = Found rm (Some x) []"
    using x(2) by (simp add: better_def)
  then show ?thesis
    using router_Find_decides [OF assms(1,2), of meth path] by auto
qed

lemma best_match_user:
  assumes "c_handler (best_match n c) = Some (UserHandler h)"
  obtains rm where "n_notFoundHandler n = Some rm" "handler rm = Some h"
    "c_path (best_match n c) = ppath rm" "c_pnames (best_match n c) = pnames rm"
  using assms by (cases "n_notFoundHandler n") (auto simp: best_match_def split: if_splits)

lemma find_result_user:
  assumes "c_handler (find_result v c) = Some (UserHandler h)" and "\<forall>h. c_handler c \<noteq> Some (UserHandler h)"
  shows "(\<exists>rm b vs. v = Found rm b vs) \<or>
    (\<exists>n. (v = Stopped (Some n) \<or> v = Failed (Some n)) \<and> find_result v c = best_match n c)"
  using assms by (cases v) (auto split: option.splits)

lemma router_Find_user:
  assumes "router_inv r" and "maxParam r \<le> length (c_pvalues c)" and "meth \<noteq> RouteNotFound"
    and "\<forall>h. c_handler c \<noteq> Some (UserHandler h)" and "router_Find meth path r c = Some (Inr c')"
    and "c_handler c' = Some (UserHandler h)"
  shows "\<exists>m s rm vs. (m = meth \<or> m = RouteNotFound) \<and> router_look r m s = Some rm \<and> handler rm = Some h \<and>
    c_path c' = ppath rm \<and> c_pnames c' = pnames rm \<and> length vs = specials s \<and> fill s vs = path \<and>
    (m = meth \<longrightarrow> take (specials s) (c_pvalues c') = vs)"
proof -
  define v where "v = decide meth (find_candidates (tree r) path) None"
  obtain pv where pv: "c' = find_result v (c\<lparr>c_path := path, c_pvalues := pv\<rparr>)"
      "\<forall>rm b vs. v = Found rm b vs \<longrightarrow> take (length vs) pv = vs"
    using router_Find_decides [OF assms(1,2), of meth path] assms(5) unfolding v_def by auto
  have nz: "tree r \<noteq> zeroNode"
    using pv(1) assms(4,6) by (auto simp: v_def decide_zero)
  have user: "router_look r meth s = Some rm \<or> router_look r RouteNotFound s = Some rm"
    if "lookup_node (tree r) s = Some x" "findMethod meth x = Some rm \<or> n_notFoundHandler x = Some rm"
      "handler rm = Some h" for x s rm
    using that(2)
  proof
    assume "findMethod meth x = Some rm"
    then show ?thesis using that(1,3) assms(3) by (simp add: router_look_def route_def node_route_def)
  next
    assume "n_notFoundHandler x = Some rm"
    then show ?thesis using that(1,3) by (simp add: router_look_def route_def node_route_def)
  qed
  consider (found) rm b vs where "v = Found rm b vs"
    | (best) n where "v = Stopped (Some n) \<or> v = Failed (Some n)"
        "c' = best_match n (c\<lparr>c_path := path, c_pvalues := pv\<rparr>)"
    using find_result_user [of v "c\<lparr>c_path := path, c_pvalues := pv\<rparr>" h] pv(1) assms(4,6) by fastforce
  then show ?thesis
  proof cases
    case found
    then obtain x a where x: "(x, vs, a) \<in> set (find_candidates (tree r) path)"
        "findMethod meth x = Some rm \<or> n_notFoundHandler x = Some rm"
      using decide_FoundD [OF found [unfolded v_def]] by blast
    obtain s where s: "lookup_node (tree r) s = Some x" "length vs = specials s" "fill s vs = path"
      by (rule find_candidates_sound [OF assms(1) nz x(1)])
    have h: "handler rm = Some h" and c': "c_path c' = ppath rm" "c_pnames c' = pnames rm" "c_pvalues c' = pv"
      using found pv(1) assms(6) by simp_all
    have "take (specials s) (c_pvalues c') = vs" using pv(2) found s(2) c'(3) by simp
    then show ?thesis
      using user [OF s(1) x(2) h] h c'(1,2) s(2,3) by blast
  next
    case best
    then obtain vs a where x: "(n, vs, a) \<in> set (find_candidates (tree r) path)"
      using decide_best [OF best(1) [unfolded v_def]] by blast
    obtain s where s: "lookup_node (tree r) s = Some n" "length vs = specials s" "fill s vs = path"
      by (rule find_candidates_sound [OF assms(1) nz x])
    obtain rm where rm: "n_notFoundHandler n = Some rm" and h: "handler rm = Some h"
      and c': "c_path c' = ppath rm" "c_pnames c' = pnames rm"
      using best_match_user [of n "c\<lparr>c_path := path, c_pvalues := pv\<rparr>" h] best(2) assms(6) by auto
    then have "router_look r RouteNotFound s = Some rm"
      using s(1) by (simp add: router_look_def route_def node_route_def)
    then show ?thesis using h c' s(2,3) assms(3) by blast
  qed
qed


section \<open>Properties\<close>

text \<open>The router context that \<^verbatim>\<open>Broker.NewBrokerContext\<close> makes.\<close>

definition fresh_context :: "'h HandlerRouter \<Rightarrow> 'h RouterContext" where
  "fresh_context r =
     \<lparr>c_path = [], c_pnames = replicate (maxParam r) [], c_pvalues = replicate (maxParam r) [],
      c_handler = Some NotFoundHandler\<rparr>"

lemma fresh_context_simps [simp]:
  "maxParam r \<le> length (c_pvalues (fresh_context r))"
  "c_handler (fresh_context r) = Some NotFoundHandler"
  by (simp_all add: fresh_context_def)

text \<open>A small router to evaluate the properties on.\<close>

definition demo_routes :: "(string \<times> string \<times> nat) list" where
  "demo_routes = [(MethodPub, ''/users/new'', 1), (MethodPub, ''/users/:id'', 2), (MethodSub, ''/*'', 3)]"

definition demo_router :: "nat HandlerRouter" where
  "demo_router = the (add_all router_add demo_routes NewHandlerRouter)"

lemma demo_router_inv: "router_inv demo_router"
proof -
  have "\<forall>(m, p, h)\<in>set demo_routes. plain_path p" by (simp add: demo_routes_def plain_path_def)
  from rt.add_all_total [OF router_inv_New this] show ?thesis by (auto simp: demo_router_def)
qed

lemma demo_Find:
  "router_Find MethodPub ''/users/42'' demo_router (fresh_context demo_router) =
     Some (Inr \<lparr>c_path = ''/users/:id'', c_pnames = [''id''], c_pvalues = [''42''], c_handler = Some (UserHandler 2)\<rparr>)"
  by code_simp

text \<open>
  (C6) Routing a topic always ends, without a panic, on any well-formed tree, when the context has room for as many
  parameter values as the router's largest route has: the loop with its three blocks, its gotos and its backtracking over
  parent pointers gives exactly the verdict of the reference search. This one lists the nodes whose pattern matches the
  topic in the order static, parameter, wildcard and takes the first that decides: a node with a route for the
  method, or a wildcard node that lacks the method, which ends the search with a refusal although a later candidate
  might have the method. The parameter values of a match are in place.
\<close>

theorem router_Find_first_match:
  assumes "router_inv r" and "maxParam r \<le> length (c_pvalues c)"
  shows "\<exists>pv. length pv = length (c_pvalues c) \<and>
    router_Find meth path r c =
      Some (Inr (find_result (decide meth (find_candidates (tree r) path) None)
        (c\<lparr>c_path := path, c_pvalues := pv\<rparr>))) \<and>
    (\<forall>rm b vs. decide meth (find_candidates (tree r) path) None = Found rm b vs \<longrightarrow> take (length vs) pv = vs)"
  by (rule router_Find_decides [OF assms])

theorem router_Find_first_match_witness:
  "\<exists>pv. length pv = 1 \<and> take 1 pv = [''42''] \<and>
    router_Find MethodPub ''/users/42'' demo_router (fresh_context demo_router) =
      Some (Inr \<lparr>c_path = ''/users/:id'', c_pnames = [''id''], c_pvalues = pv, c_handler = Some (UserHandler 2)\<rparr>)"
proof -
  let ?v = "decide MethodPub (find_candidates (tree demo_router) ''/users/42'') None"
  have v: "(case ?v of Found rm b vs \<Rightarrow> rm = \<lparr>ppath = ''/users/:id'', pnames = [''id''], handler = Some 2\<rparr> \<and> vs = [''42'']
      | _ \<Rightarrow> False)" by code_simp
  moreover have "maxParam demo_router = 1" by code_simp
  ultimately show ?thesis
    using router_Find_first_match [OF demo_router_inv fresh_context_simps(1), of MethodPub "''/users/42''"]
    by (auto simp: fresh_context_def split: verdict.splits)
qed

text \<open>
  (C9) A handler is only ever chosen for a topic that its registered pattern matches: on a well-formed router, a user's
  handler that \<^verbatim>\<open>Find\<close> returns is in the table at a pattern that some values fill to give the topic, under the requested
  method or else under the not-found method, and path and parameter names of the context are those of the registration.
  For a handler of the requested method the values are those the context holds; for a not-found handler, whose values
  backtracking may have erased, nothing is said of them.
\<close>

theorem router_Find_sound:
  assumes "router_inv r" and "meth \<noteq> RouteNotFound"
    and "router_Find meth path r (fresh_context r) = Some (Inr c')"
    and "c_handler c' = Some (UserHandler h)"
  shows "\<exists>m s rm vs. (m = meth \<or> m = RouteNotFound) \<and> router_look r m s = Some rm \<and> handler rm = Some h \<and>
    c_path c' = ppath rm \<and> c_pnames c' = pnames rm \<and> length vs = specials s \<and> fill s vs = path \<and>
    (m = meth \<longrightarrow> take (specials s) (c_pvalues c') = vs)"
  by (rule router_Find_user [OF assms(1) _ assms(2) _ assms(3,4)]) simp_all

theorem router_Find_sound_witness:
  "\<exists>m s rm vs. (m = MethodPub \<or> m = RouteNotFound) \<and> router_look demo_router m s = Some rm \<and> handler rm = Some 2 \<and>
    ''/users/:id'' = ppath rm \<and> [''id''] = pnames rm \<and>
    length vs = specials s \<and> fill s vs = ''/users/42'' \<and> (m = MethodPub \<longrightarrow> take (specials s) [''42''] = vs)"
  using router_Find_sound [OF demo_router_inv _ demo_Find, of 2] by (simp add: method_defs)

lemma pattern_static: "\<forall>c\<in>set s. \<not> special c \<Longrightarrow> pattern s = s \<and> param_names s = []"
  by (induction s) (auto simp: special_def)

lemma pattern_param_not:
  assumes "\<forall>c\<in>set p. \<not> special c" shows "pattern (p @ paramLabel # q) \<noteq> p"
proof -
  have "\<exists>c\<in>set (pattern (p @ paramLabel # q)). special c"
    using assms by (induction p) (auto simp: special_def)
  then show ?thesis using assms by metis
qed

text \<open>
  (C28) A topic registered without parameters, wildcards or escapes is always routed to its handler, under the name
  with a leading slash, which \<^verbatim>\<open>Add\<close> puts before a name without one while \<^verbatim>\<open>Find\<close> does not. This holds whatever parameter
  and wildcard routes are registered before or after it, as long as none of them has escapes: static routes have
  priority, and only a later registration that covers the same topic and method replaces the handler.
\<close>

theorem router_static_topic_found:
  assumes "\<forall>(m, p, h)\<in>set (rs @ (meth, path, h) # rs'). plain_path p" and "meth \<noteq> RouteNotFound"
    and "\<forall>c\<in>set path. \<not> special c" and "\<forall>(m, p, h)\<in>set rs'. \<not> (m = meth \<and> covers p (clean_path path))"
  shows "\<exists>r c'. add_all router_add (rs @ (meth, path, h) # rs') NewHandlerRouter = Some r \<and>
    router_Find meth (clean_path path) r (fresh_context r) = Some (Inr c') \<and>
    c_handler c' = Some (UserHandler h) \<and> c_path c' = clean_path path \<and> c_pnames c' = []"
proof -
  let ?rs = "rs @ (meth, path, h) # rs'"
  obtain r where r: "add_all router_add ?rs NewHandlerRouter = Some r" "router_inv r"
    using rt.add_all_total [OF router_inv_New assms(1)] by blast
  have sp: "\<forall>c\<in>set (clean_path path). \<not> special c"
    using assms(3) by (auto simp: clean_path_def special_def label_defs split: if_splits)
  have st: "pattern (clean_path path) = clean_path path" "param_names (clean_path path) = []"
    using pattern_static [OF sp] by simp_all
  have "List.find (\<lambda>(m', p, h). m' = meth \<and> covers p (clean_path path)) (rev rs') = None"
    using assms(4) by (auto simp: find_None_iff)
  moreover have "covers path (clean_path path)" by (simp add: covers_def registers_def st)
  ultimately have "router_look r meth (clean_path path) = Some (entry path h (clean_path path))"
    using rt.look_add_all [OF router_inv_New assms(1) r(1), of meth "clean_path path"] by (simp add: find_append)
  from router_Find_static [OF r(2) _ assms(2) this sp, of "fresh_context r"] r(1) show ?thesis
    by (auto simp: entry_def st)
qed


theorem router_static_topic_found_witness:
  "\<exists>r c'. add_all router_add
      ([(MethodPub, ''/users/:id'', 2)] @ (MethodPub, ''users/new'', 1) # [(MethodPub, ''/*'', 3::nat)]) NewHandlerRouter =
      Some r \<and>
    router_Find MethodPub ''/users/new'' r (fresh_context r) = Some (Inr c') \<and>
    c_handler c' = Some (UserHandler 1) \<and> c_path c' = ''/users/new'' \<and> c_pnames c' = []"
proof -
  have c: "clean_path ''users/new'' = ''/users/new''" by (simp add: clean_path_def)
  show ?thesis
    using router_static_topic_found [of "[(MethodPub, ''/users/:id'', 2)]" MethodPub "''users/new''" 1
        "[(MethodPub, ''/*'', 3::nat)]", unfolded c]
    by (simp add: plain_path_def method_defs special_def label_defs covers_def registers_def clean_path_def)
qed

section \<open>What the routes do not promise\<close>

text \<open>Static characters are skipped, and the first route of an empty router is its root.\<close>

lemma add_loop_static:
  "\<forall>c\<in>set s. \<not> special c \<Longrightarrow>
     add_loop meth pp h (pre @ s @ t) (length pre) pn r = add_loop meth pp h ((pre @ s) @ t) (length (pre @ s)) pn r"
proof (induction s arbitrary: pre)
  case (Cons c s)
  then show ?case using add_loop_plain [of c meth pp h pre "s @ t" pn r] Cons.IH [of "pre @ [c]"] by simp
qed simp

lemma clean_path_slash: "p = CHR ''/'' # q \<Longrightarrow> clean_path p = p"
  by (simp add: clean_path_def)

lemma router_Add_first:
  assumes "path = CHR ''/'' # q" and "\<forall>c\<in>set path. \<not> special c"
  shows "\<exists>n. router_Add meth path (Some h) NewHandlerRouter = Some \<lparr>tree = n, routes = [], maxParam = 0\<rparr> \<and>
    n_prefix n = path \<and> n_staticChildren n = [] \<and> n_paramChild n = None \<and> n_anyChild n = None"
proof -
  have "add_loop meth path (Some h) path 0 [] NewHandlerRouter = Some (path, [], NewHandlerRouter :: 'a HandlerRouter)"
    using add_loop_static [OF assms(2), of meth path "Some h" "[]" "[]" "[]" NewHandlerRouter] by (simp add: add_loop_end)
  moreover have "insert_loop meth path staticKind rm zeroNode = insert_root meth path staticKind rm zeroNode" for rm :: "'a routeMethod"
    by (subst insert_loop.simps) (simp add: zeroNode_def)
  ultimately show ?thesis
    using assms(1)
    by (simp add: router_Add_def clean_path_slash router_insert_def NewHandlerRouter_def insert_root_def zeroNode_def
        add_route_def update_isLeaf_def Let_def)
qed

text \<open>
  Inserting the empty route at a proper prefix of a root that is a single edge splits the root, and the upper part
  keeps the empty route while a parameter is added below it.
\<close>

lemma insert_split_root:
  assumes "n_prefix n = p @ c # q" and "p \<noteq> []" and "meth \<in> {MethodPub, MethodSub, MethodUnsub}"
  shows "\<exists>n'. insert_loop meth p staticKind zeroMethod n = Some n' \<and> n_prefix n' = p \<and>
    findMethod meth n' = Some zeroMethod \<and> n_isHandler n' \<and> map n_label (n_staticChildren n') = [c] \<and> n_paramChild n' = None"
proof -
  have "lcpLen p (p @ c # q) = length p" by (induction p) simp_all
  then have "insert_loop meth p staticKind zeroMethod n = insert_split meth p staticKind zeroMethod (length p) n"
    using assms(1,2) by (subst insert_loop.simps) (simp add: Let_def)
  then show ?thesis
    using assms
    by (auto simp: insert_split_def newNode_def addStaticChild_def add_route_def update_isLeaf_def zeroMethod_def
        findMethod_def method_defs methods_get_def methods_set_def methods_isHandler_def)
qed

lemma insert_param_child:
  assumes "n_prefix n = p" and "p \<noteq> []" and "map n_label (n_staticChildren n) = [c]" and "c \<noteq> paramLabel" and "n_paramChild n = None"
  shows "\<exists>n' x. insert_loop meth (p @ [paramLabel]) paramKind rm n = Some n' \<and> n_prefix n' = p \<and> n_methods n' = n_methods n \<and>
    n_isHandler n' = n_isHandler n \<and> map n_label (n_staticChildren n') = [c] \<and> n_paramChild n' = Some x \<and> n_prefix x = [paramLabel]"
proof -
  have "find_index (\<lambda>c. n_label c = paramLabel) (n_staticChildren n) = None" using assms(3,4) by (auto simp: map_eq_Cons_conv)
  then have "findChildWithLabel paramLabel n = None" using assms(5) by (simp add: findChildWithLabel_def)
  then have "insert_loop meth (p @ [paramLabel]) paramKind rm n = insert_child meth [paramLabel] paramKind rm n"
    using assms(1,2) by (subst insert_loop.simps) simp
  then show ?thesis
    using assms(1,3)
    by (cases n) (auto simp: insert_child_def newNode_def update_isLeaf_def Let_def split: node.splits)
qed

lemma insert_param_again:
  assumes "n_prefix n = p" and "p \<noteq> []" and "map n_label (n_staticChildren n) = [c]" and "c \<noteq> paramLabel"
    and "n_paramChild n = Some x" and "n_prefix x = [paramLabel]"
  shows "\<exists>n'. insert_loop meth (p @ [paramLabel]) staticKind rm n = Some n' \<and> n_prefix n' = p \<and> n_methods n' = n_methods n \<and>
    n_isHandler n' = n_isHandler n"
proof -
  have "find_index (\<lambda>c. n_label c = paramLabel) (n_staticChildren n) = None" using assms(3,4) by (auto simp: map_eq_Cons_conv)
  then have "findChildWithLabel paramLabel n = Some ParamRef" using assms(5) by (simp add: findChildWithLabel_def)
  then have "insert_loop meth (p @ [paramLabel]) staticKind rm n =
      map_option (\<lambda>c. put_child ParamRef c n) (insert_loop meth [paramLabel] staticKind rm x)"
    using assms(1,2,5) by (subst insert_loop.simps) simp
  moreover have "insert_loop meth [paramLabel] staticKind rm x = insert_here meth rm x"
    using assms(6) by (subst insert_loop.simps) simp
  ultimately show ?thesis using assms(1) by (cases n) (simp add: insert_here_def)
qed

text \<open>
  (C30) Registering a parameter route that splits a static route leaves a match without a handler: when \<open>p\<close> with a
  static rest and then \<open>p:name\<close> are registered, under any of the three methods, then publishing on the topic \<open>p\<close>, which
  neither route covers, is matched with a nil handler, so that calling it panics. With \<open>/users/new\<close> and \<open>/users/:id\<close>, the
  topic is \<open>/users/\<close>.
\<close>

theorem router_split_registers_nil_handler:
  assumes "p = CHR ''/'' # p'" and "q \<noteq> []" and "\<forall>c\<in>set (p @ q). \<not> special c" and "plain_path (p @ q)"
    and "CHR ''/'' \<notin> set name" and "plain_path name" and "meth \<in> {MethodPub, MethodSub, MethodUnsub}"
  shows "\<exists>r c'. add_all router_add [(meth', p @ q, h), (meth, p @ paramLabel # name, h')] NewHandlerRouter = Some r \<and>
    \<not> covers (p @ q) p \<and> \<not> covers (p @ paramLabel # name) p \<and>
    router_Find meth p r (fresh_context r) = Some (Inr c') \<and> c_handler c' = None"
proof -
  let ?path = "p @ paramLabel # name"
  let ?rm = "\<lparr>ppath = ?path, pnames = [name], handler = Some h'\<rparr>"
  obtain c qs where q: "q = c # qs" using assms(2) by (cases q) auto
  have sp: "\<forall>x\<in>set p. \<not> special x" "c \<noteq> paramLabel" "p \<noteq> []" using assms(1,3) q by (auto simp: special_def)
  have plain: "CHR 0x5C \<notin> set p" "\<forall>(m, p, h)\<in>set [(meth', p @ q, h), (meth, ?path, h')]. plain_path p"
    using assms(4,6) by (auto simp: plain_path_def label_defs)
  obtain n where n: "router_Add meth' (p @ q) (Some h) NewHandlerRouter = Some \<lparr>tree = n, routes = [], maxParam = 0\<rparr>"
      "n_prefix n = p @ c # qs"
    using router_Add_first [of "p @ q" "p' @ q" meth' h] assms(1,3) q by auto
  obtain n1 where n1: "insert_loop meth p staticKind zeroMethod n = Some n1" "n_prefix n1 = p"
      "findMethod meth n1 = Some zeroMethod" "n_isHandler n1" "map n_label (n_staticChildren n1) = [c]" "n_paramChild n1 = None"
    using insert_split_root [OF n(2) sp(3) assms(7)] by (elim exE conjE) (rule that)
  obtain n2 x where n2: "insert_loop meth (p @ [paramLabel]) paramKind ?rm n1 = Some n2" "n_prefix n2 = p"
      "n_methods n2 = n_methods n1" "n_isHandler n2 = n_isHandler n1" "map n_label (n_staticChildren n2) = [c]"
      "n_paramChild n2 = Some x" "n_prefix x = [paramLabel]"
    using insert_param_child [OF n1(2) sp(3) n1(5) sp(2) n1(6), where meth = meth and rm = ?rm] by (elim exE conjE) (rule that)
  obtain n3 where n3: "insert_loop meth (p @ [paramLabel]) staticKind ?rm n2 = Some n3" "n_prefix n3 = p"
      "n_methods n3 = n_methods n2" "n_isHandler n3 = n_isHandler n2"
    using insert_param_again [OF n2(2) sp(3) n2(5) sp(2) n2(6,7), where meth = meth and rm = ?rm] by (elim exE conjE) (rule that)
  have name: "takeWhile (\<lambda>c. c \<noteq> CHR ''/'') name = name" "dropWhile (\<lambda>c. c \<noteq> CHR ''/'') name = []"
    using assms(5) by (auto simp: takeWhile_eq_all_conv dropWhile_eq_Nil_conv)
  let ?r = "\<lambda>n k. \<lparr>tree = n, routes = [], maxParam = k\<rparr>"
  have "add_loop meth ?path (Some h') (p @ paramLabel # name) (length p) [] (?r n 0) =
      add_loop meth ?path (Some h') (p @ paramLabel # []) (length p + 2) ([] @ [name]) (?r n2 1)"
    by (rule add_loop_param [OF plain(1), of _ _ "?r n1 0"]) (use n1(1) n2(1) name in \<open>simp_all only:,
      simp_all add: router_insert_def zeroMethod_def\<close>)
  moreover have "add_loop meth ?path (Some h') ?path 0 [] (?r n 0) = add_loop meth ?path (Some h') ?path (length p) [] (?r n 0)"
    using add_loop_static [OF sp(1), of meth ?path "Some h'" "[]" "paramLabel # name" "[]" "?r n 0"] by simp
  ultimately have "router_Add meth ?path (Some h') (?r n 0) = Some (?r n3 1)"
    using n3(1) clean_path_slash [of ?path "p' @ paramLabel # name"] assms(1) by (simp add: router_Add_def add_loop_end router_insert_def)
  with n(1) have add: "add_all router_add [(meth', p @ q, h), (meth, ?path, h')] NewHandlerRouter = Some (?r n3 1)"
    by (simp add: router_add_def)
  then have inv: "router_inv (?r n3 1)" using rt.add_all_total [OF router_inv_New plain(2)] by auto
  have "findMethod meth n3 = Some zeroMethod" "n_isHandler n3" using n1(3,4) n2(3,4) n3(3,4) by (simp_all add: findMethod_def)
  then have "decide meth (find_candidates n3 p) None = Found zeroMethod (Some n3) []"
    using n3(2) by (simp add: find_candidates_def candidates_eq better_def)
  then have "\<exists>c'. router_Find meth p (?r n3 1) (fresh_context (?r n3 1)) = Some (Inr c') \<and> c_handler c' = None"
    using router_Find_decides [OF inv fresh_context_simps(1), of meth p] by (auto simp: zeroMethod_def)
  moreover have "\<not> covers (p @ q) p" "\<not> covers ?path p"
    using assms(1,2) sp(1) clean_path_slash [of "p @ q" "p' @ q"] clean_path_slash [of ?path "p' @ paramLabel # name"]
      pattern_static [OF assms(3)] pattern_param_not [OF sp(1), of name] last_in_set [OF sp(3)]
    by (auto simp: covers_def registers_def special_def)
  ultimately show ?thesis using add by blast
qed

theorem router_split_registers_nil_handler_witness:
  "\<exists>r c'. add_all router_add [(MethodPub, ''/users/new'', 1), (MethodPub, ''/users/:id'', 2 :: nat)] NewHandlerRouter = Some r \<and>
     router_Find MethodPub ''/users/'' r (fresh_context r) = Some (Inr c') \<and> c_handler c' = None"
proof -
  have "plain_path (''/users/'' @ ''new'')" "plain_path ''id''"
    "\<forall>c\<in>set (''/users/'' @ ''new''). \<not> special c" "CHR ''/'' \<notin> set ''id''"
    by (simp_all add: special_def label_defs plain_path_def)
  from router_split_registers_nil_handler [of "''/users/''" "''users/''" "''new''" "''id''" MethodPub MethodPub 1 "2 :: nat",
      OF refl _ this(3,1,4,2)]
  show ?thesis by (simp del: add_all.simps One_nat_def add: label_defs) blast
qed

definition wildcard_router :: "nat HandlerRouter" where
  "wildcard_router = the (add_all router_add [(MethodPub, ''/a/*'', 1), (MethodSub, ''/*'', 2)] NewHandlerRouter)"

text \<open>
  The search gives up at the first wildcard node that lacks the method: with \<^verbatim>\<open>PUB /a/*\<close> and
  \<^verbatim>\<open>SUB /*\<close> registered, subscribing to \<open>/a/b\<close> is refused although \<^verbatim>\<open>SUB /*\<close> matches it.
\<close>

theorem router_wildcard_hides_outer_route:
  "(\<exists>rm. router_look wildcard_router MethodSub ''/*'' = Some rm \<and> handler rm = Some 2) \<and>
   fill ''/*'' [''a/b''] = ''/a/b'' \<and>
   (case router_Find MethodSub ''/a/b'' wildcard_router (fresh_context wildcard_router) of
      Some (Inr c) \<Rightarrow> c_handler c = Some MethodNotAllowedHandler | _ \<Rightarrow> False)"
proof (intro conjI)
  have "router_look wildcard_router MethodSub ''/*'' = Some \<lparr>ppath = ''/*'', pnames = [''*''], handler = Some 2\<rparr>"
    by code_simp
  then show "\<exists>rm. router_look wildcard_router MethodSub ''/*'' = Some rm \<and> handler rm = Some 2" by simp
qed (code_simp, code_simp)

definition escaped_router :: "nat HandlerRouter" where
  "escaped_router = the (add_all router_add
     [(MethodPub, ''/a'' @ [CHR 0x5C] @ '':b'', 1), (MethodPub, ''/a:x'', 2)] NewHandlerRouter)"

text \<open>
  A backslash-escaped colon and a parameter at the same position do not go together: once \<open>/a\:b\<close> is
  registered, the later route \<open>/a:x\<close> ends up behind the static child with the label of a colon and is
  no longer found: the topic \<open>/ab\<close> falls to the not-found handler.
\<close>

theorem router_escaped_colon_hides_parameter:
  "(case router_Find MethodPub ''/ab'' escaped_router (fresh_context escaped_router) of
      Some (Inr c) \<Rightarrow> c_handler c = Some NotFoundHandler \<and> c_path c = ''/ab'' | _ \<Rightarrow> False)"
  by code_simp

end
