(* ===== verification/Broker.thy ===== *)
theory Broker
  imports Hub RouterMatch
begin

text \<open>
  The broker (\<^verbatim>\<open>src/pubsub/broker.go\<close>, \<^verbatim>\<open>broker-handler.go\<close>, \<^verbatim>\<open>broker-context.go\<close>): handlers and
  middleware, registration, triggering of handlers, subscriptions, and \<^verbatim>\<open>Serve\<close>, which starts and
  cancels the PUB handler of a topic as the hub reports its subscriptions to appear and disappear.

  Two things come from outside: \<open>parse\<close> is the path that \<^verbatim>\<open>url.ParseRequestURI\<close> reads in a topic, or
  \<open>None\<close> if it returns an error, and \<open>hc\<close> makes the application's handler context, of type \<open>'c\<close>, from a
  broker context. Handlers and middleware are the application's functions.
\<close>

section \<open>Handlers and middleware\<close>

text \<open>
  A handler function gets a pointer to its context: it returns an error or nil, and leaves the context
  changed, or panics. A nil function value is \<open>None\<close>.
\<close>

type_synonym 'c HandlerFunc = "'c \<Rightarrow> panic + error option \<times> 'c"

type_synonym 'c MiddlewareFunc = "'c HandlerFunc option \<Rightarrow> 'c HandlerFunc option"

definition call_handler :: "'c HandlerFunc option \<Rightarrow> 'c HandlerFunc" where
  "call_handler h c = (case h of None \<Rightarrow> Inl NilDereference | Some f \<Rightarrow> f c)"

definition notFoundHandler :: "'c HandlerFunc" where
  "notFoundHandler c = Inr (Some (Errorf ''handler not found for topic %s''), c)"

definition methodNotAllowedHandler :: "'c HandlerFunc" where
  "methodNotAllowedHandler c = Inr (Some (Errorf ''handler not found for method %s on topic %s''), c)"

text \<open>\<^verbatim>\<open>for i := len(middleware) - 1; i >= 0; i-- { h = middleware[i](h) }\<close>\<close>

fun middleware_loop :: "nat \<Rightarrow> 'c MiddlewareFunc list \<Rightarrow> 'c HandlerFunc option \<Rightarrow> 'c HandlerFunc option" where
  "middleware_loop 0 ms h = h"
| "middleware_loop (Suc i) ms h = middleware_loop i ms ((ms ! i) h)"

definition applyMiddleware :: "'c HandlerFunc option \<Rightarrow> 'c MiddlewareFunc list \<Rightarrow> 'c HandlerFunc option" where
  "applyMiddleware h ms = middleware_loop (length ms) ms h"

section \<open>State\<close>

record 'c BrokerContext =
  bc_context :: ctx
  bc_method :: string
  bc_topic :: string
  bc_routerContext :: "'c HandlerFunc RouterContext"

text \<open>
  A goroutine that \<^verbatim>\<open>TriggerPub\<close> started: its topic, its context, what it calls the handler with, and whether the
  handler has returned.
\<close>

record 'c publisher =
  p_topic :: string
  p_context :: ctx
  p_handler :: "'c HandlerFunc option"
  p_maker :: "'c BrokerContext \<Rightarrow> 'c"
  p_arg :: "'c BrokerContext"
  p_returned :: bool

text \<open>
  A goroutine that \<^verbatim>\<open>Subscribe\<close> started: it waits until the subscription is removed and then triggers
  the UNSUB handler.
\<close>

record 'm unsubscriber =
  u_removed :: "'m list subscription"
  u_context :: ctx
  u_topic :: string

text \<open>
  The receiving end of the channel \<^verbatim>\<open>changes\<close> is the number \<open>consumed\<close> of events that \<^verbatim>\<open>Serve\<close> has taken
  from what the hub has sent. \<^verbatim>\<open>maxParam\<close> is the router's, which the two share.
\<close>

record ('c, 'm) Broker =
  b_hub :: "'m list hub"
  b_router :: "'c HandlerFunc HandlerRouter"
  b_middleware :: "'c MiddlewareFunc list"
  pubCancelers :: "(string \<times> ctx) list"
  consumed :: nat
  publishers :: "'c publisher list"
  unsubscribers :: "'m unsubscriber list"
  b_log :: "error list"

definition NewBroker :: "ctxs \<Rightarrow> ('c, 'm) Broker" where
  "NewBroker g =
     \<lparr>b_hub = NewHub True g, b_router = NewHandlerRouter, b_middleware = [], pubCancelers = [],
      consumed = 0, publishers = [], unsubscribers = [], b_log = []\<rparr>"

section \<open>Registration\<close>

text \<open>\<open>name\<close> is what \<^verbatim>\<open>handlerName\<close> finds by reflection.\<close>

definition broker_Add ::
  "string \<Rightarrow> string \<Rightarrow> string \<Rightarrow> 'c HandlerFunc option \<Rightarrow> 'c MiddlewareFunc list \<Rightarrow> ('c, 'm) Broker \<Rightarrow>
   (Route \<times> ('c, 'm) Broker) option" where
  "broker_Add name meth tp h ms b =
     (case router_Add meth tp (Some (call_handler (applyMiddleware h ms))) (b_router b) of
        None \<Rightarrow> None
      | Some rt \<Rightarrow>
          let r = \<lparr>r_Method = meth, r_Path = tp, r_Name = name\<rparr>
          in Some (r, b\<lparr>b_router := rt\<lparr>routes := AList.update (meth @ tp) r (routes rt)\<rparr>\<rparr>))"

definition broker_PUB where "broker_PUB name = broker_Add name MethodPub"
definition broker_SUB where "broker_SUB name = broker_Add name MethodSub"
definition broker_UNSUB where "broker_UNSUB name = broker_Add name MethodUnsub"

definition broker_Use :: "'c MiddlewareFunc list \<Rightarrow> ('c, 'm) Broker \<Rightarrow> ('c, 'm) Broker" where
  "broker_Use ms b = b\<lparr>b_middleware := b_middleware b @ ms\<rparr>"

section \<open>Triggering handlers\<close>

fun handler_func :: "'c HandlerFunc handlerVal option \<Rightarrow> 'c HandlerFunc option" where
  "handler_func None = None"
| "handler_func (Some NotFoundHandler) = Some notFoundHandler"
| "handler_func (Some MethodNotAllowedHandler) = Some methodNotAllowedHandler"
| "handler_func (Some (UserHandler h)) = Some h"

definition GetHandler ::
  "(string \<Rightarrow> string option) \<Rightarrow> string \<Rightarrow> string \<Rightarrow> 'c HandlerFunc RouterContext \<Rightarrow> ('c, 'm) Broker \<Rightarrow>
   ('c HandlerFunc option \<times> 'c HandlerFunc RouterContext) go" where
  "GetHandler parse meth tp c b =
     go_bind (router_Find meth (case parse tp of Some p \<Rightarrow> p | None \<Rightarrow> tp) (b_router b) c)
       (\<lambda>c. go_return (applyMiddleware (handler_func (c_handler c)) (b_middleware b), c))"

definition NewBrokerContext :: "ctx \<Rightarrow> string \<Rightarrow> string \<Rightarrow> ('c, 'm) Broker \<Rightarrow> 'c BrokerContext" where
  "NewBrokerContext ctx meth tp b =
     \<lparr>bc_context = ctx, bc_method = meth, bc_topic = tp, bc_routerContext = fresh_context (b_router b)\<rparr>"

text \<open>Making the context, routing the topic and filling the router context, as the triggers begin.\<close>

definition prepare ::
  "(string \<Rightarrow> string option) \<Rightarrow> ctx \<Rightarrow> string \<Rightarrow> string \<Rightarrow> ('c, 'm) Broker \<Rightarrow>
   ('c HandlerFunc option \<times> 'c BrokerContext) go" where
  "prepare parse ctx meth tp b =
     (let c = NewBrokerContext ctx meth tp b
      in go_bind (GetHandler parse meth tp (bc_routerContext c) b)
           (\<lambda>(h, rc). go_return (h, c\<lparr>bc_routerContext := rc\<rparr>)))"

text \<open>An error that is not due to cancellation.\<close>

definition failure :: "error option \<Rightarrow> error option" where
  "failure e = (case e of None \<Rightarrow> None | Some e \<Rightarrow> if errors_Is e Canceled then None else Some e)"

definition log_failure :: "string \<Rightarrow> error option \<Rightarrow> ('c, 'm) Broker \<Rightarrow> ('c, 'm) Broker" where
  "log_failure msg e b = (case failure e of None \<Rightarrow> b | Some e \<Rightarrow> b\<lparr>b_log := b_log b @ [Wrapped msg e]\<rparr>)"

definition run_handler :: "'c HandlerFunc option \<Rightarrow> 'c \<Rightarrow> (error option \<times> 'c) go" where
  "run_handler h c = Some (call_handler h c)"

definition TriggerSub ::
  "(string \<Rightarrow> string option) \<Rightarrow> ('c BrokerContext \<Rightarrow> 'c) \<Rightarrow> ctx \<Rightarrow> string \<Rightarrow> ('c, 'm) Broker \<Rightarrow>
   (error option \<times> ('c, 'm) Broker) go" where
  "TriggerSub parse hc ctx tp b =
     go_bind (prepare parse ctx MethodSub tp b) (\<lambda>(h, c).
       go_bind (run_handler h (hc c)) (\<lambda>(err, _).
         go_return (failure err, log_failure ''couldn't trigger sub handler on topic %s'' err b)))"

definition TriggerUnsub ::
  "(string \<Rightarrow> string option) \<Rightarrow> ('c BrokerContext \<Rightarrow> 'c) \<Rightarrow> ctx \<Rightarrow> string \<Rightarrow> ('c, 'm) Broker \<Rightarrow>
   ('c, 'm) Broker go" where
  "TriggerUnsub parse hc ctx tp b =
     go_bind (prepare parse ctx MethodUnsub tp b) (\<lambda>(h, c).
       go_bind (run_handler h (hc c)) (\<lambda>(err, _).
         go_return (log_failure ''couldn't trigger unsub handler on topic %s'' err b)))"

text \<open>The contexts live with the hub.\<close>

definition set_contexts :: "ctxs \<Rightarrow> ('c, 'm) Broker \<Rightarrow> ('c, 'm) Broker" where
  "set_contexts g b = b\<lparr>b_hub := (b_hub b)\<lparr>contexts := g\<rparr>\<rparr>"

definition TriggerPub ::
  "(string \<Rightarrow> string option) \<Rightarrow> ('c BrokerContext \<Rightarrow> 'c) \<Rightarrow> ctx \<Rightarrow> string \<Rightarrow> ('c, 'm) Broker \<Rightarrow>
   (error option \<times> ('c, 'm) Broker) go" where
  "TriggerPub parse hc ctx tp b =
     (if map_of (pubCancelers b) tp \<noteq> None
      then go_return (Some (Errorf ''existing pub handler for topic %s has not yet been canceled''), b)
      else
        let (g, cctx) = WithCancel ctx (contexts (b_hub b));
            b = (set_contexts g b)\<lparr>pubCancelers := AList.update tp cctx (pubCancelers b)\<rparr>
        in go_bind (prepare parse cctx MethodPub tp b) (\<lambda>(h, c).
             go_return (None, b\<lparr>publishers := publishers b @
               [\<lparr>p_topic = tp, p_context = cctx, p_handler = h, p_maker = hc, p_arg = c, p_returned = False\<rparr>]\<rparr>)))"

text \<open>The body of the goroutine of a PUB handler, \<^verbatim>\<open>h(hc(c))\<close>, up to its end.\<close>

definition publisher_run :: "'c publisher \<Rightarrow> ('c, 'm) Broker \<Rightarrow> ('c, 'm) Broker go" where
  "publisher_run p b =
     go_bind (run_handler (p_handler p) (p_maker p (p_arg p))) (\<lambda>(err, _).
       go_return ((log_failure ''pub handler for topic %s failed'' err b)
         \<lparr>publishers := map (\<lambda>q. if p_context q = p_context p then q\<lparr>p_returned := True\<rparr> else q) (publishers b)\<rparr>))"

definition CancelPub :: "string \<Rightarrow> ('c, 'm) Broker \<Rightarrow> ('c, 'm) Broker" where
  "CancelPub tp b =
     (case map_of (pubCancelers b) tp of
        None \<Rightarrow> b
      | Some c \<Rightarrow>
          (set_contexts (ctx_cancel c (contexts (b_hub b))) b)
            \<lparr>pubCancelers := AList.delete tp (pubCancelers b)\<rparr>)"

section \<open>Subscribing\<close>

text \<open>
  The receiver that \<^verbatim>\<open>Subscribe\<close> hands to the hub: it fails when its context \<open>cctx\<close> is done, and cancels it
  when the callback \<open>broadcastHandler\<close> fails.
\<close>

definition broker_receive :: "ctx \<Rightarrow> (ctx \<Rightarrow> 'm list \<Rightarrow> error option) \<Rightarrow> 'm list ReceiveFunc" where
  "broker_receive cctx broadcastHandler messages g =
     (case ctx_Err g cctx of
        Some e \<Rightarrow> (Some e, [])
      | None \<Rightarrow>
          (case broadcastHandler cctx messages of
             Some e \<Rightarrow> (Some e, [cctx])
           | None \<Rightarrow> (None, [])))"

text \<open>The result is the channel \<^verbatim>\<open>removed\<close>, here the hub's subscription; \<open>None\<close> is the nil channel.\<close>

definition broker_Subscribe ::
  "(string \<Rightarrow> string option) \<Rightarrow> ('c BrokerContext \<Rightarrow> 'c) \<Rightarrow> ctx \<Rightarrow> string \<Rightarrow>
   (ctx \<Rightarrow> 'm list \<Rightarrow> error option) \<Rightarrow> ('c, 'm) Broker \<Rightarrow>
   ('m list subscription option \<times> ('c, 'm) Broker) go" where
  "broker_Subscribe parse hc ctx tp broadcastHandler b =
     go_bind (TriggerSub parse hc ctx tp b) (\<lambda>(err, b).
       if err \<noteq> None then go_return (None, b)
       else
         let (g, cctx) = WithCancel ctx (contexts (b_hub b));
             b = set_contexts g b
         in (case hub_Subscribe cctx tp (broker_receive cctx broadcastHandler) (b_hub b) of
               Inl p \<Rightarrow> Some (Inl p)
             | Inr (h, s) \<Rightarrow>
                 go_return (Some s, b\<lparr>b_hub := h,
                   unsubscribers := unsubscribers b @ [\<lparr>u_removed = s, u_context = cctx, u_topic = tp\<rparr>]\<rparr>)))"

text \<open>The goroutine of a subscription, once \<^verbatim>\<open>removed\<close> is closed.\<close>

definition unsubscriber_run ::
  "(string \<Rightarrow> string option) \<Rightarrow> ('c BrokerContext \<Rightarrow> 'c) \<Rightarrow> 'm unsubscriber \<Rightarrow> ('c, 'm) Broker \<Rightarrow>
   ('c, 'm) Broker go" where
  "unsubscriber_run parse hc u b =
     go_bind (TriggerUnsub parse hc (u_context u) (u_topic u) b)
       (\<lambda>b. go_return (b\<lparr>unsubscribers := remove1 u (unsubscribers b)\<rparr>))"

section \<open>Serve\<close>

fun serve_added ::
  "(string \<Rightarrow> string option) \<Rightarrow> ('c BrokerContext \<Rightarrow> 'c) \<Rightarrow> ctx \<Rightarrow> string list \<Rightarrow> ('c, 'm) Broker \<Rightarrow>
   ('c, 'm) Broker go" where
  "serve_added parse hc ctx [] b = go_return b"
| "serve_added parse hc ctx (tp # tps) b =
     (if map_of (pubCancelers b) tp \<noteq> None then serve_added parse hc ctx tps b
      else
        go_bind (TriggerPub parse hc ctx tp b) (\<lambda>(err, b).
          serve_added parse hc ctx tps
            (if err \<noteq> None
             then b\<lparr>b_log := b_log b @ [Errorf ''couldn't automatically trigger pub handler for topic %s'']\<rparr>
             else b)))"

definition serve_change ::
  "(string \<Rightarrow> string option) \<Rightarrow> ('c BrokerContext \<Rightarrow> 'c) \<Rightarrow> ctx \<Rightarrow> BroadcastingChange \<Rightarrow> ('c, 'm) Broker \<Rightarrow>
   ('c, 'm) Broker go" where
  "serve_change parse hc ctx change b =
     go_bind (serve_added parse hc ctx (Added change) b) (\<lambda>b.
       go_return (fold CancelPub (Removed change) b))"

text \<open>One round of \<^verbatim>\<open>for change := range b.changes\<close>, when an event is there to receive.\<close>

definition serve_round ::
  "(string \<Rightarrow> string option) \<Rightarrow> ('c BrokerContext \<Rightarrow> 'c) \<Rightarrow> ctx \<Rightarrow> ('c, 'm) Broker \<Rightarrow> ('c, 'm) Broker go" where
  "serve_round parse hc ctx b =
     serve_change parse hc ctx (emitted (b_hub b) ! consumed b) (b\<lparr>consumed := Suc (consumed b)\<rparr>)"

text \<open>The goroutine that closes the hub when the context is done.\<close>

definition serve_closer :: "ctx \<Rightarrow> ('c, 'm) Broker \<Rightarrow> ('c, 'm) Broker" where
  "serve_closer ctx b = b\<lparr>b_hub := hub_Close (b_hub b)\<rparr>"

text \<open>\<^verbatim>\<open>Serve\<close> returns once the channel is closed and drained.\<close>

definition serve_result :: "ctx \<Rightarrow> ('c, 'm) Broker \<Rightarrow> error option option" where
  "serve_result ctx b =
     (if chan_closed (b_hub b) \<and> length (emitted (b_hub b)) \<le> consumed b
      then Some (ctx_Err (contexts (b_hub b)) ctx) else None)"


section \<open>Middleware\<close>

lemma middleware_loop_foldr: "i \<le> length ms \<Longrightarrow> middleware_loop i ms h = foldr (\<lambda>m. m) (take i ms) h"
  by (induction i arbitrary: h) (simp_all add: take_Suc_conv_app_nth)

lemma applyMiddleware_foldr: "applyMiddleware h ms = foldr (\<lambda>m. m) ms h"
  by (simp add: applyMiddleware_def middleware_loop_foldr)

section \<open>Routing never fails\<close>

text \<open>What the broker needs of a router: looking up a handler in a context made for it returns.\<close>

locale topic_router =
  fixes find :: "string \<Rightarrow> string \<Rightarrow> 'r \<Rightarrow> 'x \<Rightarrow> 'x go" and inv :: "'r \<Rightarrow> bool" and new_ctx :: "'r \<Rightarrow> 'x"
  assumes find_total: "inv r \<Longrightarrow> \<exists>c. find m p r (new_ctx r) = Some (Inr c)"
begin

lemma find_bind_total:
  assumes "inv r"
  shows "\<exists>y. go_bind (find m p r (new_ctx r)) (\<lambda>c. go_return (f c)) = Some (Inr y)"
  using find_total [OF assms, of m p] by (auto simp: go_return_def)

end

interpretation tr: topic_router router_Find router_inv fresh_context
  using router_Find_decides [OF _ fresh_context_simps(1)] by unfold_locales blast

lemma prepare_total:
  assumes "router_inv (b_router b)"
  obtains h c where "prepare parse ctx meth tp b = Some (Inr (h, c))"
proof -
  have "\<exists>y. GetHandler parse meth tp (fresh_context (b_router b)) b = Some (Inr y)"
    unfolding GetHandler_def by (rule tr.find_bind_total [OF assms])
  then obtain y where "GetHandler parse meth tp (fresh_context (b_router b)) b = Some (Inr y)" ..
  then show thesis
    using that by (cases y) (auto simp: prepare_def NewBrokerContext_def Let_def go_return_def)
qed

section \<open>Runs of a broker\<close>

text \<open>
  What may happen to a broker while \<open>Serve\<close> runs with context \<open>ctx\<close>: registrations, any activity on its
  hub, subscriptions through the broker with handler contexts of their own, the goroutines it starts, and the rounds of \<^verbatim>\<open>Serve\<close>.
  Anybody may cancel a context, except that of a PUB handler, whose cancel function \<^verbatim>\<open>TriggerPub\<close> gives to nobody:
  it is done when \<^verbatim>\<open>CancelPub\<close> calls that function, or when \<open>ctx\<close> is done.
\<close>

inductive broker_step ::
  "(string \<Rightarrow> string option) \<Rightarrow> ('c BrokerContext \<Rightarrow> 'c) \<Rightarrow> ctx \<Rightarrow> ('c, 'm) Broker \<Rightarrow> ('c, 'm) Broker \<Rightarrow> bool"
  for parse hc ctx where
  bs_add: "broker_Add name meth tp h ms b = Some (r, b') \<Longrightarrow> plain_path tp \<Longrightarrow> broker_step parse hc ctx b b'"
| bs_use: "broker_step parse hc ctx b (broker_Use ms b)"
| bs_hub: "hub_op (b_hub b) N h \<Longrightarrow> broker_step parse hc ctx b (b\<lparr>b_hub := h\<rparr>)"
| bs_cancel: "ctx_known (contexts (b_hub b)) c \<Longrightarrow> c \<notin> p_context ` set (publishers b) \<Longrightarrow>
    broker_step parse hc ctx b (set_contexts (ctx_cancel c (contexts (b_hub b))) b)"
| bs_subscribe: "broker_Subscribe parse hc' c tp bh b = Some (Inr (s, b')) \<Longrightarrow> ctx_known (contexts (b_hub b)) c \<Longrightarrow>
    broker_step parse hc ctx b b'"
| bs_unsubscriber: "u \<in> set (unsubscribers b) \<Longrightarrow> ctx_Done (contexts (b_hub b)) (sub_cancel (u_removed u)) \<Longrightarrow>
    unsubscriber_run parse hc' u b = Some (Inr b') \<Longrightarrow> broker_step parse hc ctx b b'"
| bs_publisher: "p \<in> set (publishers b) \<Longrightarrow> \<not> p_returned p \<Longrightarrow> publisher_run p b = Some (Inr b') \<Longrightarrow> broker_step parse hc ctx b b'"
| bs_serve: "consumed b < length (emitted (b_hub b)) \<Longrightarrow> ctx_known (contexts (b_hub b)) ctx \<Longrightarrow>
    serve_round parse hc ctx b = Some (Inr b') \<Longrightarrow> broker_step parse hc ctx b b'"
| bs_closer: "ctx_Done (contexts (b_hub b)) ctx \<Longrightarrow> broker_step parse hc ctx b (serve_closer ctx b)"

inductive broker_run ::
  "(string \<Rightarrow> string option) \<Rightarrow> ('c BrokerContext \<Rightarrow> 'c) \<Rightarrow> ctx \<Rightarrow> ('c, 'm) Broker \<Rightarrow> bool"
  for parse hc ctx where
  br_start: "broker_run parse hc ctx (NewBroker initial_ctxs)"
| br_step: "broker_run parse hc ctx b \<Longrightarrow> broker_step parse hc ctx b b' \<Longrightarrow> broker_run parse hc ctx b'"

subsection \<open>What the hub's steps keep\<close>

lemma cancel_subs_known: "ctx_known (contexts h) c \<Longrightarrow> ctx_known (contexts (cancel_subs ss h)) c"
  by (simp add: contexts_cancel_subs gctx.fold_cancel_known)

lemma hub_Cancel_loop_known: "ctx_known (contexts h) c \<Longrightarrow> ctx_known (contexts (hub_Cancel_loop ts h)) c"
  by (induction ts h rule: hub_Cancel_loop.induct) (auto split: option.splits simp: cancel_subs_known)

lemma hub_unsubscribe_loop_known:
  "ctx_known (contexts h) c \<Longrightarrow> ctx_known (contexts (fst (hub_unsubscribe_loop ss r h))) c"
  by (induction ss arbitrary: r h)
    (simp_all add: hub_unsubscribe_loop_Cons unsub_turn_def cancel_subs_known split: option.split)

lemma hub_step_known: "hub_step h N h' \<Longrightarrow> ctx_known (contexts h) c \<Longrightarrow> ctx_known (contexts h') c"
proof (induction rule: hub_step.induct)
  case (step_subscribe c' t rcv h h' s)
  from step_subscribe(1) show ?case
    by (rule hub_SubscribeE) (use step_subscribe gctx.derive_known_mono in blast)
next
  case (step_derive h c')
  then show ?case by (auto simp: WithCancel_def ctx_known_def)
qed (simp_all add: hub_Cancel_contexts hub_Cancel_loop_known hub_Close_contexts cancel_subs_known
    hub_unsubscribe_contexts hub_unsubscribe_loop_known gctx.cancel_known)

lemma hub_step_emitted:
  "hub_step h N h' \<Longrightarrow> hub_inv h \<Longrightarrow> \<exists>cs. emitted h' = emitted h @ cs"
proof (induction rule: hub_step.induct)
  case (step_subscribe c' t rcv h h' s)
  from step_subscribe(1) show ?case by (rule hub_SubscribeE) blast
next
  case (step_watcher s h)
  then have "set [s] \<subseteq> set (watchers h)" by simp
  then show ?case
    by (rule hub_unsubscribe_emitted [OF step_watcher(3)]) auto
qed (simp_all add: hub_Cancel_emitted)


subsection \<open>The publishers\<close>

text \<open>
  Every topic with a canceler has a PUB goroutine with that context, every other goroutine started
  for a topic has a context that is done, and no two goroutines share a context.
\<close>

definition pubs_ok :: "('c, 'm) Broker \<Rightarrow> bool" where
  "pubs_ok b \<longleftrightarrow>
     distinct (map p_context (publishers b)) \<and>
     (\<forall>p\<in>set (publishers b). ctx_known (contexts (b_hub b)) (p_context p) \<and>
        (map_of (pubCancelers b) (p_topic p) = Some (p_context p) \<or>
         ctx_Done (contexts (b_hub b)) (p_context p))) \<and>
     (\<forall>t c. map_of (pubCancelers b) t = Some c \<longrightarrow>
        (\<exists>p\<in>set (publishers b). p_topic p = t \<and> p_context p = c))"

definition base_ok :: "ctx \<Rightarrow> ('c, 'm) Broker \<Rightarrow> bool" where
  "base_ok ctx b \<longleftrightarrow>
     (\<exists>S. hub_run True (b_hub b) S) \<and> router_inv (b_router b) \<and> pubs_ok b \<and> ctx_known (contexts (b_hub b)) ctx"

definition broker_inv :: "('c, 'm) Broker \<Rightarrow> bool" where
  "broker_inv b \<longleftrightarrow>
     base_ok Background b \<and> consumed b \<le> length (emitted (b_hub b)) \<and>
     dom (map_of (pubCancelers b)) = replay (take (consumed b) (emitted (b_hub b)))"

lemma base_ok_hub:
  assumes "base_ok ctx b" and "hub_step (b_hub b) N h"
  shows "base_ok ctx (b\<lparr>b_hub := h\<rparr>)"
  using assms run_step hub_step_mono [OF assms(2)] hub_step_known [OF assms(2)]
  by (fastforce simp: base_ok_def pubs_ok_def)

lemma base_ok_other_fields [simp]:
  "base_ok ctx (b\<lparr>b_log := l\<rparr>) = base_ok ctx b"
  "base_ok ctx (b\<lparr>unsubscribers := us\<rparr>) = base_ok ctx b"
  "base_ok ctx (b\<lparr>b_middleware := ms\<rparr>) = base_ok ctx b"
  "base_ok ctx (b\<lparr>consumed := n\<rparr>) = base_ok ctx b"
  by (simp_all add: base_ok_def pubs_ok_def)

lemma log_failure_fields [simp]:
  "base_ok ctx (log_failure m e b) = base_ok ctx b"
  "b_hub (log_failure m e b) = b_hub b" "consumed (log_failure m e b) = consumed b"
  "pubCancelers (log_failure m e b) = pubCancelers b" "b_router (log_failure m e b) = b_router b"
  "publishers (log_failure m e b) = publishers b" "unsubscribers (log_failure m e b) = unsubscribers b"
  by (auto simp: log_failure_def split: option.split)

lemma set_contexts_simps [simp]:
  "b_hub (set_contexts g b) = (b_hub b)\<lparr>contexts := g\<rparr>" "pubCancelers (set_contexts g b) = pubCancelers b"
  "b_router (set_contexts g b) = b_router b" "publishers (set_contexts g b) = publishers b"
  "consumed (set_contexts g b) = consumed b" "unsubscribers (set_contexts g b) = unsubscribers b"
  by (simp_all add: set_contexts_def)

definition same_events :: "('c, 'm) Broker \<Rightarrow> ('c, 'm) Broker \<Rightarrow> bool" where
  "same_events b b' \<longleftrightarrow>
     emitted (b_hub b') = emitted (b_hub b) \<and> consumed b' = consumed b \<and>
     brChanges (b_hub b') = brChanges (b_hub b) \<and> hub_lookup (b_hub b') = hub_lookup (b_hub b)"

lemma same_events_trans: "same_events a b \<Longrightarrow> same_events b c \<Longrightarrow> same_events a c"
  by (simp add: same_events_def)

lemma TriggerPub_ok:
  assumes "base_ok ctx b" and "map_of (pubCancelers b) tp = None"
  obtains b' where "TriggerPub parse hc ctx tp b = Some (Inr (None, b'))" "base_ok ctx b'" "same_events b b'"
    "dom (map_of (pubCancelers b')) = insert tp (dom (map_of (pubCancelers b)))"
proof -
  obtain g d where w: "WithCancel ctx (contexts (b_hub b)) = (g, d)" by fastforce
  let ?h = "(b_hub b)\<lparr>contexts := g\<rparr>"
  define b1 where "b1 = (set_contexts g b)\<lparr>pubCancelers := AList.update tp d (pubCancelers b)\<rparr>"
  have "hub_step (b_hub b) {} ?h" using step_derive [of "b_hub b" ctx] w by simp
  from base_ok_hub [OF assms(1) this] have hub: "base_ok ctx (b\<lparr>b_hub := ?h\<rparr>)" .
  then have "router_inv (b_router b1)" by (simp add: base_ok_def b1_def)
  then obtain h c where p: "prepare parse d MethodPub tp b1 = Some (Inr (h, c))" by (rule prepare_total)
  define b' where "b' = b1\<lparr>publishers := publishers b1 @ [\<lparr>p_topic = tp, p_context = d, p_handler = h, p_maker = hc, p_arg = c, p_returned = False\<rparr>]\<rparr>"
  have "publishers b1 = publishers b" by (simp add: b1_def)
  then have run: "TriggerPub parse hc ctx tp b = Some (Inr (None, b'))"
    using assms(2) p by (simp add: TriggerPub_def w b1_def [symmetric] b'_def go_return_def Let_def)
  have d: "ctx_known g d" "ctx_known g ctx"
    using hub assms(1) gctx.derive_known [OF _ w] by (auto simp: base_ok_def)
  have "\<not> ctx_known (contexts (b_hub b)) d" using w by (auto simp: ctx_known_def WithCancel_def)
  then have "d \<notin> p_context ` set (publishers b)"
    using assms(1) by (auto simp: base_ok_def pubs_ok_def)
  then have "pubs_ok b'"
    using hub assms(2) d by (auto simp: base_ok_def pubs_ok_def b'_def b1_def)
  then have "base_ok ctx b'" using hub d by (simp add: base_ok_def b'_def b1_def)
  moreover have "same_events b b'" "dom (map_of (pubCancelers b')) = insert tp (dom (map_of (pubCancelers b)))"
    by (auto simp: b'_def b1_def same_events_def)
  ultimately show thesis using run that by blast
qed

lemma CancelPub_ok:
  assumes "base_ok ctx b"
  shows "base_ok ctx (CancelPub tp b)" "same_events b (CancelPub tp b)"
    "dom (map_of (pubCancelers (CancelPub tp b))) = dom (map_of (pubCancelers b)) - {tp}"
proof -
  have "base_ok ctx (CancelPub tp b) \<and> same_events b (CancelPub tp b) \<and>
      dom (map_of (pubCancelers (CancelPub tp b))) = dom (map_of (pubCancelers b)) - {tp}"
  proof (cases "map_of (pubCancelers b) tp")
    case None
    then show ?thesis using assms by (auto simp: CancelPub_def same_events_def)
  next
    case (Some c)
    let ?g = "ctx_cancel c (contexts (b_hub b))"
    have "ctx_known (contexts (b_hub b)) c"
      using assms Some by (auto simp: base_ok_def pubs_ok_def)
    then have "hub_step (b_hub b) {} ((b_hub b)\<lparr>contexts := ?g\<rparr>)" by (rule step_ctx_cancel)
    from base_ok_hub [OF assms this] have hub: "base_ok ctx (b\<lparr>b_hub := (b_hub b)\<lparr>contexts := ?g\<rparr>\<rparr>)" .
    then have "pubs_ok (CancelPub tp b)"
      using Some assms by (auto simp: base_ok_def pubs_ok_def CancelPub_def)
    then show ?thesis
      using hub Some by (auto simp: base_ok_def CancelPub_def same_events_def split: if_splits)
  qed
  then show "base_ok ctx (CancelPub tp b)" "same_events b (CancelPub tp b)"
    "dom (map_of (pubCancelers (CancelPub tp b))) = dom (map_of (pubCancelers b)) - {tp}" by simp_all
qed

lemma serve_added_ok:
  "base_ok ctx b \<Longrightarrow> \<exists>b'. serve_added parse hc ctx tps b = Some (Inr b') \<and> base_ok ctx b' \<and> same_events b b' \<and>
     dom (map_of (pubCancelers b')) = dom (map_of (pubCancelers b)) \<union> set tps"
proof (induction tps arbitrary: b)
  case Nil
  then show ?case by (simp add: go_return_def same_events_def)
next
  case (Cons tp tps)
  show ?case
  proof (cases "map_of (pubCancelers b) tp")
    case None
    then obtain b1 where b1: "TriggerPub parse hc ctx tp b = Some (Inr (None, b1))" "base_ok ctx b1"
        "same_events b b1" "dom (map_of (pubCancelers b1)) = insert tp (dom (map_of (pubCancelers b)))"
      using TriggerPub_ok [OF Cons.prems] by metis
    then show ?thesis using Cons.IH [OF b1(2)] None same_events_trans by (fastforce simp: go_return_def)
  next
    case (Some c)
    then have "insert tp (dom (map_of (pubCancelers b)) \<union> set tps) = dom (map_of (pubCancelers b)) \<union> set tps"
      by auto
    then show ?thesis using Cons.IH [OF Cons.prems] Some by simp
  qed
qed

lemma serve_added_cancelled:
  "serve_added parse hc ctx tps b = Some (Inr b') \<Longrightarrow> cancelled (contexts (b_hub b')) = cancelled (contexts (b_hub b))"
proof (induction tps arbitrary: b)
  case (Cons tp tps)
  show ?case
  proof (cases "map_of (pubCancelers b) tp")
    case None
    then obtain e b1 where b1: "TriggerPub parse hc ctx tp b = Some (Inr (e, b1))" using Cons.prems by auto
    then have "cancelled (contexts (b_hub b1)) = cancelled (contexts (b_hub b))"
      using None by (auto simp: TriggerPub_def WithCancel_def Let_def)
    then show ?thesis using Cons.IH [OF _] Cons.prems None b1 by (fastforce split: if_splits)
  qed (use Cons in simp)
qed (simp add: go_return_def)

lemma fold_CancelPub_ok:
  "base_ok ctx b \<Longrightarrow> base_ok ctx (fold CancelPub tps b) \<and> same_events b (fold CancelPub tps b) \<and>
     dom (map_of (pubCancelers (fold CancelPub tps b))) = dom (map_of (pubCancelers b)) - set tps"
proof (induction tps arbitrary: b)
  case Nil
  then show ?case by (simp add: same_events_def)
next
  case (Cons tp tps)
  note step = CancelPub_ok [OF Cons.prems, of tp]
  show ?case
    using Cons.IH [OF step(1)] step(2,3) by (auto simp: same_events_def)
qed


lemma serve_round_ok:
  assumes "base_ok ctx b" and "consumed b < length (emitted (b_hub b))"
    and "dom (map_of (pubCancelers b)) = replay (take (consumed b) (emitted (b_hub b)))"
  obtains b' where "serve_round parse hc ctx b = Some (Inr b')" "base_ok ctx b'"
    "emitted (b_hub b') = emitted (b_hub b)" "consumed b' = Suc (consumed b)"
    "dom (map_of (pubCancelers b')) = replay (take (consumed b') (emitted (b_hub b')))"
    "brChanges (b_hub b') = brChanges (b_hub b)"
proof -
  let ?c = "emitted (b_hub b) ! consumed b" and ?b = "b\<lparr>consumed := Suc (consumed b)\<rparr>"
  obtain b1 where b1: "serve_added parse hc ctx (Added ?c) ?b = Some (Inr b1)" "base_ok ctx b1" "same_events ?b b1"
      "dom (map_of (pubCancelers b1)) = dom (map_of (pubCancelers b)) \<union> set (Added ?c)"
    using serve_added_ok [of ctx ?b parse hc "Added ?c"] assms(1) by auto
  define b' where "b' = fold CancelPub (Removed ?c) b1"
  have "base_ok ctx b'" "same_events ?b b'"
      "dom (map_of (pubCancelers b')) = apply_change (replay (take (consumed b) (emitted (b_hub b)))) ?c"
    using fold_CancelPub_ok [OF b1(2), of "Removed ?c"] b1(3,4) assms(3)
    by (auto simp: b'_def same_events_def apply_change_def)
  moreover have "take (Suc (consumed b)) (emitted (b_hub b)) = take (consumed b) (emitted (b_hub b)) @ [?c]"
    using assms(2) by (rule take_Suc_conv_app_nth)
  moreover have "serve_round parse hc ctx b = Some (Inr b')"
    using b1(1) by (simp add: serve_round_def serve_change_def b'_def go_return_def)
  ultimately show thesis
    by (intro that [of b']) (simp_all add: same_events_def)
qed

subsection \<open>The invariant\<close>

lemma broker_Add_router:
  assumes "router_inv (b_router b)" and "plain_path tp" and "broker_Add name meth tp h ms b = Some (r, b')"
  shows "router_inv (b_router b')" "b' = b\<lparr>b_router := b_router b'\<rparr>"
proof -
  obtain rt where rt: "router_Add meth tp (Some (call_handler (applyMiddleware h ms))) (b_router b) = Some rt" "router_inv rt"
    using router_Add_loop [OF assms(1,2), of meth "call_handler (applyMiddleware h ms)"] by blast
  then show "router_inv (b_router b')" "b' = b\<lparr>b_router := b_router b'\<rparr>"
    using assms(3) by (auto simp: broker_Add_def router_inv_def Let_def)
qed

lemma TriggerUnsub_fields:
  assumes "TriggerUnsub parse hc c tp b = Some (Inr b')"
  shows "b' = b\<lparr>b_log := b_log b'\<rparr>"
  using assms by (auto simp: TriggerUnsub_def log_failure_def split: option.splits)

lemma TriggerSub_fields:
  assumes "TriggerSub parse hc c tp b = Some (Inr (err, b'))"
  shows "b' = b\<lparr>b_log := b_log b'\<rparr>"
  using assms by (auto simp: TriggerSub_def log_failure_def split: option.splits)

lemma broker_Subscribe_hub:
  assumes "broker_Subscribe parse hc c tp bh b = Some (Inr (s, b'))" and "ctx_known (contexts (b_hub b)) c"
  obtains l where "s = None" "b' = b\<lparr>b_log := l\<rparr>"
    | h1 N h2 l us where "hub_op (b_hub b) {} h1" "hub_op h1 N h2"
      "b' = b\<lparr>b_log := l, b_hub := h2, unsubscribers := us\<rparr>" "\<exists>g. h1 = (b_hub b)\<lparr>contexts := g\<rparr>"
proof -
  obtain err b1 where b1: "TriggerSub parse hc c tp b = Some (Inr (err, b1))"
    using assms(1) by (auto simp: broker_Subscribe_def)
  note f = TriggerSub_fields [OF b1]
  obtain g d where w: "WithCancel c (contexts (b_hub b)) = (g, d)" by fastforce
  have hb: "b_hub b1 = b_hub b" by (subst f) simp
  show thesis
  proof (cases "err = None")
    case False
    then show thesis using assms(1) b1 f that(1) [of "b_log b1"] by (auto simp: broker_Subscribe_def)
  next
    case True
    let ?h = "(b_hub b)\<lparr>contexts := g\<rparr>"
    obtain h2 s' where h2: "hub_Subscribe d tp (broker_receive d bh) ?h = Inr (h2, s')"
        "b' = (set_contexts g b1)\<lparr>b_hub := h2,
          unsubscribers := unsubscribers b1 @ [\<lparr>u_removed = s', u_context = d, u_topic = tp\<rparr>]\<rparr>"
      using assms(1) b1 True w hb
      by (auto simp: broker_Subscribe_def Let_def split: sum.splits)
    have "hub_op (b_hub b) {} ?h" using op_derive [of "b_hub b" c] w by simp
    moreover have "hub_op ?h {s'} h2"
      using h2(1) by (rule op_subscribe) (use gctx.derive_known [OF assms(2) w] in simp)
    moreover have "b' = b\<lparr>b_log := b_log b1, b_hub := h2, unsubscribers := unsubscribers b'\<rparr>"
      unfolding h2(2) by (subst (1) f) (simp add: set_contexts_def)
    ultimately show thesis by (rule that(2)) blast
  qed
qed


lemma broker_inv_hub:
  assumes "broker_inv b" and "hub_step (b_hub b) N h"
  shows "broker_inv (b\<lparr>b_hub := h\<rparr>)"
proof -
  have "hub_inv (b_hub b)" using assms(1) hub_run_inv by (auto simp: broker_inv_def base_ok_def)
  then obtain cs where "emitted h = emitted (b_hub b) @ cs" using hub_step_emitted [OF assms(2)] by blast
  then show ?thesis
    using assms(1) base_ok_hub [OF _ assms(2)] by (simp add: broker_inv_def)
qed

lemma broker_inv_other_fields [simp]:
  "broker_inv (b\<lparr>b_log := l\<rparr>) = broker_inv b"
  "broker_inv (b\<lparr>unsubscribers := us\<rparr>) = broker_inv b"
  "broker_inv (b\<lparr>b_middleware := ms\<rparr>) = broker_inv b"
  by (simp_all add: broker_inv_def)

lemma broker_inv_ctx: "broker_inv b \<Longrightarrow> ctx_known (contexts (b_hub b)) ctx \<Longrightarrow> base_ok ctx b"
  by (simp add: broker_inv_def base_ok_def)

lemma base_ok_Background: "base_ok ctx b \<Longrightarrow> base_ok Background b"
  by (simp add: base_ok_def)

lemma publisher_run_fields:
  assumes "publisher_run p b = Some (Inr b')"
  shows "b' = b\<lparr>b_log := b_log b', publishers :=
    map (\<lambda>q. if p_context q = p_context p then q\<lparr>p_returned := True\<rparr> else q) (publishers b)\<rparr>"
  using assms by (auto simp: publisher_run_def log_failure_def split: option.splits)

text \<open>Marking PUB goroutines as returned changes neither their topics nor their contexts.\<close>

abbreviation mark_returned :: "('c publisher \<Rightarrow> bool) \<Rightarrow> 'c publisher list \<Rightarrow> 'c publisher list" where
  "mark_returned P ps \<equiv> map (\<lambda>q. if P q then q\<lparr>p_returned := True\<rparr> else q) ps"

lemma mark_returned_contexts: "map p_context (mark_returned P ps) = map p_context ps"
  by (induction ps) auto

lemma mark_returned_all:
  "(\<forall>p\<in>set (mark_returned P ps). F (p_context p) (p_topic p)) \<longleftrightarrow> (\<forall>p\<in>set ps. F (p_context p) (p_topic p))"
  by (induction ps) auto

lemma pubs_ok_returned: "pubs_ok (b\<lparr>publishers := mark_returned P (publishers b)\<rparr>) = pubs_ok b"
proof -
  have "(\<exists>p\<in>set (mark_returned P ps). p_topic p = t \<and> p_context p = c) \<longleftrightarrow>
      (\<exists>p\<in>set ps. p_topic p = t \<and> p_context p = c)" for t c ps
    by (induction ps) auto
  then show ?thesis
    unfolding pubs_ok_def
    using mark_returned_contexts [of P "publishers b"]
      mark_returned_all [of P "publishers b" "\<lambda>c t. ctx_known (contexts (b_hub b)) c \<and>
        (map_of (pubCancelers b) t = Some c \<or> ctx_Done (contexts (b_hub b)) c)"]
    by (simp del: map_map set_map)
qed

lemma broker_inv_publishers:
  "broker_inv (b\<lparr>b_log := l, publishers := mark_returned P (publishers b)\<rparr>) = broker_inv b"
  using pubs_ok_returned [where b = "b\<lparr>b_log := l\<rparr>" and P = P]
  by (simp add: broker_inv_def base_ok_def pubs_ok_def del: map_map set_map)

lemma broker_step_inv: "broker_step parse hc ctx b b' \<Longrightarrow> broker_inv b \<Longrightarrow> broker_inv b'"
proof (induction rule: broker_step.induct)
  case (bs_add name meth tp h ms b r b')
  have "router_inv (b_router b)" using bs_add by (simp add: broker_inv_def base_ok_def)
  note add = broker_Add_router [OF this bs_add(2,1)]
  show ?case
    using bs_add(3) add(1) by (subst add(2)) (simp add: broker_inv_def base_ok_def pubs_ok_def)
next
  case (bs_subscribe hc' c tp bh b s b')
  from bs_subscribe(1,2) show ?case
  proof (cases rule: broker_Subscribe_hub)
    case (1 l)
    then show ?thesis using bs_subscribe(3) by simp
  next
    case (2 h1 N h2 l us)
    have "broker_inv (b\<lparr>b_hub := h1\<rparr>)" using broker_inv_hub [OF bs_subscribe(3) hub_op_step [OF 2(1)]] .
    then have "broker_inv (b\<lparr>b_hub := h2\<rparr>)" using broker_inv_hub [of "b\<lparr>b_hub := h1\<rparr>" N h2] hub_op_step [OF 2(2)] by simp
    then show ?thesis using 2(3) by (simp add: broker_inv_def base_ok_def pubs_ok_def)
  qed
next
  case (bs_unsubscriber u b hc' b')
  then obtain b1 where "TriggerUnsub parse hc' (u_context u) (u_topic u) b = Some (Inr b1)"
      "b' = b1\<lparr>unsubscribers := remove1 u (unsubscribers b1)\<rparr>"
    by (auto simp: unsubscriber_run_def)
  then show ?case using TriggerUnsub_fields bs_unsubscriber(4) by (metis broker_inv_other_fields(1,2))
next
  case (bs_publisher p b b')
  then show ?case by (subst publisher_run_fields [OF bs_publisher(3)]) (simp only: broker_inv_publishers)
next
  case (bs_cancel b c)
  from broker_inv_hub [OF bs_cancel(3) step_ctx_cancel [OF bs_cancel(1)]] show ?case by (simp add: set_contexts_def)
next
  case (bs_serve b b')
  have "dom (map_of (pubCancelers b)) = replay (take (consumed b) (emitted (b_hub b)))"
    using bs_serve(4) by (simp add: broker_inv_def)
  then obtain b2 where "serve_round parse hc ctx b = Some (Inr b2)" "base_ok ctx b2"
      "emitted (b_hub b2) = emitted (b_hub b)" "consumed b2 = Suc (consumed b)"
      "dom (map_of (pubCancelers b2)) = replay (take (consumed b2) (emitted (b_hub b2)))"
    by (rule serve_round_ok [OF broker_inv_ctx [OF bs_serve(4,2)] bs_serve(1)])
  then show ?case
    using bs_serve(1,3) base_ok_Background [of ctx b2] by (auto simp: broker_inv_def)
next
  case (bs_closer b)
  then show ?case using broker_inv_hub [OF _ step_close] by (simp add: serve_closer_def)
next
  case (bs_hub b N h)
  show ?case using broker_inv_hub [OF bs_hub(2) hub_op_step [OF bs_hub(1)]] .
qed (simp add: broker_Use_def)

lemma broker_run_inv: "broker_run parse hc ctx b \<Longrightarrow> broker_inv b"
proof (induction rule: broker_run.induct)
  case br_start
  show ?case
    using run_start [of True]
    by (auto simp: broker_inv_def base_ok_def pubs_ok_def NewBroker_def router_inv_New)
qed (rule broker_step_inv)


lemma broker_run_topics:
  assumes "broker_run parse hc ctx b" and "consumed b = length (emitted (b_hub b))" and "brChanges (b_hub b)"
  shows "dom (map_of (pubCancelers b)) = dom (hub_lookup (b_hub b))"
proof -
  have inv: "broker_inv b" using assms(1) by (rule broker_run_inv)
  then obtain S where "hub_run True (b_hub b) S" by (auto simp: broker_inv_def base_ok_def)
  then have "replay (emitted (b_hub b)) = dom (hub_lookup (b_hub b))" using assms(3) by (rule hub_run_replay)
  then show ?thesis using inv assms(2) by (simp add: broker_inv_def)
qed

lemma broker_run_canceler:
  assumes "broker_run parse hc ctx b" and "map_of (pubCancelers b) t = Some c"
  shows "\<exists>p\<in>set (publishers b). p_topic p = t \<and> p_context p = c"
  using broker_run_inv [OF assms(1)] assms(2) by (simp add: broker_inv_def base_ok_def pubs_ok_def)

subsection \<open>Nobody else cancels a PUB handler\<close>

text \<open>
  The contexts of the PUB goroutines are children of \<open>ctx\<close>, none of them is the context of a subscription,
  and the cancel function of those that the broker still holds has not been called.
\<close>

definition private_ok :: "ctx \<Rightarrow> ('c, 'm) Broker \<Rightarrow> bool" where
  "private_ok ctx b \<longleftrightarrow>
     (\<forall>p\<in>set (publishers b). \<exists>n. p_context p = ctx @ [n]) \<and>
     (\<forall>p\<in>set (publishers b). \<forall>s\<in>set (watchers (b_hub b)). p_context p \<noteq> sub_cancel s) \<and>
     (\<forall>t c. map_of (pubCancelers b) t = Some c \<longrightarrow> c \<notin> cancelled (contexts (b_hub b)))"

lemma private_ok_other_fields [simp]:
  "private_ok ctx (b\<lparr>b_log := l\<rparr>) = private_ok ctx b" "private_ok ctx (b\<lparr>unsubscribers := us\<rparr>) = private_ok ctx b"
  "private_ok ctx (b\<lparr>b_middleware := ms\<rparr>) = private_ok ctx b" "private_ok ctx (b\<lparr>consumed := n\<rparr>) = private_ok ctx b"
  "private_ok ctx (b\<lparr>b_router := rt\<rparr>) = private_ok ctx b"
  by (simp_all add: private_ok_def)

lemma private_ok_returned:
  "private_ok ctx (b\<lparr>publishers := mark_returned P (publishers b)\<rparr>) = private_ok ctx b"
  using mark_returned_all [of P "publishers b" "\<lambda>c t. \<exists>n. c = ctx @ [n]"]
    mark_returned_all [of P "publishers b" "\<lambda>c t. \<forall>s\<in>set (watchers (b_hub b)). c \<noteq> sub_cancel s"]
  by (simp add: private_ok_def del: set_map)

lemma base_ok_canceler:
  "base_ok ctx b \<Longrightarrow> map_of (pubCancelers b) t = Some c \<Longrightarrow> \<exists>p\<in>set (publishers b). p_topic p = t \<and> p_context p = c"
  by (simp add: base_ok_def pubs_ok_def)

lemma base_ok_hub_inv: "base_ok ctx b \<Longrightarrow> hub_inv (b_hub b)"
  using hub_run_inv by (auto simp: base_ok_def)

lemma private_ok_hub:
  assumes "base_ok c b" and "private_ok ctx b" and op: "hub_op (b_hub b) N h"
  shows "private_ok ctx (b\<lparr>b_hub := h\<rparr>)"
proof -
  have known: "ctx_known (contexts (b_hub b)) (p_context p)" if "p \<in> set (publishers b)" for p
    using assms(1) that by (simp add: base_ok_def pubs_ok_def)
  have new: "x \<in> set (watchers (b_hub b)) \<or> \<not> ctx_known (contexts (b_hub b)) (sub_cancel x)" if "x \<in> set (watchers h)" for x
    using hub_op_watchers [OF op] that by auto
  have old: "p_context p \<noteq> sub_cancel x" if "p \<in> set (publishers b)" "x \<in> set (watchers h)" for p x
    using assms(2) known [OF that(1)] new [OF that(2)] that(1) by (auto simp: private_ok_def)
  have "c \<notin> cancelled (contexts h)" if tc: "map_of (pubCancelers b) t = Some c" for t c
  proof -
    obtain p where p: "p \<in> set (publishers b)" "p_context p = c" using base_ok_canceler [OF assms(1) tc] by blast
    then have "c \<notin> sub_cancel ` set (watchers (b_hub b))" using assms(2) by (auto simp: private_ok_def)
    moreover have "c \<notin> cancelled (contexts (b_hub b))" using assms(2) tc by (auto simp: private_ok_def)
    ultimately show ?thesis using hub_op_cancelled [OF op base_ok_hub_inv [OF assms(1)]] by blast
  qed
  then show ?thesis using assms(2) old by (simp add: private_ok_def)
qed

lemma private_ok_cancel:
  assumes "private_ok ctx b" and "\<And>t. map_of (pubCancelers b) t \<noteq> Some c"
  shows "private_ok ctx (set_contexts (ctx_cancel c (contexts (b_hub b))) b)"
  using assms by (auto simp: private_ok_def ctx_cancel_def)

lemma CancelPub_private:
  assumes "base_ok c b" and "private_ok ctx b"
  shows "private_ok ctx (CancelPub tp b)"
proof (cases "map_of (pubCancelers b) tp")
  case (Some d)
  let ?b = "b\<lparr>pubCancelers := AList.delete tp (pubCancelers b)\<rparr>"
  have "map_of (pubCancelers ?b) t \<noteq> Some d" for t
  proof
    assume t: "map_of (pubCancelers ?b) t = Some d"
    then have t: "map_of (pubCancelers b) t = Some d" "t \<noteq> tp" by (auto split: if_splits)
    obtain p q where "p \<in> set (publishers b)" "p_topic p = t" "p_context p = d"
        "q \<in> set (publishers b)" "p_topic q = tp" "p_context q = d"
      using base_ok_canceler [OF assms(1) t(1)] base_ok_canceler [OF assms(1) Some] by blast
    moreover from this have "p = q" using assms(1) by (auto simp: base_ok_def pubs_ok_def distinct_map dest: inj_onD)
    ultimately show False using t(2) by simp
  qed
  moreover have "private_ok ctx ?b" using assms(2) by (auto simp: private_ok_def split: if_splits)
  ultimately have "private_ok ctx (set_contexts (ctx_cancel d (contexts (b_hub ?b))) ?b)" by (intro private_ok_cancel)
  moreover have "CancelPub tp b = set_contexts (ctx_cancel d (contexts (b_hub ?b))) ?b"
    using Some by (simp add: CancelPub_def set_contexts_def)
  ultimately show ?thesis by simp
qed (simp add: CancelPub_def assms(2))

lemma TriggerPub_private:
  assumes "base_ok ctx b" and "private_ok ctx b" and "TriggerPub parse hc ctx tp b = Some (Inr (e, b'))"
  shows "private_ok ctx b'"
proof (cases "map_of (pubCancelers b) tp")
  case (Some c)
  then show ?thesis using assms by (simp add: TriggerPub_def go_return_def)
next
  case None
  obtain g d where w: "WithCancel ctx (contexts (b_hub b)) = (g, d)" by fastforce
  have inv: "hub_inv (b_hub b)" by (rule base_ok_hub_inv [OF assms(1)])
  have d: "d = ctx @ [fresh (contexts (b_hub b))]" "cancelled g = cancelled (contexts (b_hub b))"
    using w by (auto simp: WithCancel_def)
  have new: "d \<notin> cancelled (contexts (b_hub b))" using inv fresh_not_cancelled by (auto simp: d hub_inv_def)
  have "\<forall>s\<in>set (watchers (b_hub b)). ctx_known (contexts (b_hub b)) (sub_cancel s)"
    using inv by (auto simp: hub_inv_def watchers_ok_def)
  moreover have "\<not> ctx_known (contexts (b_hub b)) d" by (simp add: d ctx_known_def)
  ultimately have other: "\<forall>s\<in>set (watchers (b_hub b)). d \<noteq> sub_cancel s" by auto
  obtain h c where "b' = (set_contexts g b)\<lparr>pubCancelers := AList.update tp d (pubCancelers b),
      publishers := publishers b @ [\<lparr>p_topic = tp, p_context = d, p_handler = h, p_maker = hc, p_arg = c, p_returned = False\<rparr>]\<rparr>"
    using assms(3) None w by (auto simp: TriggerPub_def Let_def)
  then show ?thesis
    using assms(2) new other unfolding private_ok_def by (auto simp: d(2) simp: d(1) [symmetric] intro: d(1))
qed

lemma serve_added_private:
  "base_ok ctx b \<Longrightarrow> private_ok ctx b \<Longrightarrow> serve_added parse hc ctx tps b = Some (Inr b') \<Longrightarrow> private_ok ctx b'"
proof (induction tps arbitrary: b)
  case (Cons tp tps)
  show ?case
  proof (cases "map_of (pubCancelers b) tp")
    case None
    then obtain b1 where b1: "TriggerPub parse hc ctx tp b = Some (Inr (None, b1))" "base_ok ctx b1"
      using TriggerPub_ok [OF Cons.prems(1)] by metis
    show ?thesis
      using Cons.IH [OF b1(2) TriggerPub_private [OF Cons.prems(1,2) b1(1)]] Cons.prems(3) None b1(1) by simp
  qed (use Cons in simp)
qed (simp add: go_return_def)

lemma fold_CancelPub_private: "base_ok c b \<Longrightarrow> private_ok ctx b \<Longrightarrow> private_ok ctx (fold CancelPub tps b)"
  by (induction tps arbitrary: b) (simp_all add: CancelPub_private CancelPub_ok)

lemma serve_round_private:
  assumes "base_ok ctx b" and "private_ok ctx b" and "serve_round parse hc ctx b = Some (Inr b')"
  shows "private_ok ctx b'"
proof -
  let ?c = "emitted (b_hub b) ! consumed b" and ?b = "b\<lparr>consumed := Suc (consumed b)\<rparr>"
  obtain b1 where b1: "serve_added parse hc ctx (Added ?c) ?b = Some (Inr b1)" "base_ok ctx b1"
    using serve_added_ok [of ctx ?b parse hc "Added ?c"] assms(1) by auto
  have "private_ok ctx b1" using serve_added_private [OF _ _ b1(1)] assms(1,2) by simp
  moreover have "b' = fold CancelPub (Removed ?c) b1"
    using assms(3) b1(1) by (simp add: serve_round_def serve_change_def go_return_def)
  ultimately show ?thesis using fold_CancelPub_private [OF b1(2)] by simp
qed

lemma broker_step_private:
  "broker_step parse hc ctx b b' \<Longrightarrow> broker_inv b \<Longrightarrow> private_ok ctx b \<Longrightarrow> private_ok ctx b'"
proof (induction rule: broker_step.induct)
  case (bs_add name meth tp h ms b r b')
  have "router_inv (b_router b)" using bs_add by (simp add: broker_inv_def base_ok_def)
  note add = broker_Add_router [OF this bs_add(2,1)]
  show ?case using bs_add(4) by (subst add(2)) simp
next
  case (bs_hub b N h)
  show ?case using private_ok_hub [OF _ bs_hub(3,1)] bs_hub(2) by (auto simp: broker_inv_def)
next
  case (bs_subscribe hc' c tp bh b s b')
  from bs_subscribe(1,2) show ?case
  proof (cases rule: broker_Subscribe_hub)
    case (1 l)
    then show ?thesis using bs_subscribe(4) by simp
  next
    case (2 h1 N h2 l us)
    have base: "base_ok Background b" using bs_subscribe(3) by (simp add: broker_inv_def)
    have "private_ok ctx (b\<lparr>b_hub := h1\<rparr>)" by (rule private_ok_hub [OF base bs_subscribe(4) 2(1)])
    then have "private_ok ctx (b\<lparr>b_hub := h2\<rparr>)"
      using private_ok_hub [OF base_ok_hub [OF base hub_op_step [OF 2(1)]]] 2(2) by fastforce
    then show ?thesis using 2(3) by (simp add: private_ok_def)
  qed
next
  case (bs_unsubscriber u b hc' b')
  then obtain b1 where "TriggerUnsub parse hc' (u_context u) (u_topic u) b = Some (Inr b1)"
      "b' = b1\<lparr>unsubscribers := remove1 u (unsubscribers b1)\<rparr>"
    by (auto simp: unsubscriber_run_def)
  then show ?case using TriggerUnsub_fields bs_unsubscriber(5) by (metis private_ok_other_fields(1,2))
next
  case (bs_publisher p b b')
  then show ?case
    by (subst publisher_run_fields [OF bs_publisher(3)]) (use private_ok_returned [where b = "b\<lparr>b_log := b_log b'\<rparr>"] in simp)
next
  case (bs_cancel b c)
  have "map_of (pubCancelers b) t \<noteq> Some c" for t
    using bs_cancel(2,3) base_ok_canceler [of Background b t c] by (auto simp: broker_inv_def)
  then show ?case using private_ok_cancel [OF bs_cancel(4)] by blast
next
  case (bs_serve b b')
  show ?case by (rule serve_round_private [OF broker_inv_ctx [OF bs_serve(4,2)] bs_serve(5,3)])
next
  case (bs_closer b)
  then show ?case using private_ok_hub [OF _ _ op_close] by (auto simp: serve_closer_def broker_inv_def)
qed (simp add: broker_Use_def)

lemma broker_run_private: "broker_run parse hc ctx b \<Longrightarrow> private_ok ctx b"
proof (induction rule: broker_run.induct)
  case br_start
  show ?case by (simp add: private_ok_def NewBroker_def NewHub_def)
next
  case (br_step b b')
  then show ?case using broker_step_private broker_run_inv by blast
qed

text \<open>While \<open>ctx\<close> is not done, the PUB goroutines that are not cancelled are those whose canceler the broker holds.\<close>

lemma broker_run_live:
  assumes "broker_run parse hc ctx b" and "\<not> ctx_Done (contexts (b_hub b)) ctx" and "p \<in> set (publishers b)"
  shows "\<not> ctx_Done (contexts (b_hub b)) (p_context p) \<longleftrightarrow> map_of (pubCancelers b) (p_topic p) = Some (p_context p)"
proof
  have ok: "pubs_ok b" using broker_run_inv [OF assms(1)] by (simp add: broker_inv_def base_ok_def)
  have priv: "private_ok ctx b" by (rule broker_run_private [OF assms(1)])
  show "map_of (pubCancelers b) (p_topic p) = Some (p_context p)" if "\<not> ctx_Done (contexts (b_hub b)) (p_context p)"
    using ok that assms(3) by (auto simp: pubs_ok_def)
  show "\<not> ctx_Done (contexts (b_hub b)) (p_context p)" if "map_of (pubCancelers b) (p_topic p) = Some (p_context p)"
  proof
    assume "ctx_Done (contexts (b_hub b)) (p_context p)"
    then obtain c where c: "c \<in> cancelled (contexts (b_hub b))" "prefix c (p_context p)" by (auto simp: ctx_Done_def)
    obtain n where n: "p_context p = ctx @ [n]" using priv assms(3) by (auto simp: private_ok_def)
    have "c \<noteq> p_context p" using priv that c(1) by (auto simp: private_ok_def)
    then have "prefix c ctx" using c(2) by (auto simp: n prefix_snoc)
    then show False using assms(2) c(1) by (auto simp: ctx_Done_def)
  qed
qed

subsection \<open>A subscription whose SUB handler succeeds\<close>

lemma broker_Subscribe_accepts:
  assumes "prepare parse ctx MethodSub tp b = Some (Inr (h, c))" and "call_handler h (hc c) = Inr (err, c')"
    and "failure err = None" and "broadcastings (b_hub b) \<noteq> None"
  obtains s b' where "broker_Subscribe parse hc ctx tp bh b = Some (Inr (Some s, b'))" "topic s = tp"
    "sub_active (b_hub b') s" "prefix ctx (sub_cancel s)"
    "\<forall>t. t \<noteq> tp \<longrightarrow> hub_lookup (b_hub b') t = hub_lookup (b_hub b) t"
    "\<exists>u\<in>set (unsubscribers b'). u_removed u = s \<and> u_topic u = tp"
proof -
  have trig: "TriggerSub parse hc ctx tp b = Some (Inr (None, b))"
    using assms(1-3) by (simp add: TriggerSub_def run_handler_def log_failure_def go_return_def)
  obtain g d where w: "WithCancel ctx (contexts (b_hub b)) = (g, d)" by fastforce
  let ?h = "(b_hub b)\<lparr>contexts := g\<rparr>"
  obtain h2 s where sub: "hub_Subscribe d tp (broker_receive d bh) ?h = Inr (h2, s)"
    using hub_Subscribe_nil_map [of d tp "broker_receive d bh" ?h] assms(4)
    by (cases "hub_Subscribe d tp (broker_receive d bh) ?h") auto
  define b' where "b' = (set_contexts g b)\<lparr>b_hub := h2,
    unsubscribers := unsubscribers b @ [\<lparr>u_removed = s, u_context = d, u_topic = tp\<rparr>]\<rparr>"
  have run: "broker_Subscribe parse hc ctx tp bh b = Some (Inr (Some s, b'))"
    using trig w sub by (simp add: broker_Subscribe_def b'_def go_return_def)
  from sub have "topic s = tp \<and> sub_active h2 s \<and> prefix ctx (sub_cancel s) \<and>
      (\<forall>t. t \<noteq> tp \<longrightarrow> hub_lookup h2 t = hub_lookup (b_hub b) t)"
  proof (rule hub_SubscribeE)
    assume l: "hub_lookup h2 = (hub_lookup ?h)(tp \<mapsto> the_default [] (hub_lookup ?h tp) @ [s])"
      and s: "s = \<lparr>sid = next_sid ?h, topic = tp, receive = broker_receive d bh, sub_cancel = sub_cancel s\<rparr>"
      and d: "WithCancel d (contexts ?h) = (contexts h2, sub_cancel s)"
    have tp: "topic s = tp" by (subst s) simp
    have "sub_cancel s = d @ [fresh g]" "d = ctx @ [fresh (contexts (b_hub b))]"
      using d w by (auto simp: WithCancel_def)
    then have "prefix ctx (sub_cancel s)" by simp
    then show ?thesis using l tp by (auto simp: sub_active_def)
  qed
  then show thesis using run by (intro that [of s b']) (auto simp: b'_def)
qed

section \<open>A run to evaluate the properties on\<close>

text \<open>A subscription appears on the hub of a new broker and \<^verbatim>\<open>Serve\<close> takes the event.\<close>

definition demo_broker :: "(unit, nat) Broker" where
  "demo_broker = (NewBroker initial_ctxs)\<lparr>b_hub :=
     \<lparr>broadcastings = Some [(''/a'', [\<lparr>sid = 0, topic = ''/a'', receive = (\<lambda>_ _. (None, [])), sub_cancel = [0]\<rparr>])],
      brChanges = True, next_sid = 1,
      watchers = [\<lparr>sid = 0, topic = ''/a'', receive = (\<lambda>_ _. (None, [])), sub_cancel = [0]\<rparr>],
      emitted = [\<lparr>Added = [''/a''], Removed = []\<rparr>], chan_closed = False,
      contexts = \<lparr>cancelled = {}, fresh = 1\<rparr>\<rparr>\<rparr>"

lemma demo_broker_step: "broker_step (\<lambda>_. None) (\<lambda>_. ()) Background (NewBroker initial_ctxs) demo_broker"
proof -
  have "hub_Subscribe Background ''/a'' (\<lambda>_ _. (None, [])) (b_hub (NewBroker initial_ctxs :: (unit, nat) Broker)) =
      Inr (b_hub demo_broker, \<lparr>sid = 0, topic = ''/a'', receive = (\<lambda>_ _. (None, [])), sub_cancel = [0]\<rparr>)"
    by (simp add: hub_Subscribe_def NewHub_def NewBroker_def WithCancel_def initial_ctxs_def Background_def Let_def
        hub_lookup_def store_topic_def send_change_def demo_broker_def)
  from bs_hub [OF op_subscribe [OF this Background_known], of "\<lambda>_. None" "\<lambda>_. ()" Background] show ?thesis
    by (simp add: demo_broker_def)
qed

lemma demo_broker_run: "broker_run (\<lambda>_. None) (\<lambda>_. ()) Background demo_broker"
  by (rule br_step [OF br_start demo_broker_step])

lemma demo_broker_pending:
  "consumed demo_broker < length (emitted (b_hub demo_broker))" "map_of (pubCancelers demo_broker) t = None"
  "brChanges (b_hub demo_broker)" "hub_lookup (b_hub demo_broker) ''/a'' \<noteq> None"
  by (simp_all add: demo_broker_def NewBroker_def hub_lookup_def)

lemma demo_broker_served:
  obtains b where "serve_round (\<lambda>_. None) (\<lambda>_. ()) Background demo_broker = Some (Inr b)"
    "broker_run (\<lambda>_. None) (\<lambda>_. ()) Background b" "consumed b = length (emitted (b_hub b))"
    "dom (map_of (pubCancelers b)) = {''/a''}" "brChanges (b_hub b)" "\<not> ctx_Done (contexts (b_hub b)) Background"
proof -
  have inv: "broker_inv demo_broker" by (rule broker_run_inv [OF demo_broker_run])
  then have "dom (map_of (pubCancelers demo_broker)) = replay (take (consumed demo_broker) (emitted (b_hub demo_broker)))"
    by (simp add: broker_inv_def)
  then obtain b where b: "serve_round (\<lambda>_. None) (\<lambda>_. ()) Background demo_broker = Some (Inr b)"
      "emitted (b_hub b) = emitted (b_hub demo_broker)" "consumed b = Suc (consumed demo_broker)"
      "dom (map_of (pubCancelers b)) = replay (take (consumed b) (emitted (b_hub b)))"
      "brChanges (b_hub b) = brChanges (b_hub demo_broker)"
    by (rule serve_round_ok [OF broker_inv_ctx [OF inv Background_known] demo_broker_pending(1)])
  moreover have "broker_run (\<lambda>_. None) (\<lambda>_. ()) Background b"
    using br_step [OF demo_broker_run bs_serve [OF demo_broker_pending(1) Background_known b(1)]] .
  moreover have "dom (map_of (pubCancelers b)) = {''/a''}"
    using b by (simp add: demo_broker_def NewBroker_def replay_def apply_change_def)
  moreover have "consumed b = length (emitted (b_hub b))" "brChanges (b_hub b)"
    using b demo_broker_pending(3) by (simp_all add: demo_broker_def NewBroker_def)
  moreover have "serve_added (\<lambda>_. None) (\<lambda>_. ()) Background [''/a''] (demo_broker\<lparr>consumed := 1\<rparr>) = Some (Inr b)"
    using b(1) by (auto simp: serve_round_def serve_change_def demo_broker_def NewBroker_def go_return_def simp del: serve_added.simps)
  then have "cancelled (contexts (b_hub b)) = cancelled (contexts (b_hub demo_broker))"
    using serve_added_cancelled by fastforce
  then have "\<not> ctx_Done (contexts (b_hub b)) Background" by (simp add: demo_broker_def ctx_Done_def NewBroker_def)
  ultimately show thesis using that by blast
qed

section \<open>Properties of the broker\<close>

text \<open>
  Middleware wraps a handler in the order it is given: the first of the list is the outermost, an
  empty list leaves the handler alone, and applying two lists in turn is applying their concatenation.
\<close>

theorem applyMiddleware_order:
  "applyMiddleware h [] = h \<and> applyMiddleware h (m # ms) = m (applyMiddleware h ms) \<and>
   applyMiddleware h (ms @ ms') = applyMiddleware (applyMiddleware h ms') ms"
  by (simp add: applyMiddleware_foldr)

text \<open>
  (C1) \<^verbatim>\<open>Serve\<close> keeps what it says: whenever it has taken all events of an open hub and its own context is
  not done, a topic that has a subscription has exactly one PUB goroutine, started for it, whose context
  is not done, and a topic without subscriptions has none: every one that was started for it has been
  cancelled. This holds whatever the interleaving of subscriptions, cancellations, goroutines and
  registrations that led there. Nobody but \<^verbatim>\<open>Serve\<close> cancels the context of a PUB handler, while a handler may
  return on its own.
\<close>

theorem serve_tracks_subscriptions:
  assumes "broker_run parse hc ctx b" and "consumed b = length (emitted (b_hub b))" and "brChanges (b_hub b)"
    and "\<not> ctx_Done (contexts (b_hub b)) ctx"
  shows "length (filter (\<lambda>p. p_topic p = t \<and> \<not> ctx_Done (contexts (b_hub b)) (p_context p)) (publishers b)) =
    (if hub_lookup (b_hub b) t \<noteq> None then 1 else 0)"
proof -
  let ?live = "\<lambda>p. p_topic p = t \<and> \<not> ctx_Done (contexts (b_hub b)) (p_context p)"
  have dom: "hub_lookup (b_hub b) t \<noteq> None \<longleftrightarrow> map_of (pubCancelers b) t \<noteq> None"
    using broker_run_topics [OF assms(1-3)] by (auto simp: dom_def)
  have live: "?live p \<longleftrightarrow> p_topic p = t \<and> map_of (pubCancelers b) t = Some (p_context p)" if "p \<in> set (publishers b)" for p
    using broker_run_live [OF assms(1,4) that] by auto
  have "pubs_ok b" using broker_run_inv [OF assms(1)] by (simp add: broker_inv_def base_ok_def)
  then have dist: "distinct (map p_context (publishers b))" by (simp add: pubs_ok_def)
  show ?thesis
  proof (cases "map_of (pubCancelers b) t")
    case None
    then have "\<not> ?live p" if "p \<in> set (publishers b)" for p using live [OF that] by simp
    then have "filter ?live (publishers b) = []" by (simp add: filter_empty_conv)
    then show ?thesis using dom None by simp
  next
    case (Some c)
    then obtain p where p: "p \<in> set (publishers b)" "p_topic p = t" "p_context p = c"
      using broker_run_canceler [OF assms(1)] by blast
    have "{q. ?live q} \<inter> set (publishers b) = {p}"
    proof (intro set_eqI iffI)
      fix q assume "q \<in> {q. ?live q} \<inter> set (publishers b)"
      then show "q \<in> {p}" using live [of q] Some p dist by (auto simp: distinct_map dest: inj_onD)
    next
      fix q assume "q \<in> {p}"
      then show "q \<in> {q. ?live q} \<inter> set (publishers b)" using live [OF p(1)] Some p by simp
    qed
    then have "length (filter ?live (publishers b)) = 1"
      using dist by (simp add: distinct_map distinct_length_filter)
    then show ?thesis using dom Some by simp
  qed
qed

theorem serve_tracks_subscriptions_witness:
  "\<exists>b :: (unit, nat) Broker. serve_round (\<lambda>_. None) (\<lambda>_. ()) Background demo_broker = Some (Inr b) \<and>
     length (filter (\<lambda>p. p_topic p = ''/a'' \<and> \<not> ctx_Done (contexts (b_hub b)) (p_context p)) (publishers b)) = 1 \<and>
     length (filter (\<lambda>p. p_topic p = ''/b'' \<and> \<not> ctx_Done (contexts (b_hub b)) (p_context p)) (publishers b)) = 0"
proof -
  obtain b where b: "serve_round (\<lambda>_. None) (\<lambda>_. ()) Background demo_broker = Some (Inr b)"
    "broker_run (\<lambda>_. None) (\<lambda>_. ()) Background b" "consumed b = length (emitted (b_hub b))"
    "dom (map_of (pubCancelers b)) = {''/a''}" "brChanges (b_hub b)" "\<not> ctx_Done (contexts (b_hub b)) Background"
    by (rule demo_broker_served)
  have dom: "dom (hub_lookup (b_hub b)) = {''/a''}" using broker_run_topics [OF b(2,3,5)] b(4) by simp
  have "hub_lookup (b_hub b) ''/a'' \<noteq> None" using eqset_imp_iff [OF dom, of "''/a''"] by (auto simp: domIff)
  moreover have "hub_lookup (b_hub b) ''/b'' = None" using eqset_imp_iff [OF dom, of "''/b''"] by (auto simp: domIff)
  ultimately show ?thesis
    using serve_tracks_subscriptions [OF b(2,3,5,6), of "''/a''"]
      serve_tracks_subscriptions [OF b(2,3,5,6), of "''/b''"] b(1)
    by (intro exI [of _ b]) simp
qed

text \<open>
  (C23) At most one PUB handler per topic is live: of the goroutines ever started for a topic, all but the
  one whose canceler the broker holds have a context that is done.
\<close>

theorem at_most_one_live_publisher:
  assumes "broker_run parse hc ctx b" and "p \<in> set (publishers b)" and "q \<in> set (publishers b)"
    and "p_topic p = p_topic q" and "\<not> ctx_Done (contexts (b_hub b)) (p_context p)"
    and "\<not> ctx_Done (contexts (b_hub b)) (p_context q)"
  shows "p = q"
proof -
  have ok: "pubs_ok b" using broker_run_inv [OF assms(1)] by (simp add: broker_inv_def base_ok_def)
  then have "map_of (pubCancelers b) (p_topic p) = Some (p_context p)"
      "map_of (pubCancelers b) (p_topic q) = Some (p_context q)"
    using assms(2,3,5,6) by (auto simp: pubs_ok_def)
  then have "p_context p = p_context q" using assms(4) by simp
  then show ?thesis using ok assms(2,3) by (auto simp: pubs_ok_def distinct_map dest: inj_onD)
qed

theorem at_most_one_live_publisher_witness:
  "\<exists>b :: (unit, nat) Broker. \<exists>p\<in>set (publishers b).
     serve_round (\<lambda>_. None) (\<lambda>_. ()) Background demo_broker = Some (Inr b) \<and> p_topic p = ''/a'' \<and>
     \<not> (\<exists>q\<in>set (publishers b). q \<noteq> p \<and> p_topic q = ''/a'' \<and>
         \<not> ctx_Done (contexts (b_hub b)) (p_context p) \<and> \<not> ctx_Done (contexts (b_hub b)) (p_context q))"
proof -
  obtain b where b: "serve_round (\<lambda>_. None) (\<lambda>_. ()) Background demo_broker = Some (Inr b)"
    "broker_run (\<lambda>_. None) (\<lambda>_. ()) Background b" "dom (map_of (pubCancelers b)) = {''/a''}"
    by (rule demo_broker_served)
  obtain c where "map_of (pubCancelers b) ''/a'' = Some c"
    using eqset_imp_iff [OF b(3), of "''/a''"] by (auto simp: domIff)
  then obtain p where p: "p \<in> set (publishers b)" "p_topic p = ''/a''"
    using broker_run_canceler [OF b(2)] by blast
  have "q = p" if "q \<in> set (publishers b)" "p_topic q = ''/a''" "\<not> ctx_Done (contexts (b_hub b)) (p_context p)"
      "\<not> ctx_Done (contexts (b_hub b)) (p_context q)" for q
    by (rule at_most_one_live_publisher [OF b(2) that(1) p(1) _ that(4,3)]) (simp add: p(2) that(2))
  then show ?thesis using b(1) p by blast
qed




text \<open>
  Subscribing through the broker runs the SUB handler first. If it fails, with an error that is not
  a cancellation, nothing is subscribed, the error is logged and the nil channel is returned; otherwise
  the hub holds a new subscription on the topic, every other topic is as before, a goroutine waits to
  trigger the UNSUB handler when the subscription is removed, and cancelling the caller's context
  closes the returned channel.
\<close>

theorem broker_Subscribe_outcome:
  assumes "prepare parse ctx MethodSub tp b = Some (Inr (h, c))" and "call_handler h (hc c) = Inr (err, c')"
    and "broadcastings (b_hub b) \<noteq> None"
  shows "case failure err of
      Some e \<Rightarrow>
        (\<exists>b'. broker_Subscribe parse hc ctx tp bh b = Some (Inr (None, b')) \<and> b_hub b' = b_hub b \<and>
          unsubscribers b' = unsubscribers b \<and>
          b_log b' = b_log b @ [Wrapped ''couldn't trigger sub handler on topic %s'' e])
    | None \<Rightarrow>
        (\<exists>s b'. broker_Subscribe parse hc ctx tp bh b = Some (Inr (Some s, b')) \<and> topic s = tp \<and>
          sub_active (b_hub b') s \<and> (\<forall>t. t \<noteq> tp \<longrightarrow> hub_lookup (b_hub b') t = hub_lookup (b_hub b) t) \<and>
          (\<exists>u\<in>set (unsubscribers b'). u_removed u = s \<and> u_topic u = tp) \<and>
          (\<forall>g. ctx_Done g ctx \<longrightarrow> ctx_Done g (sub_cancel s)))"
proof (cases "failure err")
  case (Some e)
  then show ?thesis
    using assms(1,2)
    by (simp add: broker_Subscribe_def TriggerSub_def run_handler_def log_failure_def go_return_def)
next
  case None
  obtain s b' where "broker_Subscribe parse hc ctx tp bh b = Some (Inr (Some s, b'))"
      "topic s = tp" "sub_active (b_hub b') s" "prefix ctx (sub_cancel s)"
      "\<forall>t. t \<noteq> tp \<longrightarrow> hub_lookup (b_hub b') t = hub_lookup (b_hub b) t"
      "\<exists>u\<in>set (unsubscribers b'). u_removed u = s \<and> u_topic u = tp"
    by (rule broker_Subscribe_accepts [where bh = bh and hc = hc, OF assms(1,2) None assms(3)])
  then show ?thesis
    using None by (auto simp: ctx_Done_def intro: prefix_order.trans)
qed

theorem broker_Subscribe_outcome_witness:
  "\<exists>s b'. broker_Subscribe (\<lambda>_. None) (\<lambda>_. ()) Background ''/a'' (\<lambda>_ _. None)
      (broker_Use [\<lambda>_. Some (\<lambda>c. Inr (None, c))] (NewBroker initial_ctxs :: (unit, nat) Broker)) = Some (Inr (Some s, b')) \<and>
    topic s = ''/a'' \<and> sub_active (b_hub b') s"
proof -
  let ?b = "broker_Use [\<lambda>_. Some (\<lambda>c. Inr (None, c))] (NewBroker initial_ctxs :: (unit, nat) Broker)"
  have "router_inv (b_router ?b)" by (simp add: broker_Use_def NewBroker_def router_inv_New)
  then obtain h c where p: "prepare (\<lambda>_. None) Background MethodSub ''/a'' ?b = Some (Inr (h, c))"
    by (rule prepare_total)
  then have "h = Some (\<lambda>c. Inr (None, c))"
    by (auto simp: prepare_def GetHandler_def broker_Use_def NewBroker_def applyMiddleware_foldr Let_def go_return_def)
  then have call: "call_handler h () = Inr (None, ())" by (simp add: call_handler_def)
  have "broadcastings (b_hub ?b) \<noteq> None" by (simp add: broker_Use_def NewBroker_def NewHub_def)
  from broker_Subscribe_outcome [where hc = "\<lambda>_. ()", OF p call this, of "\<lambda>_ _. None"] show ?thesis
    by (auto simp: failure_def)
qed

end
