(* ===== verification/Delivery.thy ===== *)
theory Delivery
  imports HubLock Broker "HOL-Library.Multiset"
begin

text \<open>
  Delivery: what a \<^verbatim>\<open>Broadcast\<close> on the hub has handed to which subscription when it returns, and the accessors of
  \<^verbatim>\<open>src/pubsub/broker-context.go\<close> through which handlers publish.
\<close>

section \<open>Publishing from a handler\<close>

text \<open>The calls of the hub's \<^verbatim>\<open>Broadcast\<close> that a handler's context makes, as the point where the goroutine enters it.\<close>

definition bctx_Broadcast :: "'c BrokerContext \<Rightarrow> string \<Rightarrow> 'm list \<Rightarrow> 'm list pc" where
  "bctx_Broadcast c tp messages = WaitRLock tp messages"

definition bctx_Publish :: "'c BrokerContext \<Rightarrow> 'm list \<Rightarrow> 'm list pc" where
  "bctx_Publish c messages = WaitRLock (bc_topic c) messages"

section \<open>Deliveries of a run\<close>

text \<open>The receivers that finished between two points of a goroutine, with the message they were given.\<close>

fun finished :: "'m pc \<Rightarrow> 'm pc \<Rightarrow> ('m subscription \<times> 'm) multiset" where
  "finished (Receiving msg todo failed) (Receiving msg' todo' failed') =
     image_mset (\<lambda>x. (x, msg)) (mset todo - mset todo')"
| "finished p q = {#}"

fun deliveries :: "nat \<Rightarrow> 'm hub_threads list \<Rightarrow> ('m subscription \<times> 'm) multiset" where
  "deliveries i (s # t # ss) = finished (pcs s i) (pcs t i) + deliveries i (t # ss)"
| "deliveries i ss = {#}"

definition subscribers :: "'m hub \<Rightarrow> string \<Rightarrow> 'm subscription list" where
  "subscribers h t = (case hub_lookup h t of None \<Rightarrow> [] | Some br \<Rightarrow> br)"

lemma step_Receiving:
  assumes "lock_step s t" and "pcs s i = Receiving msg todo failed"
  shows "frozen (the_hub s) (the_hub t) \<and>
    ((\<exists>todo' failed'. pcs t i = Receiving msg todo' failed' \<and> mset todo' \<subseteq># mset todo) \<or>
     todo = [] \<and> (pcs t i = Outside \<or> (\<exists>f. pcs t i = BroadcastUnsub f)))"
proof -
  have "frozen (the_hub s) (the_hub t)" by (rule lock_step_frozen [OF assms(1), of i]) (simp add: assms(2))
  with assms show ?thesis
  proof (induction rule: lock_step.induct)
    case (receive_done s j msg' ys x zs failed' err cs)
    then show ?case by (cases "i = j") auto
  next
    case (broadcast_ok s j msg')
    then show ?case by (cases "i = j") auto
  next
    case (broadcast_failed s j msg' failed')
    then show ?case by (cases "i = j") auto
  qed (auto split: if_splits)
qed

lemma step_BroadcastUnsub:
  assumes "lock_step s t" and "pcs s i = BroadcastUnsub f"
  shows "pcs t i = BroadcastUnsub f"
  using assms
proof (induction rule: lock_step.induct)
  case (broadcast_unsub s j f')
  then show ?case by (metis holds_read.simps(2))
qed (auto split: if_splits)

lemma step_WaitRLock:
  assumes "lock_step s t" and "pcs s i = WaitRLock tp msg"
  shows "pcs t i = WaitRLock tp msg \<or>
    pcs t i = Outside \<and> subscribers (the_hub t) tp = [] \<or>
    pcs t i = Receiving msg (subscribers (the_hub t) tp) []"
  using assms
  by (induction rule: lock_step.induct) (auto simp: subscribers_def split: if_splits)

lemma unsub_never_outside:
  "successively lock_step (s # ss) \<Longrightarrow> pcs s i = BroadcastUnsub f \<Longrightarrow> u \<in> set (s # ss) \<Longrightarrow> pcs u i = BroadcastUnsub f"
  by (induction ss arbitrary: s) (auto dest: step_BroadcastUnsub)

lemma deliveries_Outside:
  "\<forall>u\<in>set (butlast ss). pcs u i \<noteq> Outside \<Longrightarrow> ss \<noteq> [] \<Longrightarrow> pcs (hd ss) i = Outside \<Longrightarrow> ss = [hd ss]"
  by (cases ss) (auto split: if_splits)

lemma deliveries_Receiving:
  assumes "successively lock_step (s # ss)" and "pcs s i = Receiving msg todo failed"
    and "\<forall>u\<in>set (butlast ss). pcs u i \<noteq> Outside" and "ss \<noteq> []" and "pcs (last ss) i = Outside"
  shows "deliveries i (s # ss) = image_mset (\<lambda>x. (x, msg)) (mset todo) \<and> frozen (the_hub s) (the_hub (last ss))"
  using assms
proof (induction ss arbitrary: s todo failed)
  case (Cons t ss)
  have step: "lock_step s t" and path: "successively lock_step (t # ss)"
    using Cons.prems(1) by auto
  consider (more) todo' failed' where "pcs t i = Receiving msg todo' failed'" "mset todo' \<subseteq># mset todo"
    | (out) "todo = []" "pcs t i = Outside" | (unsub) f where "pcs t i = BroadcastUnsub f"
    using step_Receiving [OF step Cons.prems(2)] by blast
  then show ?case
  proof cases
    case more
    then have ne: "ss \<noteq> []" using Cons.prems(5) by auto
    then have "deliveries i (t # ss) = image_mset (\<lambda>x. (x, msg)) (mset todo') \<and> frozen (the_hub t) (the_hub (last ss))"
      using Cons.IH [OF path more(1)] Cons.prems(3,5) by auto
    moreover have "image_mset (\<lambda>x. (x, msg)) (mset todo - mset todo') + image_mset (\<lambda>x. (x, msg)) (mset todo') =
        image_mset (\<lambda>x. (x, msg)) (mset todo)"
      using more(2) by (metis image_mset_union subset_mset.diff_add)
    ultimately show ?thesis
      using Cons.prems(2) more(1) ne step_Receiving [OF step Cons.prems(2)] frozen_trans by fastforce
  next
    case out
    then have "ss = []" using deliveries_Outside [OF Cons.prems(3)] by simp
    with out Cons.prems(2) show ?thesis using step_Receiving [OF step Cons.prems(2)] by simp
  next
    case unsub
    have "last (t # ss) \<in> set (t # ss)" by (rule last_in_set) simp
    then show ?thesis using unsub_never_outside [OF path unsub] Cons.prems(5) by fastforce
  qed
qed simp

lemma Broadcast_delivers:
  assumes "successively lock_step (s # ss)" and "pcs s i = WaitRLock tp msg"
    and "\<forall>u\<in>set (butlast ss). pcs u i \<noteq> Outside" and "ss \<noteq> []" and "pcs (last ss) i = Outside"
  shows "deliveries i (s # ss) = image_mset (\<lambda>x. (x, msg)) (mset (subscribers (the_hub (last ss)) tp))"
  using assms
proof (induction ss arbitrary: s)
  case (Cons t ss)
  have step: "lock_step s t" and path: "successively lock_step (t # ss)"
    using Cons.prems(1) by auto
  consider (wait) "pcs t i = WaitRLock tp msg" | (skip) "pcs t i = Outside" "subscribers (the_hub t) tp = []"
    | (start) "pcs t i = Receiving msg (subscribers (the_hub t) tp) []"
    using step_WaitRLock [OF step Cons.prems(2)] by blast
  then show ?case
  proof cases
    case wait
    then have ne: "ss \<noteq> []" using Cons.prems(5) by auto
    with Cons.IH [OF path wait] Cons.prems show ?thesis by auto
  next
    case skip
    then have "ss = []" using deliveries_Outside [OF Cons.prems(3)] by simp
    with skip Cons.prems(2) show ?thesis by simp
  next
    case start
    then have ne: "ss \<noteq> []" using Cons.prems(5) by auto
    with deliveries_Receiving [OF path start] Cons.prems show ?thesis by (auto simp: subscribers_def frozen_lookup)
  qed
qed simp

text \<open>
  (C10) When a \<^verbatim>\<open>Broadcast\<close> returns, it has handed its message to every subscription that the topic has at that time exactly
  once, and to no other, whatever the other goroutines did since the call.
\<close>

theorem Broadcast_delivers_once:
  assumes "successively lock_step (s # ss)" and "pcs s i = WaitRLock tp msg"
    and "\<forall>u\<in>set (butlast ss). pcs u i \<noteq> Outside" and "ss \<noteq> []" and "pcs (last ss) i = Outside"
  shows "deliveries i (s # ss) = image_mset (\<lambda>x. (x, msg)) (mset (subscribers (the_hub (last ss)) tp))"
  by (rule Broadcast_delivers [OF assms])

text \<open>
  (C3) Hub and lock together: in any run of the hub, a subscription on the topic whose context is not done when a
  \<^verbatim>\<open>Broadcast\<close> returns has received the message exactly once.
\<close>

theorem live_subscriber_receives_once:
  assumes "successively lock_step (s # ss)" and "pcs s i = WaitRLock (topic x) msg"
    and "\<forall>u\<in>set (butlast ss). pcs u i \<noteq> Outside" and "ss \<noteq> []" and "pcs (last ss) i = Outside"
    and "hub_run w (the_hub (last ss)) S" and "x \<in> S" and "\<not> ctx_Done (contexts (the_hub (last ss))) (sub_cancel x)"
  shows "count (deliveries i (s # ss)) (x, msg) = 1"
proof -
  let ?h = "the_hub (last ss)"
  obtain br where br: "hub_lookup ?h (topic x) = Some br" "x \<in> set br"
    using hub_run_ended [OF assms(6,7)] assms(8) by (auto simp: sub_active_def)
  have "distinct br"
    using hub_inv_topic [OF hub_run_inv [OF assms(6)] br(1)] by (auto simp: topic_ok_def distinct_map)
  moreover have "count (image_mset (\<lambda>x. (x, msg)) (mset br)) (x, msg) = count (mset br) x"
    by (induction br) auto
  ultimately show ?thesis
    using Broadcast_delivers [OF assms(1-5)] br by (simp add: subscribers_def distinct_count_atmost_1)
qed

definition demo_waiting :: "nat hub_threads" where
  "demo_waiting = \<lparr>the_hub = demo_hub, pcs = (\<lambda>_. Outside)(0 := WaitRLock ''/a'' 7)\<rparr>"

definition demo_path :: "nat hub_threads list" where
  "demo_path = [demo_waiting, demo_waiting\<lparr>pcs := (\<lambda>_. Outside)(0 := Receiving 7 [demo_sub] [])\<rparr>,
     demo_waiting\<lparr>pcs := (\<lambda>_. Outside)(0 := Receiving 7 [] [])\<rparr>, demo_waiting\<lparr>pcs := \<lambda>_. Outside\<rparr>]"

lemma demo_path_Cons: "demo_path = demo_waiting # tl demo_path"
  by (simp add: demo_path_def)

lemma demo_lookup: "hub_lookup (the_hub demo_waiting) ''/a'' = Some [demo_sub]"
  by (simp add: demo_waiting_def demo_hub_def hub_lookup_def)

lemma demo_path_steps: "successively lock_step demo_path"
proof -
  let ?s1 = "demo_waiting\<lparr>pcs := (\<lambda>_. Outside)(0 := Receiving 7 [demo_sub] [])\<rparr>"
  let ?s2 = "demo_waiting\<lparr>pcs := (\<lambda>_. Outside)(0 := Receiving 7 [] [])\<rparr>"
  have "lock_step demo_waiting ?s1"
    using broadcast_start [of demo_waiting 0 "''/a''" 7 "[demo_sub]"] demo_lookup by (simp add: demo_waiting_def)
  moreover have "lock_step ?s1 ?s2"
    using receive_done [of ?s1 0 7 "[]" demo_sub "[]" "[]" None "[]"] by (simp add: demo_sub_def demo_waiting_def)
  moreover have "lock_step ?s2 (demo_waiting\<lparr>pcs := \<lambda>_. Outside\<rparr>)"
    using broadcast_ok [of ?s2 0 7] by (simp add: fun_upd_idem)
  ultimately show ?thesis by (simp add: demo_path_def)
qed

theorem Broadcast_delivers_once_witness:
  "deliveries 0 demo_path = {# (demo_sub, 7) #}"
proof -
  have "deliveries 0 (demo_waiting # tl demo_path) =
      image_mset (\<lambda>x. (x, 7)) (mset (subscribers (the_hub (last (tl demo_path))) ''/a''))"
    by (rule Broadcast_delivers_once)
      (use demo_path_steps in \<open>simp_all add: demo_path_def demo_waiting_def\<close>)
  then show ?thesis using demo_lookup by (simp add: demo_path_def subscribers_def)
qed

lemma demo_path_facts:
  "successively lock_step (demo_waiting # tl demo_path)" "pcs demo_waiting 0 = WaitRLock (topic demo_sub) 7"
  "\<forall>u\<in>set (butlast (tl demo_path)). pcs u 0 \<noteq> Outside" "tl demo_path \<noteq> []" "pcs (last (tl demo_path)) 0 = Outside"
  "the_hub (last (tl demo_path)) = demo_hub" "\<not> ctx_Done (contexts demo_hub) (sub_cancel demo_sub)"
  using demo_path_steps demo_path_Cons
  by (simp_all add: demo_path_def demo_waiting_def demo_sub_def) (simp add: demo_hub_def ctx_Done_def)

theorem live_subscriber_receives_once_witness:
  "count (deliveries 0 demo_path) (demo_sub, 7) = 1"
  using live_subscriber_receives_once [OF demo_path_facts(1-5), of True "{demo_sub}"] demo_path_facts(6,7) demo_run
    demo_path_Cons by simp

section \<open>A subscription that has ended but is still listed\<close>

lemma broker_Subscribe_receiver:
  assumes "broker_Subscribe parse hc ctx tp bh b = Some (Inr (Some x, b'))"
  obtains cctx where "receive x = broker_receive cctx bh" "prefix ctx cctx"
proof -
  obtain b1 where b1: "TriggerSub parse hc ctx tp b = Some (Inr (None, b1))"
    using assms by (auto simp: broker_Subscribe_def split: if_splits)
  obtain g d where w: "WithCancel ctx (contexts (b_hub b1)) = (g, d)" by fastforce
  obtain h where sub: "hub_Subscribe d tp (broker_receive d bh) ((b_hub b1)\<lparr>contexts := g\<rparr>) = Inr (h, x)"
    using assms b1 w by (auto simp: broker_Subscribe_def Let_def split: sum.splits)
  have "prefix ctx d" using w by (auto simp: WithCancel_def)
  from sub show thesis
  proof (rule hub_SubscribeE)
    assume "x = \<lparr>sid = next_sid ((b_hub b1)\<lparr>contexts := g\<rparr>), topic = tp, receive = broker_receive d bh, sub_cancel = sub_cancel x\<rparr>"
    then have "receive x = broker_receive d bh" by (metis subscription.select_convs(3))
    then show thesis using \<open>prefix ctx d\<close> by (rule that)
  qed
qed

lemma broker_receive_failing:
  assumes "receive x = broker_receive cctx bh" and "ctx_Done g cctx" and "x \<in> set todo"
  shows "failing msg g todo \<noteq> []"
proof -
  have "fst (receive x msg g') \<noteq> None" if "ctx_later g g'" for g'
    using that assms(1,2) by (simp add: broker_receive_def ctx_later_def ctx_Err_def)
  then have "x \<in> set (failing msg g todo)" using assms(3) by (simp add: failing_def)
  then show ?thesis by auto
qed

text \<open>
  A subscription that is cancelled but not yet removed deadlocks the hub: if the receivers of a \<^verbatim>\<open>Broadcast\<close> that
  are still to finish contain one that \<^verbatim>\<open>Subscribe\<close> of the broker made, and the context given to \<^verbatim>\<open>Subscribe\<close> is
  done, then this \<^verbatim>\<open>Broadcast\<close> never returns: for ever after it holds the read lock and the hub's state but for the
  contexts stays as it is. The goroutine that would remove the subscription waits for the write lock. So an ordinary
  end of a subscription is enough, when a \<^verbatim>\<open>Broadcast\<close> on its topic begins before the hub has removed it.
\<close>

theorem cancelled_subscription_deadlocks:
  assumes "broker_Subscribe parse hc ctx tp bh b = Some (Inr (Some x, b'))"
    and "pcs s i = Receiving msg todo failed" and "x \<in> set todo" and "ctx_Done (contexts (the_hub s)) ctx"
  shows "\<forall>t. lock_steps s t \<longrightarrow> pcs t i \<noteq> Outside \<and> holds_read (pcs t i) \<and>
    (the_hub t)\<lparr>contexts := contexts (the_hub s)\<rparr> = the_hub s"
proof (intro allI impI)
  fix t assume run: "lock_steps s t"
  obtain cctx where c: "receive x = broker_receive cctx bh" "prefix ctx cctx"
    by (rule broker_Subscribe_receiver [OF assms(1)])
  have "ctx_Done (contexts (the_hub s)) cctx"
    using assms(4) c(2) by (auto simp: ctx_Done_def intro: prefix_order.trans)
  then have "doomed (contexts (the_hub s)) msg (pcs s i)"
    using assms(2) broker_receive_failing [OF c(1) _ assms(3)] by (auto simp: doomed_def)
  from lock_steps_doomed [OF run this ctx_later_refl] have d: "holds_read (pcs t i)" and f: "frozen (the_hub s) (the_hub t)"
    by (blast dest: doomed_reads)+
  show "pcs t i \<noteq> Outside \<and> holds_read (pcs t i) \<and> (the_hub t)\<lparr>contexts := contexts (the_hub s)\<rparr> = the_hub s"
    using d f by (auto simp: frozen_iff)
qed

theorem cancelled_subscription_deadlocks_witness:
  "\<exists>x b'. broker_Subscribe (\<lambda>_. None) (\<lambda>_. ()) [0] ''/a'' (\<lambda>_ _. None)
      (broker_Use [\<lambda>_. Some (\<lambda>c. Inr (None, c))] (NewBroker \<lparr>cancelled = {}, fresh = 1\<rparr> :: (unit, nat) Broker)) = Some (Inr (Some x, b')) \<and>
    \<not> (\<exists>t. lock_steps \<lparr>the_hub = (b_hub b')\<lparr>contexts := ctx_cancel [0] (contexts (b_hub b'))\<rparr>,
         pcs = (\<lambda>_. Outside)(3 := Receiving [7] [x] [])\<rparr> t \<and> pcs t 3 = Outside)"
proof -
  let ?b = "broker_Use [\<lambda>_. Some (\<lambda>c. Inr (None, c))] (NewBroker \<lparr>cancelled = {}, fresh = 1\<rparr> :: (unit, nat) Broker)"
  have "router_inv (b_router ?b)" by (simp add: broker_Use_def NewBroker_def router_inv_New)
  then obtain h c where p: "prepare (\<lambda>_. None) [0] MethodSub ''/a'' ?b = Some (Inr (h, c))"
    by (rule prepare_total)
  then have "h = Some (\<lambda>c. Inr (None, c))"
    by (auto simp: prepare_def GetHandler_def broker_Use_def NewBroker_def applyMiddleware_foldr Let_def go_return_def)
  then have call: "call_handler h () = Inr (None, ())" by (simp add: call_handler_def)
  have "broadcastings (b_hub ?b) \<noteq> None" by (simp add: broker_Use_def NewBroker_def NewHub_def)
  then obtain x b' where x: "broker_Subscribe (\<lambda>_. None) (\<lambda>_. ()) [0] ''/a'' (\<lambda>_ _. None) ?b = Some (Inr (Some x, b'))"
    using broker_Subscribe_accepts [where hc = "\<lambda>_. ()" and bh = "\<lambda>_ _. None", OF p call _] by (metis failure_def option.simps(4))
  let ?s = "\<lparr>the_hub = (b_hub b')\<lparr>contexts := ctx_cancel [0] (contexts (b_hub b'))\<rparr>,
         pcs = (\<lambda>_. Outside)(3 := Receiving [7] [x] [])\<rparr>"
  have "ctx_Done (contexts (the_hub ?s)) [0]" by simp
  from cancelled_subscription_deadlocks [OF x _ _ this, of 3 "[7]" "[x]" "[]"] show ?thesis
    using x by (intro exI [of _ x] exI [of _ b']) auto
qed

end
