(* ===== verification/Handshake.thy ===== *)
theory Handshake
  imports HubLock Broker
begin

text \<open>
  The hub and \<^verbatim>\<open>Broker.Serve\<close> (\<^verbatim>\<open>src/pubsub/hub.go\<close>, \<^verbatim>\<open>src/pubsub/broker.go\<close>) meet on an unbuffered channel: a
  method of the hub that reports a change waits at \<^verbatim>\<open>h.brChanges <- ...\<close>, with the write lock held, until
  \<^verbatim>\<open>Serve\<close> takes the event. Theory \<open>Broker\<close> lets the events queue up; here at most one of them is under way at a time.
  The readers of the lock are the calls of \<^verbatim>\<open>Broadcast\<close>, at the points of theory \<open>HubLock\<close>: a step that takes the
  write lock waits until none of them holds the read lock and nobody is at a send.
\<close>

section \<open>The channel and the loop\<close>

text \<open>
  Where \<^verbatim>\<open>Serve\<close> is: not called yet, waiting in \<^verbatim>\<open>range b.changes\<close>, in the body of the loop, or returned. \<open>at_send\<close>
  says that a goroutine is at its send, and so holds the write lock; the event is the last one of \<open>emitted\<close>.
\<close>

datatype serve_pc = NotServing | Ranging | Handling | Returned "error option"

record ('c, 'm) managed =
  m_broker :: "('c, 'm) Broker"
  at_send :: bool
  m_serve :: serve_pc
  m_readers :: "nat \<Rightarrow> 'm list pc"

text \<open>Steps that leave the hub alone do not need the lock; contexts have locks of their own.\<close>

definition same_hub :: "('c, 'm) Broker \<Rightarrow> ('c, 'm) Broker \<Rightarrow> bool" where
  "same_hub b b' \<longleftrightarrow> b_hub b' = (b_hub b)\<lparr>contexts := contexts (b_hub b')\<rparr>"

text \<open>
  \<open>ms_locked\<close> and \<open>ms_send\<close> are the steps of methods that take the write lock, without and with an event to send. In
  \<open>ms_receive\<close>, a receiver of a \<^verbatim>\<open>Broadcast\<close> returns; the contexts it may cancel are those whose cancel functions it can
  have, so no context of a PUB handler.
\<close>

inductive managed_step ::
  "(string \<Rightarrow> string option) \<Rightarrow> ('c BrokerContext \<Rightarrow> 'c) \<Rightarrow> ctx \<Rightarrow> ('c, 'm) managed \<Rightarrow> ('c, 'm) managed \<Rightarrow> bool"
  for parse hc ctx where
  ms_serve: "m_serve s = NotServing \<Longrightarrow> ctx_known (contexts (b_hub (m_broker s))) ctx \<Longrightarrow>
    managed_step parse hc ctx s (s\<lparr>m_serve := Ranging\<rparr>)"
| ms_unlocked: "broker_step parse hc ctx (m_broker s) b \<Longrightarrow> consumed b = consumed (m_broker s) \<Longrightarrow>
    same_hub (m_broker s) b \<Longrightarrow> managed_step parse hc ctx s (s\<lparr>m_broker := b\<rparr>)"
| ms_locked: "\<not> at_send s \<Longrightarrow> \<forall>j. \<not> holds_read (m_readers s j) \<Longrightarrow>
    broker_step parse hc ctx (m_broker s) b \<Longrightarrow> consumed b = consumed (m_broker s) \<Longrightarrow>
    emitted (b_hub b) = emitted (b_hub (m_broker s)) \<Longrightarrow> managed_step parse hc ctx s (s\<lparr>m_broker := b\<rparr>)"
| ms_send: "\<not> at_send s \<Longrightarrow> \<forall>j. \<not> holds_read (m_readers s j) \<Longrightarrow>
    broker_step parse hc ctx (m_broker s) b \<Longrightarrow> consumed b = consumed (m_broker s) \<Longrightarrow>
    emitted (b_hub b) = emitted (b_hub (m_broker s)) @ [change] \<Longrightarrow>
    managed_step parse hc ctx s (s\<lparr>m_broker := b, at_send := True\<rparr>)"
| ms_take: "at_send s \<Longrightarrow> m_serve s = Ranging \<Longrightarrow>
    managed_step parse hc ctx s (s\<lparr>at_send := False, m_serve := Handling\<rparr>)"
| ms_handle: "m_serve s = Handling \<Longrightarrow> serve_round parse hc ctx (m_broker s) = Some (Inr b) \<Longrightarrow>
    managed_step parse hc ctx s (s\<lparr>m_broker := b, m_serve := Ranging\<rparr>)"
| ms_return: "m_serve s = Ranging \<Longrightarrow> \<not> at_send s \<Longrightarrow> chan_closed (b_hub (m_broker s)) \<Longrightarrow>
    managed_step parse hc ctx s (s\<lparr>m_serve := Returned (ctx_Err (contexts (b_hub (m_broker s))) ctx)\<rparr>)"
| ms_broadcast: "m_readers s i = Outside \<Longrightarrow>
    managed_step parse hc ctx s (s\<lparr>m_readers := (m_readers s)(i := WaitRLock tp msg)\<rparr>)"
| ms_skip: "m_readers s i = WaitRLock tp msg \<Longrightarrow> \<not> at_send s \<Longrightarrow> hub_lookup (b_hub (m_broker s)) tp = None \<Longrightarrow>
    managed_step parse hc ctx s (s\<lparr>m_readers := (m_readers s)(i := Outside)\<rparr>)"
| ms_start: "m_readers s i = WaitRLock tp msg \<Longrightarrow> \<not> at_send s \<Longrightarrow> hub_lookup (b_hub (m_broker s)) tp = Some br \<Longrightarrow>
    managed_step parse hc ctx s (s\<lparr>m_readers := (m_readers s)(i := Receiving msg br [])\<rparr>)"
| ms_receive: "m_readers s i = Receiving msg (ys @ x # zs) failed \<Longrightarrow>
    receive x msg (contexts (b_hub (m_broker s))) = (err, cs) \<Longrightarrow>
    \<forall>c\<in>set cs. ctx_known (contexts (b_hub (m_broker s))) c \<and> c \<notin> p_context ` set (publishers (m_broker s)) \<Longrightarrow>
    managed_step parse hc ctx s
      (s\<lparr>m_broker := set_contexts (fold ctx_cancel cs (contexts (b_hub (m_broker s)))) (m_broker s),
         m_readers := (m_readers s)(i := Receiving msg (ys @ zs) (if err = None then failed else failed @ [x]))\<rparr>)"
| ms_done: "m_readers s i = Receiving msg [] [] \<Longrightarrow>
    managed_step parse hc ctx s (s\<lparr>m_readers := (m_readers s)(i := Outside)\<rparr>)"
| ms_failed: "m_readers s i = Receiving msg [] failed \<Longrightarrow> failed \<noteq> [] \<Longrightarrow>
    managed_step parse hc ctx s (s\<lparr>m_readers := (m_readers s)(i := BroadcastUnsub failed)\<rparr>)"
| ms_unsub: "m_readers s i = BroadcastUnsub failed \<Longrightarrow> \<not> at_send s \<Longrightarrow> \<forall>j. \<not> holds_read (m_readers s j) \<Longrightarrow>
    h = hub_unsubscribe failed (b_hub (m_broker s)) \<Longrightarrow>
    managed_step parse hc ctx s
      (s\<lparr>m_broker := (m_broker s)\<lparr>b_hub := h\<rparr>, at_send := (emitted h \<noteq> emitted (b_hub (m_broker s))),
         m_readers := (m_readers s)(i := Outside)\<rparr>)"

definition managed_start :: "('c, 'm) managed" where
  "managed_start = \<lparr>m_broker = NewBroker initial_ctxs, at_send = False, m_serve = NotServing, m_readers = \<lambda>_. Outside\<rparr>"

definition managed_run ::
  "(string \<Rightarrow> string option) \<Rightarrow> ('c BrokerContext \<Rightarrow> 'c) \<Rightarrow> ctx \<Rightarrow> ('c, 'm) managed \<Rightarrow> bool" where
  "managed_run parse hc ctx s \<longleftrightarrow> (managed_step parse hc ctx)\<^sup>*\<^sup>* managed_start s"

section \<open>One event per operation\<close>

text \<open>
  A hub that is open has not closed its channel. A step leaves the channel open and sends at most one event on it, or
  it closes the channel without an event.
\<close>

definition event_ok :: "'m hub \<Rightarrow> 'm hub \<Rightarrow> bool" where
  "event_ok h h' \<longleftrightarrow>
     emitted h' = emitted h \<and> (chan_closed h' = chan_closed h \<and> brChanges h' = brChanges h \<or>
        \<not> brChanges h' \<and> chan_closed h' = (brChanges h \<or> chan_closed h)) \<or>
     (\<exists>change. emitted h' = emitted h @ [change]) \<and> brChanges h \<and> brChanges h' \<and> chan_closed h' = chan_closed h"

lemma hub_step_event:
  assumes "hub_step h N h'" and "hub_inv h"
  shows "event_ok h h'"
  using assms unfolding event_ok_def
proof (induction rule: hub_step.induct)
  case (step_subscribe c t rcv h h' s)
  have "chan_closed h' = chan_closed h" using step_subscribe(1)
    by (auto simp: hub_Subscribe_def Let_def WithCancel_def store_topic_def send_change_def split: if_splits)
  moreover from step_subscribe(1) have "brChanges h' = brChanges h \<and> emitted h' =
      emitted h @ (if brChanges h \<and> hub_lookup h t = None then [\<lparr>Added = [t], Removed = []\<rparr>] else [])"
    by (rule hub_SubscribeE) simp
  ultimately show ?case by simp
next
  case (step_cancel h ts)
  have "chan_closed (hub_Cancel_loop ts h) = chan_closed h"
    by (induction ts h rule: hub_Cancel_loop.induct)
      (auto simp: cancel_subs_def delete_topic_def split: option.split)
  then have "chan_closed (hub_Cancel ts h) = chan_closed h"
    by (simp add: hub_Cancel_def Let_def send_change_def)
  then show ?case by (simp add: hub_Cancel_emitted)
next
  case (step_close h)
  show ?case by (simp add: hub_Close_def Let_def cancel_subs_def)
next
  case (step_watcher s h)
  have "chan_closed (fst (hub_unsubscribe_loop ss r h)) = chan_closed h" for ss r
    by (induction ss arbitrary: r h)
      (simp_all add: hub_unsubscribe_loop_Cons unsub_turn_def cancel_subs_def delete_topic_def store_topic_def
        split: option.split)
  from this [of "[s]" "[]"] have cl: "chan_closed (hub_watcher s h) = chan_closed h"
    by (auto simp: hub_watcher_def hub_unsubscribe_def Let_def send_change_def split: prod.splits)
  have s: "set [s] \<subseteq> set (watchers h)" using step_watcher by simp
  have br: "brChanges (hub_watcher s h) = brChanges h" by (simp add: hub_watcher_def Let_def)
  from step_watcher(3) s show ?case
    by (rule hub_unsubscribe_emitted) (use cl br in \<open>auto simp: hub_watcher_def Let_def\<close>)
qed simp_all

text \<open>A step with no event of \<^verbatim>\<open>Serve\<close> in it is a short sequence of steps of the hub, or leaves the hub alone.\<close>

lemma broker_step_event:
  assumes "broker_step parse hc ctx b b'" and "broker_inv b" and "consumed b' = consumed b"
  shows "event_ok (b_hub b) (b_hub b')" "ctx_known (contexts (b_hub b)) c \<Longrightarrow> ctx_known (contexts (b_hub b')) c"
    "ctx_later (contexts (b_hub b)) (contexts (b_hub b'))"
proof -
  have inv: "hub_inv (b_hub b)" using assms(2) hub_run_inv by (auto simp: broker_inv_def base_ok_def)
  let ?ok = "\<lambda>h h' :: 'b list hub. event_ok h h' \<and> (ctx_known (contexts h) c \<longrightarrow> ctx_known (contexts h') c) \<and>
    ctx_later (contexts h) (contexts h')"
  have same: "?ok h h" for h by (simp add: event_ok_def)
  have step: "?ok h h'" if "hub_step h N h'" "hub_inv h" for h N h'
    using hub_step_event [OF that] hub_step_known [OF that(1)] hub_step_mono [OF that(1)] by (auto simp: ctx_later_def)
  have "?ok (b_hub b) (b_hub b')"
    using assms(1)
  proof cases
    case (bs_add name meth tp h ms r)
    then show ?thesis using same by (auto simp: broker_Add_def Let_def split: option.splits)
  next
    case (bs_hub N h)
    then show ?thesis using step [OF hub_op_step inv] by simp
  next
    case (bs_cancel c')
    then show ?thesis using step [OF step_ctx_cancel [OF bs_cancel(2)] inv] by simp
  next
    case (bs_subscribe hc' c' tp bh s)
    from bs_subscribe show ?thesis
    proof (cases rule: broker_Subscribe_hub)
      case (1 l)
      then show ?thesis using same by simp
    next
      case (2 h1 N h2 l us)
      note h1 = hub_op_step [OF 2(1)]
      have "?ok (b_hub b) h1" "?ok h1 h2" using step [OF h1 inv] step [OF hub_op_step [OF 2(2)] hub_step_inv [OF h1 inv]] by blast+
      moreover from this(2) have "event_ok (b_hub b) h2" using 2(4) by (auto simp: event_ok_def)
      ultimately show ?thesis using 2(3) ctx_later_trans by auto
    qed
  next
    case (bs_unsubscriber u hc')
    then obtain b1 where b1: "TriggerUnsub parse hc' (u_context u) (u_topic u) b = Some (Inr b1)"
        "b' = b1\<lparr>unsubscribers := remove1 u (unsubscribers b1)\<rparr>"
      by (auto simp: unsubscriber_run_def)
    have "b_hub b1 = b_hub b" by (subst TriggerUnsub_fields [OF b1(1)]) simp
    then show ?thesis using b1(2) same by simp
  next
    case (bs_publisher p)
    have "b_hub b' = b_hub b" by (subst publisher_run_fields [OF bs_publisher(3)]) simp
    then show ?thesis using same by simp
  next
    case bs_serve
    then obtain b2 where "serve_round parse hc ctx b = Some (Inr b2)" "consumed b2 = Suc (consumed b)"
      using serve_round_ok [OF broker_inv_ctx [OF assms(2)], of ctx parse hc] assms(2)
      by (metis broker_inv_def)
    then show ?thesis using bs_serve assms(3) by simp
  next
    case bs_closer
    then show ?thesis using step [OF step_close inv] by (simp add: serve_closer_def)
  qed (use same in \<open>simp add: broker_Use_def\<close>)
  then show "event_ok (b_hub b) (b_hub b')" "ctx_known (contexts (b_hub b)) c \<Longrightarrow> ctx_known (contexts (b_hub b')) c"
    "ctx_later (contexts (b_hub b)) (contexts (b_hub b'))"
    by blast+
qed

text \<open>A receiver that cancels contexts takes steps of the broker.\<close>

lemma broker_cancels:
  "\<forall>c\<in>set cs. ctx_known (contexts (b_hub b)) c \<and> c \<notin> p_context ` set (publishers b) \<Longrightarrow>
     (broker_step parse hc ctx)\<^sup>*\<^sup>* b (set_contexts (fold ctx_cancel cs (contexts (b_hub b))) b)"
proof (induction cs arbitrary: b)
  case Nil
  have "set_contexts (contexts (b_hub b)) b = b" by (simp add: set_contexts_def)
  then show ?case by simp
next
  case (Cons c cs)
  let ?b = "set_contexts (ctx_cancel c (contexts (b_hub b))) b"
  have "broker_step parse hc ctx b ?b" using Cons.prems by (intro bs_cancel) simp_all
  moreover have "(broker_step parse hc ctx)\<^sup>*\<^sup>* ?b (set_contexts (fold ctx_cancel cs (contexts (b_hub ?b))) ?b)"
    using Cons.prems by (intro Cons.IH) (simp add: gctx.cancel_known)
  moreover have "set_contexts g (set_contexts g' b) = set_contexts g b" for g g' by (simp add: set_contexts_def)
  ultimately show ?case by (simp add: converse_rtranclp_into_rtranclp)
qed

lemma broker_steps_inv: "(broker_step parse hc ctx)\<^sup>*\<^sup>* b b' \<Longrightarrow> broker_inv b \<Longrightarrow> broker_inv b'"
  by (induction rule: rtranclp_induct) (auto intro: broker_step_inv)

lemma same_hub_iff: "same_hub b b' \<longleftrightarrow> (\<exists>g. b_hub b' = (b_hub b)\<lparr>contexts := g\<rparr>)"
  unfolding same_hub_def by (rule iffI, erule exI) auto

lemma same_hub_simps:
  assumes "same_hub b b'"
  shows "emitted (b_hub b') = emitted (b_hub b)" "chan_closed (b_hub b') = chan_closed (b_hub b)"
    "brChanges (b_hub b') = brChanges (b_hub b)" "hub_lookup (b_hub b') = hub_lookup (b_hub b)"
  using assms by (auto simp: same_hub_iff)

lemma same_hub_refl: "same_hub b b" "same_hub b (b\<lparr>consumed := n\<rparr>)"
  by (simp_all add: same_hub_def)

lemma same_hub_log [simp]: "same_hub (b\<lparr>b_log := l\<rparr>) b' = same_hub b b'"
  by (simp add: same_hub_def)

lemma same_hub_trans: "same_hub a b \<Longrightarrow> same_hub b c \<Longrightarrow> same_hub a c"
  by (auto simp: same_hub_iff)

text \<open>What the rounds of \<^verbatim>\<open>Serve\<close> keep: the hub, and that contexts are done.\<close>

definition calm :: "('c, 'm) Broker \<Rightarrow> ('c, 'm) Broker \<Rightarrow> bool" where
  "calm b b' \<longleftrightarrow> same_hub b b' \<and> (\<forall>c. ctx_Done (contexts (b_hub b)) c \<longrightarrow> ctx_Done (contexts (b_hub b')) c)"

lemma calm_refl: "calm b b" "calm b (b\<lparr>consumed := n\<rparr>)"
  by (simp_all add: calm_def same_hub_refl)

lemma calm_log [simp]: "calm (b\<lparr>b_log := l\<rparr>) b' = calm b b'"
  by (simp add: calm_def)

lemma calm_trans: "calm a b \<Longrightarrow> calm b c \<Longrightarrow> calm a c"
  by (auto simp: calm_def intro: same_hub_trans)

lemma TriggerPub_calm:
  "TriggerPub parse hc ctx tp b = Some (Inr (err, b')) \<Longrightarrow> calm b b'"
  by (auto simp: TriggerPub_def calm_def ctx_Done_def same_hub_def go_return_def WithCancel_def Let_def split: if_splits)

lemma serve_added_calm: "serve_added parse hc ctx tps b = Some (Inr b') \<Longrightarrow> calm b b'"
proof (induction tps arbitrary: b)
  case (Cons tp tps)
  show ?case
  proof (cases "map_of (pubCancelers b) tp")
    case None
    then obtain err b1 where b1: "TriggerPub parse hc ctx tp b = Some (Inr (err, b1))"
        "serve_added parse hc ctx tps (if err \<noteq> None
           then b1\<lparr>b_log := b_log b1 @ [Errorf ''couldn't automatically trigger pub handler for topic %s'']\<rparr>
           else b1) = Some (Inr b')"
      using Cons.prems by auto
    from TriggerPub_calm [OF b1(1)] Cons.IH [OF b1(2)] show ?thesis
      by (auto intro: calm_trans calm_refl split: if_splits)
  qed (use Cons in simp)
qed (simp add: go_return_def calm_refl)

lemma fold_CancelPub_calm: "calm b (fold CancelPub tps b)"
proof (induction tps arbitrary: b)
  case (Cons tp tps)
  have "calm b (CancelPub tp b)" by (simp add: CancelPub_def calm_def same_hub_def gctx.cancel_mono split: option.split)
  from calm_trans [OF this Cons] show ?case by simp
qed (simp add: calm_refl)

lemma serve_round_calm: "serve_round parse hc ctx b = Some (Inr b') \<Longrightarrow> calm b b'"
  unfolding serve_round_def serve_change_def
  by (auto simp: go_return_def
      intro: calm_trans [OF calm_trans [OF calm_refl(2) serve_added_calm]] fold_CancelPub_calm)

section \<open>At most two events ahead\<close>

text \<open>
  The events that \<^verbatim>\<open>Serve\<close> has not dealt with are the one it has in hand and the one at its send. Nothing is ever
  sent on the closed channel.
\<close>

definition under_way :: "('c, 'm) managed \<Rightarrow> nat" where
  "under_way s = (if m_serve s = Handling then 1 else 0) + (if at_send s then 1 else 0)"

definition managed_inv :: "ctx \<Rightarrow> ('c, 'm) managed \<Rightarrow> bool" where
  "managed_inv ctx s \<longleftrightarrow>
     broker_inv (m_broker s) \<and> length (emitted (b_hub (m_broker s))) = consumed (m_broker s) + under_way s \<and>
     (chan_closed (b_hub (m_broker s)) \<longleftrightarrow> \<not> brChanges (b_hub (m_broker s))) \<and>
     (at_send s \<longrightarrow> brChanges (b_hub (m_broker s)) \<and> (\<forall>j. \<not> holds_read (m_readers s j))) \<and>
     (\<forall>e. m_serve s = Returned e \<longrightarrow> \<not> brChanges (b_hub (m_broker s))) \<and> finite {j. m_readers s j \<noteq> Outside} \<and>
     (m_serve s \<noteq> NotServing \<longrightarrow> ctx_known (contexts (b_hub (m_broker s))) ctx)"

lemma managed_inv_start: "managed_inv ctx managed_start"
proof -
  have "broker_inv (NewBroker initial_ctxs)" by (rule broker_run_inv [OF br_start])
  then show ?thesis
    by (simp add: managed_inv_def managed_start_def under_way_def NewBroker_def NewHub_def)
qed

lemma serve_round_managed:
  assumes "managed_inv ctx s" and "m_serve s = Handling"
  obtains b where "serve_round parse hc ctx (m_broker s) = Some (Inr b)"
    "emitted (b_hub b) = emitted (b_hub (m_broker s))" "consumed b = Suc (consumed (m_broker s))"
    "managed_inv ctx (s\<lparr>m_broker := b, m_serve := Ranging\<rparr>)"
    "hub_lookup (b_hub b) = hub_lookup (b_hub (m_broker s))"
proof -
  let ?b = "m_broker s"
  have inv: "broker_inv ?b" "ctx_known (contexts (b_hub ?b)) ctx" "consumed ?b < length (emitted (b_hub ?b))"
    using assms by (auto simp: managed_inv_def under_way_def)
  then have d: "dom (map_of (pubCancelers ?b)) = replay (take (consumed ?b) (emitted (b_hub ?b)))"
    by (simp add: broker_inv_def)
  from inv(2) obtain b where b: "serve_round parse hc ctx ?b = Some (Inr b)" "base_ok ctx b"
      "emitted (b_hub b) = emitted (b_hub ?b)" "consumed b = Suc (consumed ?b)"
      "dom (map_of (pubCancelers b)) = replay (take (consumed b) (emitted (b_hub b)))"
      "brChanges (b_hub b) = brChanges (b_hub ?b)"
    by (rule serve_round_ok [OF broker_inv_ctx [OF inv(1)] inv(3) d])
  have "broker_inv b" using b inv(3) base_ok_Background [OF b(2)] by (simp add: broker_inv_def)
  moreover note same_hub_simps(2,4) [OF conjunct1 [OF serve_round_calm [OF b(1), unfolded calm_def]]]
  ultimately show thesis using assms b inv
    by (intro that [OF b(1,3,4)]) (auto simp: managed_inv_def under_way_def base_ok_def)
qed

lemma finite_readers: "finite {j. f j \<noteq> (Outside :: 'm pc)} \<Longrightarrow> finite {j. (f(i := p)) j \<noteq> Outside}"
  by (rule finite_subset [of _ "insert i {j. f j \<noteq> Outside}"]) auto

lemma managed_inv_reader:
  assumes "managed_inv ctx s" and "at_send s \<Longrightarrow> \<not> holds_read p"
  shows "managed_inv ctx (s\<lparr>m_readers := (m_readers s)(i := p)\<rparr>)"
proof -
  have "finite {j. ((m_readers s)(i := p)) j \<noteq> Outside}"
    by (rule finite_readers) (use assms(1) in \<open>simp add: managed_inv_def\<close>)
  moreover have "at_send s \<longrightarrow> (\<forall>j. \<not> holds_read (((m_readers s)(i := p)) j))"
    using assms by (simp add: managed_inv_def)
  ultimately show ?thesis using assms(1) by (simp add: managed_inv_def under_way_def del: fun_upd_apply)
qed

lemma managed_step_inv: "managed_step parse hc ctx s t \<Longrightarrow> managed_inv ctx s \<Longrightarrow> managed_inv ctx t"
proof (induction rule: managed_step.induct)
  case (ms_unlocked s b)
  have b: "broker_inv b" using broker_step_inv [OF ms_unlocked(1)] ms_unlocked(4) by (simp add: managed_inv_def)
  note e = broker_step_event [OF ms_unlocked(1) _ ms_unlocked(2)]
  show ?case using e(2) ms_unlocked(2,4) same_hub_simps [OF ms_unlocked(3)] b
    by (auto simp: managed_inv_def under_way_def)
next
  case (ms_locked s b)
  have b: "broker_inv b" using broker_step_inv [OF ms_locked(3)] ms_locked(6) by (simp add: managed_inv_def)
  note e = broker_step_event(1,2) [OF ms_locked(3) _ ms_locked(4)]
  show ?case using e ms_locked(1,2,4-6) b by (auto simp: managed_inv_def under_way_def event_ok_def)
next
  case (ms_send s b change)
  have b: "broker_inv b" using broker_step_inv [OF ms_send(3)] ms_send(6) by (simp add: managed_inv_def)
  note e = broker_step_event(1,2) [OF ms_send(3) _ ms_send(4)]
  show ?case using e ms_send(1,2,4-6) b by (auto simp: managed_inv_def under_way_def event_ok_def)
next
  case (ms_handle s b)
  then show ?case using serve_round_managed [of ctx s parse hc] by force
next
  case (ms_receive s i msg ys x zs failed err cs)
  let ?b = "set_contexts (fold ctx_cancel cs (contexts (b_hub (m_broker s)))) (m_broker s)"
  have "broker_inv ?b"
    using broker_steps_inv [OF broker_cancels [OF ms_receive(3)]] ms_receive(4) by (simp add: managed_inv_def)
  have "holds_read (m_readers s i)" by (simp add: ms_receive(1))
  then have "\<not> at_send s" using ms_receive(4) unfolding managed_inv_def by blast
  moreover have "managed_inv ctx (s\<lparr>m_broker := ?b\<rparr>)"
    using ms_receive(4) \<open>broker_inv ?b\<close> by (simp add: managed_inv_def under_way_def gctx.fold_cancel_known)
  ultimately show ?case using managed_inv_reader [of ctx "s\<lparr>m_broker := ?b\<rparr>"] by simp
next
  case (ms_unsub s i failed h)
  then show ?case by (metis holds_read.simps(2))
next
  case (ms_broadcast s i tp msg)
  then show ?case by (intro managed_inv_reader) simp_all
next
  case (ms_skip s i tp msg)
  then show ?case by (intro managed_inv_reader) simp_all
next
  case (ms_start s i tp msg br)
  then show ?case by (intro managed_inv_reader) simp_all
next
  case (ms_done s i msg)
  then show ?case by (intro managed_inv_reader) simp_all
next
  case (ms_failed s i msg failed)
  have "holds_read (m_readers s i)" by (simp add: ms_failed(1))
  then have "\<not> at_send s" using ms_failed(3) unfolding managed_inv_def by blast
  then show ?case using ms_failed(3) by (intro managed_inv_reader) simp_all
qed (auto simp: managed_inv_def under_way_def)

lemma managed_run_inv: "managed_run parse hc ctx s \<Longrightarrow> managed_inv ctx s"
  unfolding managed_run_def
  by (induction rule: rtranclp_induct) (auto intro: managed_inv_start managed_step_inv)

lemma managed_run_step: "managed_run parse hc ctx s \<Longrightarrow> managed_step parse hc ctx s t \<Longrightarrow> managed_run parse hc ctx t"
  by (simp add: managed_run_def)

text \<open>Such a run is one of the runs of theory \<open>Broker\<close>, where events may queue up.\<close>

lemma managed_step_refines:
  "managed_step parse hc ctx s t \<Longrightarrow> managed_inv ctx s \<Longrightarrow>
     (broker_step parse hc ctx)\<^sup>*\<^sup>* (m_broker s) (m_broker t)"
proof (induction rule: managed_step.induct)
  case (ms_handle s b)
  then have "consumed (m_broker s) < length (emitted (b_hub (m_broker s)))"
      "ctx_known (contexts (b_hub (m_broker s))) ctx"
    by (auto simp: managed_inv_def under_way_def)
  from bs_serve [OF this ms_handle(2)] show ?case by auto
next
  case (ms_receive s i msg ys x zs failed err cs)
  then show ?case using broker_cancels by auto
next
  case (ms_unsub s i failed h)
  then show ?case by (metis holds_read.simps(2))
qed auto

lemma broker_steps_run: "(broker_step parse hc ctx)\<^sup>*\<^sup>* b b' \<Longrightarrow> broker_run parse hc ctx b \<Longrightarrow> broker_run parse hc ctx b'"
  by (induction rule: rtranclp_induct) (auto intro: br_step)

lemma managed_run_refines: "managed_run parse hc ctx s \<Longrightarrow> broker_run parse hc ctx (m_broker s)"
  unfolding managed_run_def
proof (induction rule: rtranclp_induct)
  case base
  then show ?case by (simp add: managed_start_def br_start)
next
  case (step s t)
  then have "managed_inv ctx s" by (intro managed_run_inv) (simp add: managed_run_def)
  from managed_step_refines [OF step(2) this] step(3) show ?case by (rule broker_steps_run)
qed

section \<open>Serve catches up\<close>

lemma serve_catches_up:
  fixes s :: "('c, 'm) managed"
  assumes "managed_run parse hc ctx s" and "m_serve s = Ranging \<or> m_serve s = Handling"
  obtains b where "(managed_step parse hc ctx)\<^sup>*\<^sup>* s \<lparr>m_broker = b, at_send = False, m_serve = Ranging, m_readers = m_readers s\<rparr>"
    "emitted (b_hub b) = emitted (b_hub (m_broker s))" "consumed b = length (emitted (b_hub b))"
    "calm (m_broker s) b"
proof -
  let ?steps = "(managed_step parse hc ctx :: ('c, 'm) managed \<Rightarrow> _)\<^sup>*\<^sup>*"
  define goal where "goal u \<longleftrightarrow> (\<exists>b. ?steps u \<lparr>m_broker = b, at_send = False, m_serve = Ranging, m_readers = m_readers u\<rparr> \<and>
      emitted (b_hub b) = emitted (b_hub (m_broker u)) \<and> consumed b = length (emitted (b_hub b)) \<and>
      calm (m_broker u) b)" for u :: "('c, 'm) managed"
  have ranging_free: "goal u" if "managed_run parse hc ctx u" "m_serve u = Ranging" "\<not> at_send u" for u
  proof -
    have "?steps u \<lparr>m_broker = m_broker u, at_send = False, m_serve = Ranging, m_readers = m_readers u\<rparr>" using that by (cases u) simp
    moreover have "consumed (m_broker u) = length (emitted (b_hub (m_broker u)))"
      using managed_run_inv [OF that(1)] that by (simp add: managed_inv_def under_way_def)
    ultimately show ?thesis unfolding goal_def
      by (intro exI [of _ "m_broker u"] conjI) (simp_all add: calm_refl)
  qed
  have handling: "goal u" if run: "managed_run parse hc ctx u" and at: "m_serve u = Handling"
      and next_goal: "\<And>b. managed_run parse hc ctx (u\<lparr>m_broker := b, m_serve := Ranging\<rparr>) \<Longrightarrow>
        goal (u\<lparr>m_broker := b, m_serve := Ranging\<rparr>)" for u
  proof -
    obtain b where b: "serve_round parse hc ctx (m_broker u) = Some (Inr b)"
        "emitted (b_hub b) = emitted (b_hub (m_broker u))"
      by (rule serve_round_managed [OF managed_run_inv [OF run] at])
    note step = ms_handle [of u parse hc ctx b, OF at b(1)]
    have "goal (u\<lparr>m_broker := b, m_serve := Ranging\<rparr>)" by (rule next_goal [OF managed_run_step [OF run step]])
    then show ?thesis using step b(2) calm_trans [OF serve_round_calm [OF b(1)]]
      unfolding goal_def by (auto intro: converse_rtranclp_into_rtranclp)
  qed
  have handling_free: "goal u" if "managed_run parse hc ctx u" "m_serve u = Handling" "\<not> at_send u" for u
    by (rule handling [OF that(1,2)], rule ranging_free) (use that in simp_all)
  have ranging: "goal u" if "managed_run parse hc ctx u" "m_serve u = Ranging" for u
  proof (cases "at_send u")
    case True
    note step = ms_take [of u parse hc ctx, OF True that(2)]
    have "goal (u\<lparr>at_send := False, m_serve := Handling\<rparr>)"
      by (rule handling_free [OF managed_run_step [OF that(1) step]]) simp_all
    then show ?thesis using step unfolding goal_def by (auto intro: converse_rtranclp_into_rtranclp)
  qed (rule ranging_free [OF that])
  have "goal s"
  proof (cases "m_serve s = Ranging")
    case False
    then show ?thesis using assms by (intro handling [OF assms(1)] ranging) auto
  qed (rule ranging [OF assms(1)])
  then obtain b where b: "?steps s \<lparr>m_broker = b, at_send = False, m_serve = Ranging, m_readers = m_readers s\<rparr>"
      "emitted (b_hub b) = emitted (b_hub (m_broker s))" "consumed b = length (emitted (b_hub b))"
      "calm (m_broker s) b" by (auto simp: goal_def)
  show thesis by (rule that [OF b(1-3) b(4)])
qed


lemma managed_steps_run:
  "managed_run parse hc ctx s \<Longrightarrow> (managed_step parse hc ctx)\<^sup>*\<^sup>* s t \<Longrightarrow> managed_run parse hc ctx t"
  by (simp add: managed_run_def)

lemma calm_done: "calm b b' \<Longrightarrow> ctx_Done (contexts (b_hub b)) c \<Longrightarrow> ctx_Done (contexts (b_hub b')) c"
  by (simp add: calm_def)

text \<open>
  A call of \<^verbatim>\<open>Broadcast\<close> that is not in trouble while the contexts are as they are: it has seen no failure, and the
  receivers still to finish return no error and cancel nothing.
\<close>

fun unhindered :: "ctxs \<Rightarrow> 'm pc \<Rightarrow> bool" where
  "unhindered g (Receiving msg todo failed) \<longleftrightarrow> failed = [] \<and> (\<forall>x\<in>set todo. receive x msg g = (None, []))"
| "unhindered g (BroadcastUnsub failed) \<longleftrightarrow> False"
| "unhindered g _ \<longleftrightarrow> True"

lemma receivers_return:
  "m_readers s i = Receiving msg todo [] \<Longrightarrow> \<forall>x\<in>set todo. receive x msg (contexts (b_hub (m_broker s))) = (None, []) \<Longrightarrow>
     (managed_step parse hc ctx)\<^sup>*\<^sup>* s (s\<lparr>m_readers := (m_readers s)(i := Outside)\<rparr>)"
proof (induction todo arbitrary: s)
  case Nil
  then show ?case by (intro r_into_rtranclp ms_done [of s i msg])
next
  case (Cons x todo)
  let ?s = "s\<lparr>m_readers := (m_readers s)(i := Receiving msg todo [])\<rparr>"
  have same: "set_contexts (contexts (b_hub (m_broker s))) (m_broker s) = m_broker s" by (simp add: set_contexts_def)
  have "managed_step parse hc ctx s ?s"
    using ms_receive [of s i msg "[]" x todo "[]" None "[]" parse hc ctx] Cons.prems same by simp
  moreover have "(managed_step parse hc ctx)\<^sup>*\<^sup>* ?s (?s\<lparr>m_readers := (m_readers ?s)(i := Outside)\<rparr>)"
    using Cons.prems by (intro Cons.IH) simp_all
  ultimately have "(managed_step parse hc ctx)\<^sup>*\<^sup>* s (?s\<lparr>m_readers := (m_readers ?s)(i := Outside)\<rparr>)"
    by (rule converse_rtranclp_into_rtranclp)
  moreover have "?s\<lparr>m_readers := (m_readers ?s)(i := Outside)\<rparr> = s\<lparr>m_readers := (m_readers s)(i := Outside)\<rparr>" by simp
  ultimately show ?case by (simp only:)
qed

lemma readers_return:
  "finite {j. holds_read (m_readers s j)} \<Longrightarrow> \<forall>j. unhindered (contexts (b_hub (m_broker s))) (m_readers s j) \<Longrightarrow>
     \<exists>f. (managed_step parse hc ctx)\<^sup>*\<^sup>* s (s\<lparr>m_readers := f\<rparr>) \<and> (\<forall>j. \<not> holds_read (f j))"
proof (induction "card {j. holds_read (m_readers s j)}" arbitrary: s rule: less_induct)
  case less
  show ?case
  proof (cases "\<exists>j. holds_read (m_readers s j)")
    case False
    then show ?thesis by (intro exI [of _ "m_readers s"]) simp
  next
    case True
    then obtain i where i: "holds_read (m_readers s i)" by blast
    moreover have "unhindered (contexts (b_hub (m_broker s))) (m_readers s i)" using less.prems(2) by blast
    ultimately obtain msg todo where at: "m_readers s i = Receiving msg todo []"
        "\<forall>x\<in>set todo. receive x msg (contexts (b_hub (m_broker s))) = (None, [])"
      by (cases "m_readers s i") auto
    let ?s = "s\<lparr>m_readers := (m_readers s)(i := Outside)\<rparr>"
    have sub: "{j. holds_read (m_readers ?s j)} \<subset> {j. holds_read (m_readers s j)}" using i by (auto split: if_splits)
    then have "finite {j. holds_read (m_readers ?s j)}" using less.prems(1) finite_subset psubset_imp_subset by blast
    moreover have "\<forall>j. unhindered (contexts (b_hub (m_broker ?s))) (m_readers ?s j)" using less.prems(2) by simp
    ultimately obtain f where "(managed_step parse hc ctx)\<^sup>*\<^sup>* ?s (?s\<lparr>m_readers := f\<rparr>)" "\<forall>j. \<not> holds_read (f j)"
      using less.hyps [of ?s] psubset_card_mono [OF less.prems(1) sub] by blast
    then show ?thesis using rtranclp_trans [OF receivers_return [OF at]] by fastforce
  qed
qed

lemma Serve_can_return:
  assumes "managed_run parse hc ctx s" and "m_serve s = Ranging \<or> m_serve s = Handling"
    and "ctx_Done (contexts (b_hub (m_broker s))) ctx" and "\<forall>j. \<not> holds_read (m_readers s j)"
  shows "\<exists>t. (managed_step parse hc ctx)\<^sup>*\<^sup>* s t \<and> m_serve t = Returned (Some Canceled) \<and>
    chan_closed (b_hub (m_broker t)) \<and> \<not> at_send t"
proof -
  let ?step = "managed_step parse hc ctx"
  obtain b where b: "?step\<^sup>*\<^sup>* s \<lparr>m_broker = b, at_send = False, m_serve = Ranging, m_readers = m_readers s\<rparr>" (is "?step\<^sup>*\<^sup>* s ?u")
      "calm (m_broker s) b" by (rule serve_catches_up [OF assms(1,2)])
  have u: "managed_inv ctx ?u" by (rule managed_run_inv [OF managed_steps_run [OF assms(1) b(1)]])
  have d: "ctx_Done (contexts (b_hub b)) ctx" by (rule calm_done [OF b(2) assms(3)])
  obtain b' where b': "?step\<^sup>*\<^sup>* ?u \<lparr>m_broker = b', at_send = False, m_serve = Ranging, m_readers = m_readers s\<rparr>" (is "?step\<^sup>*\<^sup>* _ ?v")
      "chan_closed (b_hub b')" "ctx_Done (contexts (b_hub b')) ctx"
  proof (cases "chan_closed (b_hub b)")
    case True
    then show thesis using d by (intro that [of b]) simp_all
  next
    case False
    let ?b = "serve_closer ctx b"
    have "emitted (b_hub ?b) = emitted (b_hub b)" "chan_closed (b_hub ?b)"
      using u False by (simp_all add: serve_closer_def hub_Close_def Let_def cancel_subs_def managed_inv_def)
    moreover have "ctx_Done (contexts (b_hub ?b)) ctx"
      using hub_step_mono [OF step_close] d by (simp add: serve_closer_def)
    moreover have "consumed ?b = consumed b" by (simp add: serve_closer_def)
    ultimately show thesis
      using ms_locked [of ?u parse hc ctx ?b] bs_closer [OF d] assms(4) by (intro that [of ?b]) auto
  qed
  have "?step ?v (?v\<lparr>m_serve := Returned (ctx_Err (contexts (b_hub b')) ctx)\<rparr>)"
    using ms_return [of ?v parse hc ctx] b'(2) by simp
  then have "?step\<^sup>*\<^sup>* s (?v\<lparr>m_serve := Returned (Some Canceled)\<rparr>)"
    using b(1) b'(1,3) by (simp add: ctx_Err_def)
  then show ?thesis using b'(2) by fastforce
qed

section \<open>A failed Broadcast stops everything\<close>

lemma same_hub_frozen: "same_hub b b' \<Longrightarrow> ctx_later (contexts (b_hub b)) (contexts (b_hub b')) \<Longrightarrow> frozen (b_hub b) (b_hub b')"
  by (simp add: same_hub_def frozen_def)

lemma managed_step_doomed:
  assumes "managed_step parse hc ctx s t" and "managed_inv ctx s"
    and "doomed g msg (m_readers s i)" and "ctx_later g (contexts (b_hub (m_broker s)))"
  shows "doomed g msg (m_readers t i) \<and> frozen (b_hub (m_broker s)) (b_hub (m_broker t))"
  using assms
proof (induction rule: managed_step.induct)
  case (ms_unlocked s b)
  have "ctx_later (contexts (b_hub (m_broker s))) (contexts (b_hub b))"
    using broker_step_event(3) [OF ms_unlocked(1) _ ms_unlocked(2)] ms_unlocked(4) by (simp add: managed_inv_def)
  then show ?case using ms_unlocked(3,5) same_hub_frozen by simp
next
  case (ms_handle s b)
  then show ?case using serve_round_calm [OF ms_handle(2)] same_hub_frozen by (auto simp: calm_def ctx_later_def)
next
  case (ms_receive s j msg' ys x zs failed err cs)
  have "doomed g msg (((m_readers s)(j := Receiving msg' (ys @ zs) (if err = None then failed else failed @ [x]))) i)"
  proof (cases "i = j")
    case True
    then have m: "msg' = msg" "failed \<noteq> [] \<or> failing msg g (ys @ x # zs) \<noteq> []"
      using ms_receive by (auto simp: doomed_def)
    have "err \<noteq> None" if "failed = []" "failing msg g (ys @ zs) = []"
      using failing_middle [OF _ that(2) ms_receive(6), of x] m that(1) ms_receive(2) by simp
    then show ?thesis using True m(1) by (auto simp: doomed_def)
  qed (use ms_receive in simp)
  then show ?case using frozen_cancels [of "b_hub (m_broker s)" cs] by simp
next
  case (ms_done s j msg')
  then show ?case by (cases "i = j") (auto simp: doomed_def failing_Nil)
next
  case (ms_failed s j msg' failed)
  then show ?case by (cases "i = j") (auto simp: doomed_def)
next
  case (ms_locked s b)
  show ?case using ms_locked(2) doomed_reads [OF ms_locked(7)] by blast
next
  case (ms_send s b change)
  show ?case using ms_send(2) doomed_reads [OF ms_send(7)] by blast
next
  case (ms_unsub s j failed h)
  show ?case using ms_unsub(3) doomed_reads [OF ms_unsub(6)] by blast
qed (auto simp: doomed_def)

lemma managed_steps_doomed:
  assumes "managed_run parse hc ctx s" and "(managed_step parse hc ctx)\<^sup>*\<^sup>* s t"
    and "doomed (contexts (b_hub (m_broker s))) msg (m_readers s i)"
  shows "doomed (contexts (b_hub (m_broker s))) msg (m_readers t i) \<and> frozen (b_hub (m_broker s)) (b_hub (m_broker t))"
  using assms(2,3)
proof (induction rule: rtranclp_induct)
  case (step t u)
  have inv: "managed_inv ctx t" by (rule managed_run_inv [OF managed_steps_run [OF assms(1) step(1)]])
  have t: "doomed (contexts (b_hub (m_broker s))) msg (m_readers t i)" "frozen (b_hub (m_broker s)) (b_hub (m_broker t))"
    using step by blast+
  from managed_step_doomed [OF step(2) inv t(1) frozen_later [OF t(2)]] show ?case using frozen_trans [OF t(2)] by blast
qed simp

lemma not_serving_before:
  "(managed_step parse hc ctx)\<^sup>*\<^sup>* s t \<Longrightarrow> m_serve t = NotServing \<Longrightarrow> m_serve s = NotServing"
  by (induction rule: rtranclp_induct) (auto elim: managed_step.cases)

lemma not_serving_consumed:
  assumes "managed_run parse hc ctx s" and "m_serve s = NotServing"
  shows "consumed (m_broker s) = 0"
  using assms unfolding managed_run_def
proof (induction rule: rtranclp_induct)
  case base
  then show ?case by (simp add: managed_start_def NewBroker_def)
next
  case (step s t)
  from step(2-4) show ?case by cases auto
qed

lemma not_serving_blocks:
  assumes "(managed_step parse hc ctx)\<^sup>*\<^sup>* s t" and "at_send s" and "m_serve t = NotServing"
  shows "m_serve s = NotServing \<and> at_send t \<and> hub_lookup (b_hub (m_broker t)) = hub_lookup (b_hub (m_broker s)) \<and>
    emitted (b_hub (m_broker t)) = emitted (b_hub (m_broker s))"
  using assms
proof (induction rule: rtranclp_induct)
  case (step t u)
  from step(2,3,4,5) show ?case
    by cases (auto dest: same_hub_simps)
qed simp

section \<open>A run to evaluate the properties on\<close>

text \<open>The first subscription on a new broker, with and without \<^verbatim>\<open>Serve\<close> running.\<close>

definition demo_managed :: "serve_pc \<Rightarrow> (unit, nat) managed" where
  "demo_managed pc = \<lparr>m_broker = demo_broker, at_send = True, m_serve = pc, m_readers = \<lambda>_. Outside\<rparr>"

lemma demo_managed_run:
  "managed_run (\<lambda>_. None) (\<lambda>_. ()) Background (demo_managed NotServing)"
  "managed_run (\<lambda>_. None) (\<lambda>_. ()) Background (demo_managed Ranging)"
proof -
  let ?run = "managed_run (\<lambda>_. None) (\<lambda>_. ()) Background :: (unit, nat) managed \<Rightarrow> bool"
  have send: "managed_step (\<lambda>_. None) (\<lambda>_. ()) Background managed_start (demo_managed NotServing)"
    using ms_send [of managed_start "\<lambda>_. None" "\<lambda>_. ()" Background demo_broker, OF _ _ _]  demo_broker_step
    by (fastforce simp: managed_start_def demo_managed_def demo_broker_def NewBroker_def NewHub_def)
  then show r: "?run (demo_managed NotServing)" by (simp add: managed_run_def)
  have "managed_step (\<lambda>_. None) (\<lambda>_. ()) Background (demo_managed NotServing)
      ((demo_managed NotServing)\<lparr>m_serve := Ranging\<rparr>)"
    by (rule ms_serve) (simp_all add: demo_managed_def Background_known)
  from managed_run_step [OF r this] show "?run (demo_managed Ranging)" by (simp add: demo_managed_def)
qed

section \<open>Properties of the broker and its hub\<close>





text \<open>
  (C39) Otherwise \<^verbatim>\<open>Serve\<close> hangs: once a receiver of a \<^verbatim>\<open>Broadcast\<close> on an open broker has returned an error, or is bound
  to return one, \<^verbatim>\<open>Serve\<close> never returns, whether its context is done or not, since the goroutine that closes the hub
  never gets the lock; the topics and subscriptions of the hub stay as they are for ever.
\<close>

theorem failed_Broadcast_hangs_Serve:
  assumes "managed_run parse hc ctx s" and "m_readers s i = Receiving msg todo failed"
    and "failed @ failing msg (contexts (b_hub (m_broker s))) todo \<noteq> []" and "\<not> chan_closed (b_hub (m_broker s))"
    and "(managed_step parse hc ctx)\<^sup>*\<^sup>* s t"
  shows "m_serve t \<noteq> Returned e \<and> \<not> chan_closed (b_hub (m_broker t)) \<and> holds_read (m_readers t i) \<and>
    hub_lookup (b_hub (m_broker t)) = hub_lookup (b_hub (m_broker s))"
proof -
  have "doomed (contexts (b_hub (m_broker s))) msg (m_readers s i)" using assms(2,3) by (auto simp: doomed_def)
  from managed_steps_doomed [OF assms(1,5) this]
  have d: "doomed (contexts (b_hub (m_broker s))) msg (m_readers t i)" and f: "frozen (b_hub (m_broker s)) (b_hub (m_broker t))"
    by blast+
  from f have "chan_closed (b_hub (m_broker t)) = chan_closed (b_hub (m_broker s))" by (auto simp: frozen_iff)
  moreover have "managed_inv ctx t" by (rule managed_run_inv [OF managed_steps_run [OF assms(1,5)]])
  ultimately show ?thesis using assms(4) doomed_reads [OF d] frozen_lookup [OF f] by (auto simp: managed_inv_def)
qed

text \<open>A topic whose only subscription fails, with a \<^verbatim>\<open>Broadcast\<close> under way while \<^verbatim>\<open>Serve\<close> handles the topic.\<close>

definition demo_failing :: "nat list subscription" where
  "demo_failing = \<lparr>sid = 0, topic = ''/a'', receive = (\<lambda>_ _. (Some Canceled, [])), sub_cancel = [0]\<rparr>"

definition demo_failing_broker :: "(unit, nat) Broker" where
  "demo_failing_broker = demo_broker\<lparr>b_hub := (b_hub demo_broker)
     \<lparr>broadcastings := Some [(''/a'', [demo_failing])], watchers := [demo_failing]\<rparr>\<rparr>"

definition demo_hung :: "(unit, nat) managed" where
  "demo_hung = \<lparr>m_broker = demo_failing_broker, at_send = False, m_serve = Handling,
     m_readers = (\<lambda>_. Outside)(0 := Receiving [7] [demo_failing] [])\<rparr>"

lemma demo_hung_run: "managed_run (\<lambda>_. None) (\<lambda>_. ()) Background demo_hung"
proof -
  let ?step = "managed_step (\<lambda>_. None) (\<lambda>_. ()) Background :: (unit, nat) managed \<Rightarrow> _"
  let ?at = "\<lambda>snd pc f. \<lparr>m_broker = demo_failing_broker, at_send = snd, m_serve = pc, m_readers = f\<rparr>"
  let ?wait = "(\<lambda>_. Outside)(0 := WaitRLock ''/a'' [7])"
  have "hub_Subscribe Background ''/a'' (\<lambda>_ _. (Some Canceled, [])) (b_hub (NewBroker initial_ctxs :: (unit, nat) Broker)) =
      Inr (b_hub demo_failing_broker, demo_failing)"
    by (simp add: hub_Subscribe_def NewHub_def NewBroker_def WithCancel_def initial_ctxs_def Background_def Let_def
        hub_lookup_def store_topic_def send_change_def demo_broker_def demo_failing_broker_def demo_failing_def)
  from bs_hub [OF op_subscribe [OF this Background_known], of "\<lambda>_. None" "\<lambda>_. ()" Background]
  have "?step managed_start (?at True NotServing (\<lambda>_. Outside))"
    using ms_send [of managed_start "\<lambda>_. None" "\<lambda>_. ()" Background demo_failing_broker]
    by (fastforce simp: managed_start_def demo_failing_broker_def demo_broker_def NewBroker_def NewHub_def)
  moreover have "?step (?at True NotServing (\<lambda>_. Outside)) (?at True Ranging (\<lambda>_. Outside))"
    using ms_serve [of "?at True NotServing (\<lambda>_. Outside)" Background] by (simp add: Background_known)
  moreover have "?step (?at True Ranging (\<lambda>_. Outside)) (?at False Handling (\<lambda>_. Outside))"
    using ms_take [of "?at True Ranging (\<lambda>_. Outside)"] by simp
  moreover have "?step (?at False Handling (\<lambda>_. Outside)) (?at False Handling ?wait)"
    using ms_broadcast [of "?at False Handling (\<lambda>_. Outside)" 0 _ _ _ "''/a''" "[7]"] by simp
  moreover have "?step (?at False Handling ?wait) demo_hung"
    using ms_start [of "?at False Handling ?wait" 0 "''/a''" "[7]" "[demo_failing]"]
    by (simp add: demo_hung_def demo_failing_broker_def hub_lookup_def)
  ultimately show ?thesis unfolding managed_run_def by (meson r_into_rtranclp rtranclp_trans)
qed

theorem failed_Broadcast_hangs_Serve_witness:
  "\<not> (\<exists>t e. (managed_step (\<lambda>_. None) (\<lambda>_. ()) Background)\<^sup>*\<^sup>* demo_hung t \<and> m_serve t = Returned e)"
proof -
  have at: "m_readers demo_hung 0 = Receiving [7] [demo_failing] []" by (simp add: demo_hung_def)
  have f: "[] @ failing [7] g [demo_failing] \<noteq> []" for g by (simp add: failing_def demo_failing_def)
  have o: "\<not> chan_closed (b_hub (m_broker demo_hung))"
    by (simp add: demo_hung_def demo_failing_broker_def demo_broker_def)
  show ?thesis using failed_Broadcast_hangs_Serve [OF demo_hung_run at f o] by blast
qed

text \<open>
  (C40) A broker without \<^verbatim>\<open>Serve\<close> takes one subscription and then stands still: when a topic has a subscription, the goroutine
  that made it is at its send with the lock held, and as long as nobody calls \<^verbatim>\<open>Serve\<close>, it stays there and the hub keeps
  just its topics. \<^verbatim>\<open>TriggerPub\<close> and \<^verbatim>\<open>CancelPub\<close> are meant for alternatives to \<^verbatim>\<open>Serve\<close>, which the package's users
  cannot write, because only \<^verbatim>\<open>Serve\<close> receives from the channel.
\<close>

theorem unserved_broker_blocks:
  assumes "managed_run parse hc ctx s" and "brChanges (b_hub (m_broker s))"
    and "hub_lookup (b_hub (m_broker s)) tp \<noteq> None"
    and "(managed_step parse hc ctx)\<^sup>*\<^sup>* s t" and "m_serve t = NotServing"
  shows "at_send s \<and> at_send t \<and> hub_lookup (b_hub (m_broker t)) = hub_lookup (b_hub (m_broker s)) \<and>
    length (emitted (b_hub (m_broker t))) = 1"
proof -
  let ?h = "b_hub (m_broker s)"
  have inv: "managed_inv ctx s" by (rule managed_run_inv [OF assms(1)])
  have ns: "m_serve s = NotServing" using not_serving_before [OF assms(4,5)] .
  obtain S where "hub_run True ?h S" using inv by (auto simp: managed_inv_def broker_inv_def base_ok_def)
  then have "tp \<in> replay (emitted ?h)" using hub_run_replay [OF _ assms(2)] assms(3) by blast
  then have "emitted ?h \<noteq> []" by (auto simp: replay_def)
  moreover have "length (emitted ?h) = (if at_send s then 1 else 0)"
    using inv ns not_serving_consumed [OF assms(1) ns] by (simp add: managed_inv_def under_way_def)
  ultimately have "at_send s" "length (emitted ?h) = 1" by (auto split: if_splits)
  then show ?thesis using not_serving_blocks [OF assms(4) _ assms(5)] by simp
qed

theorem unserved_broker_blocks_witness:
  "\<exists>t :: (unit, nat) managed. managed_step (\<lambda>_. None) (\<lambda>_. ()) Background (demo_managed NotServing) t \<and>
    fresh (contexts (b_hub (m_broker t))) = 2 \<and> at_send t \<and> hub_lookup (b_hub (m_broker t)) ''/a'' \<noteq> None"
proof -
  let ?h = "(b_hub demo_broker)\<lparr>contexts := fst (WithCancel Background (contexts (b_hub demo_broker)))\<rparr>"
  let ?t = "(demo_managed NotServing)\<lparr>m_broker := demo_broker\<lparr>b_hub := ?h\<rparr>\<rparr>"
  from bs_hub [OF op_derive [of "b_hub demo_broker" Background]]
  have step: "managed_step (\<lambda>_. None) (\<lambda>_. ()) Background (demo_managed NotServing) ?t"
    by (intro ms_unlocked) (simp_all add: demo_managed_def same_hub_def)
  have ne: "fresh (contexts (b_hub (m_broker ?t))) = 2" by (simp add: demo_managed_def demo_broker_def WithCancel_def)
  have open_hub: "brChanges (b_hub (m_broker (demo_managed NotServing)))"
    and a: "hub_lookup (b_hub (m_broker (demo_managed NotServing))) ''/a'' \<noteq> None"
    using demo_broker_pending(3,4) by (simp_all add: demo_managed_def)
  have "(managed_step (\<lambda>_. None) (\<lambda>_. ()) Background)\<^sup>*\<^sup>* (demo_managed NotServing) ?t" using step by blast
  from unserved_broker_blocks [OF demo_managed_run(1) open_hub a this]
  have "at_send ?t \<and> hub_lookup (b_hub (m_broker ?t)) = hub_lookup (b_hub (m_broker (demo_managed NotServing)))"
    by (simp add: demo_managed_def)
  then show ?thesis using step ne a by metis
qed

end
