(* ===== verification/GoStrings.thy ===== *)
theory GoStrings
  imports Prelude
begin

text \<open>
  The functions of Go's standard library on strings and bytes that the repository uses: decimal
  notation, splitting and trimming, and the standard Base64 encoding. A byte is a character, so that a
  byte slice is a \<open>string\<close>.
\<close>

section \<open>Decimal notation\<close>

text \<open>The verb \<^verbatim>\<open>%d\<close> of \<^verbatim>\<open>fmt.Sprintf\<close>.\<close>

fun decimal_nat :: "nat \<Rightarrow> string" where
  "decimal_nat n =
     (if n < 10 then [char_of (48 + n)] else decimal_nat (n div 10) @ [char_of (48 + n mod 10)])"

declare decimal_nat.simps [simp del]

definition decimal :: "int \<Rightarrow> string" where
  "decimal k = (if k < 0 then CHR ''-'' # decimal_nat (nat (- k)) else decimal_nat (nat k))"

text \<open>\<^verbatim>\<open>strconv.ParseUint\<close> and \<^verbatim>\<open>strconv.ParseInt\<close> in base 10 for a width in bits; their error is a \<^verbatim>\<open>NumError\<close>.\<close>

definition is_digit :: "char \<Rightarrow> bool" where
  "is_digit c \<longleftrightarrow> 48 \<le> (of_char c :: nat) \<and> (of_char c :: nat) \<le> 57"

definition digit_value :: "char \<Rightarrow> nat" where
  "digit_value c = of_char c - 48"

definition digits_value :: "string \<Rightarrow> nat" where
  "digits_value s = foldl (\<lambda>n c. n * 10 + digit_value c) 0 s"

definition ParseUint :: "nat \<Rightarrow> string \<Rightarrow> error + nat" where
  "ParseUint width s =
     (if s = [] \<or> \<not> list_all is_digit s then Inl (ExternalError ''strconv.NumError'')
      else if 2 ^ width \<le> digits_value s then Inl (ExternalError ''strconv.NumError'')
      else Inr (digits_value s))"

definition ParseInt :: "nat \<Rightarrow> string \<Rightarrow> error + int" where
  "ParseInt width s =
     (let neg = (s \<noteq> [] \<and> hd s = CHR ''-'');
          rest = (if s \<noteq> [] \<and> hd s \<in> {CHR ''-'', CHR ''+''} then tl s else s)
      in case ParseUint width rest of
           Inl e \<Rightarrow> Inl e
         | Inr n \<Rightarrow>
             if \<not> neg \<and> 2 ^ (width - 1) \<le> n \<or> neg \<and> 2 ^ (width - 1) < n
             then Inl (ExternalError ''strconv.NumError'')
             else Inr (if neg then - int n else int n))"

section \<open>Splitting and trimming\<close>

text \<open>\<^verbatim>\<open>strings.Split\<close> at commas and \<^verbatim>\<open>strings.TrimSpace\<close> on ASCII text.\<close>

fun split_commas :: "string \<Rightarrow> string list" where
  "split_commas [] = [[]]"
| "split_commas (c # cs) =
     (if c = CHR '','' then [] # split_commas cs
      else case split_commas cs of [] \<Rightarrow> [[c]] | w # ws \<Rightarrow> (c # w) # ws)"

definition is_space :: "char \<Rightarrow> bool" where
  "is_space c \<longleftrightarrow> c \<in> {CHR '' '', CHR 0x09, CHR 0x0A, CHR 0x0B, CHR 0x0C, CHR 0x0D}"

definition TrimSpace :: "string \<Rightarrow> string" where
  "TrimSpace s = rev (dropWhile is_space (rev (dropWhile is_space s)))"

section \<open>Base64\<close>

definition b64_alphabet :: string where
  "b64_alphabet = ''ABCDEFGHIJKLMNOPQRSTUVWXYZabcdefghijklmnopqrstuvwxyz0123456789+/''"

definition b64_char :: "nat \<Rightarrow> char" where
  "b64_char k = b64_alphabet ! k"

fun position :: "'a \<Rightarrow> 'a list \<Rightarrow> nat option" where
  "position x [] = None"
| "position x (y # ys) = (if x = y then Some 0 else map_option Suc (position x ys))"

definition b64_value :: "char \<Rightarrow> nat option" where
  "b64_value c = position c b64_alphabet"

text \<open>Six-bit groups of up to three bytes.\<close>

definition b64_group :: "nat \<Rightarrow> nat \<Rightarrow> nat \<Rightarrow> nat list" where
  "b64_group a b c = [a div 4, a mod 4 * 16 + b div 16, b mod 16 * 4 + c div 64, c mod 64]"

fun EncodeToString :: "string \<Rightarrow> string" where
  "EncodeToString [] = []"
| "EncodeToString [a] = map b64_char (take 2 (b64_group (of_char a) 0 0)) @ ''==''"
| "EncodeToString [a, b] = map b64_char (take 3 (b64_group (of_char a) (of_char b) 0)) @ ''=''"
| "EncodeToString (a # b # c # rest) =
     map b64_char (b64_group (of_char a) (of_char b) (of_char c)) @ EncodeToString rest"

text \<open>
  Decoding ignores line breaks, needs the padding and does not look at the unused bits of the last
  group.
\<close>

fun b64_values :: "string \<Rightarrow> nat list option" where
  "b64_values [] = Some []"
| "b64_values (c # cs) =
     (case b64_value c of None \<Rightarrow> None | Some v \<Rightarrow> map_option ((#) v) (b64_values cs))"

fun b64_bytes :: "nat list \<Rightarrow> string" where
  "b64_bytes [p, q] = [char_of (p * 4 + q div 16)]"
| "b64_bytes [p, q, r] = [char_of (p * 4 + q div 16), char_of (q mod 16 * 16 + r div 4)]"
| "b64_bytes [p, q, r, s] =
     [char_of (p * 4 + q div 16), char_of (q mod 16 * 16 + r div 4), char_of (r mod 4 * 64 + s)]"
| "b64_bytes _ = []"

fun b64_decode :: "string \<Rightarrow> string option" where
  "b64_decode [] = Some []"
| "b64_decode (p # q # r # s # rest) =
     (if s = CHR ''='' then
        if rest \<noteq> [] then None
        else map_option b64_bytes (b64_values (if r = CHR ''='' then [p, q] else [p, q, r]))
      else
        (case b64_values [p, q, r, s] of
           None \<Rightarrow> None
         | Some vs \<Rightarrow> map_option ((@) (b64_bytes vs)) (b64_decode rest)))"
| "b64_decode _ = None"

definition DecodeString :: "string \<Rightarrow> error + string" where
  "DecodeString s =
     (case b64_decode (filter (\<lambda>c. c \<noteq> CHR 0x0A \<and> c \<noteq> CHR 0x0D) s) of
        None \<Rightarrow> Inl (ExternalError ''illegal base64 data'')
      | Some bytes \<Rightarrow> Inr bytes)"

section \<open>Decimal notation is read back\<close>

lemma digits_value_snoc: "digits_value (s @ [c]) = digits_value s * 10 + digit_value c"
  by (simp add: digits_value_def)

lemma decimal_digit:
  fixes k :: nat
  assumes "k < 10"
  shows "is_digit (char_of (48 + k))" "digit_value (char_of (48 + k)) = k"
  using assms by (simp_all add: is_digit_def digit_value_def)

lemma decimal_nat_parse:
  "decimal_nat n \<noteq> [] \<and> list_all is_digit (decimal_nat n) \<and> digits_value (decimal_nat n) = n"
proof (induction n rule: decimal_nat.induct)
  case (1 n)
  have m: "n mod 10 < 10" by simp
  show ?case
  proof (cases "n < 10")
    case True
    then show ?thesis
      by (subst (1 2 3) decimal_nat.simps) (simp add: decimal_digit digits_value_def)
  next
    case False
    then show ?thesis
      using 1 [OF False] decimal_digit [OF m]
      by (subst (1 2 3) decimal_nat.simps) (simp add: digits_value_snoc)
  qed
qed

lemma ParseUint_decimal:
  "ParseUint width (decimal_nat n) = (if n < 2 ^ width then Inr n else Inl (ExternalError ''strconv.NumError''))"
  using decimal_nat_parse [of n] by (simp add: ParseUint_def)

lemma decimal_nat_hd: "hd (decimal_nat n) \<noteq> CHR ''-''" "hd (decimal_nat n) \<noteq> CHR ''+''"
proof -
  have "is_digit (hd (decimal_nat n))"
    using decimal_nat_parse [of n] by (cases "decimal_nat n") auto
  then show "hd (decimal_nat n) \<noteq> CHR ''-''" "hd (decimal_nat n) \<noteq> CHR ''+''"
    by (auto simp: is_digit_def)
qed

lemma ParseInt_decimal:
  assumes "- (2 ^ 63) \<le> k" and "k < 2 ^ 63"
  shows "ParseInt 64 (decimal k) = Inr k"
proof (cases "k < 0")
  case True
  then have "nat (- k) \<le> 2 ^ 63" using assms(1) by simp
  with True show ?thesis by (simp add: ParseInt_def decimal_def ParseUint_decimal)
next
  case False
  then have "nat k < 2 ^ 63" using assms(2) by simp
  with False show ?thesis
    using decimal_nat_parse [of "nat k"] by (simp add: ParseInt_def decimal_def ParseUint_decimal decimal_nat_hd)
qed

section \<open>Splitting and joining\<close>

fun join_commas :: "string list \<Rightarrow> string" where
  "join_commas [] = []"
| "join_commas [w] = w"
| "join_commas (w # ws) = w @ CHR '','' # join_commas ws"

lemma split_commas_not_Nil [simp]: "split_commas s \<noteq> []"
  by (cases s) (auto split: list.split)

lemma split_commas_append:
  "CHR '','' \<notin> set w \<Longrightarrow> split_commas (w @ s) = (case split_commas s of v # vs \<Rightarrow> (w @ v) # vs)"
  by (induction w) (auto split: list.split)

lemma split_join_commas:
  "ws \<noteq> [] \<Longrightarrow> \<forall>w\<in>set ws. CHR '','' \<notin> set w \<Longrightarrow> split_commas (join_commas ws) = ws"
proof (induction ws rule: join_commas.induct)
  case (2 w)
  then show ?case using split_commas_append [of w "[]"] by simp
next
  case (3 w v vs)
  then show ?case by (simp add: split_commas_append)
qed simp

section \<open>Base64 decodes what it encodes\<close>

lemma b64_all:
  "list_all (\<lambda>k. b64_value (b64_char k) = Some k \<and> b64_char k \<noteq> CHR ''='' \<and> \<not> is_space (b64_char k)) [0..<64]"
  by code_simp

lemma b64_char_facts:
  assumes "k < 64"
  shows "b64_value (b64_char k) = Some k" "b64_char k \<noteq> CHR ''=''" "\<not> is_space (b64_char k)"
  using b64_all assms by (simp_all add: list_all_iff)

lemma b64_group_bounds:
  fixes a b c :: nat
  assumes "a < 256" "b < 256" "c < 256"
  shows "set (b64_group a b c) \<subseteq> {..<64}"
proof -
  have "a div 4 < 64" "b div 16 < 16" "c div 64 < 4"
    using assms by (simp_all add: div_less_iff_less_mult)
  moreover have "a mod 4 < 4" "b mod 16 < 16" "c mod 64 < 64"
    by simp_all
  ultimately have "a mod 4 * 16 + b div 16 < 64" "b mod 16 * 4 + c div 64 < 64" "a div 4 < 64" "c mod 64 < 64"
    by linarith+
  then show ?thesis by (simp add: b64_group_def)
qed

lemma pair_div_mod:
  fixes x y n :: nat
  assumes "y < n"
  shows "(x * n + y) div n = x" "(x * n + y) mod n = y"
  using assms by simp_all

lemma b64_bytes_group:
  "b64_bytes (b64_group (of_char a) (of_char b) (of_char c)) = [a, b, c]"
  "b64_bytes (take 3 (b64_group (of_char a) (of_char b) 0)) = [a, b]"
  "b64_bytes (take 2 (b64_group (of_char a) 0 0)) = [a]"
proof -
  have inverse: "p div 4 * 4 + (p mod 4 * 16 + q div 16) div 16 = p \<and>
      (p mod 4 * 16 + q div 16) mod 16 * 16 + (q mod 16 * 4 + r div 64) div 4 = q \<and>
      (q mod 16 * 4 + r div 64) mod 4 * 64 + r mod 64 = r" if "q < 256" "r < 256" for p q r :: nat
  proof -
    have "q div 16 < 16" "r div 64 < 4" using that by auto
    then show ?thesis by (simp add: pair_div_mod)
  qed
  show "b64_bytes (b64_group (of_char a) (of_char b) (of_char c)) = [a, b, c]"
    using inverse [of "of_char b" "of_char c" "of_char a"] by (simp add: b64_group_def)
  show "b64_bytes (take 3 (b64_group (of_char a) (of_char b) 0)) = [a, b]"
    using inverse [of "of_char b" 0 "of_char a"] by (simp add: b64_group_def numeral_3_eq_3)
  show "b64_bytes (take 2 (b64_group (of_char a) 0 0)) = [a]"
    using inverse [of 0 0 "of_char a"] by (simp add: b64_group_def numeral_2_eq_2)
qed

lemma b64_values_chars: "set ks \<subseteq> {..<64} \<Longrightarrow> b64_values (map b64_char ks) = Some ks"
  by (induction ks) (simp_all add: b64_char_facts)

lemma b64_decode_group:
  assumes "set [p, q, r, s] \<subseteq> {..<64}"
  shows "b64_decode (map b64_char [p, q, r, s] @ rest) = map_option ((@) (b64_bytes [p, q, r, s])) (b64_decode rest)"
  using assms b64_values_chars [of "[p, q, r, s]"] by (simp add: b64_char_facts)

lemma b64_decode_short:
  assumes "set [p, q, r] \<subseteq> {..<64}"
  shows "b64_decode (map b64_char [p, q, r] @ ''='') = Some (b64_bytes [p, q, r])"
    and "b64_decode (map b64_char [p, q] @ ''=='') = Some (b64_bytes [p, q])"
  using assms b64_values_chars [of "[p, q, r]"] b64_values_chars [of "[p, q]"]
  by (simp_all add: b64_char_facts)

lemma b64_decode_Encode: "b64_decode (EncodeToString s) = Some s"
proof (induction s rule: EncodeToString.induct)
  case (2 a)
  have "set (b64_group (of_char a) 0 0) \<subseteq> {..<64}"
    by (rule b64_group_bounds) simp_all
  then show ?case
    using b64_decode_short(2) [of "of_char a div 4" "of_char a mod 4 * 16" 0] b64_bytes_group(3) [of a]
    by (simp add: b64_group_def numeral_2_eq_2)
next
  case (3 a b)
  have "set (b64_group (of_char a) (of_char b) 0) \<subseteq> {..<64}"
    by (rule b64_group_bounds) simp_all
  then show ?case
    using b64_decode_short(1) [of "of_char a div 4" "of_char a mod 4 * 16 + of_char b div 16"
        "of_char b mod 16 * 4"] b64_bytes_group(2) [of a b]
    by (simp add: b64_group_def numeral_3_eq_3)
next
  case (4 a b c rest)
  have "set (b64_group (of_char a) (of_char b) (of_char c)) \<subseteq> {..<64}"
    by (rule b64_group_bounds) simp_all
  then show ?case
    using b64_decode_group [of "of_char a div 4" "of_char a mod 4 * 16 + of_char b div 16"
        "of_char b mod 16 * 4 + of_char c div 64" "of_char c mod 64"] b64_bytes_group(1) [of a b c] 4
    by (simp add: b64_group_def)
qed simp

lemma pad_no_space [simp]: "\<not> is_space (CHR ''='')"
  by (simp add: is_space_def)

lemma Encode_no_space: "x \<in> set (EncodeToString s) \<Longrightarrow> \<not> is_space x"
proof (induction s rule: EncodeToString.induct)
  case (2 a)
  then show ?case
    using b64_group_bounds [of "of_char a" 0 0] by (auto simp: b64_char_facts dest!: in_set_takeD)
next
  case (3 a b)
  then show ?case
    using b64_group_bounds [of "of_char a" "of_char b" 0] by (auto simp: b64_char_facts dest!: in_set_takeD)
next
  case (4 a b c rest)
  then show ?case
    using b64_group_bounds [of "of_char a" "of_char b" "of_char c"] by (auto simp: b64_char_facts)
qed simp

lemma DecodeString_Encode: "DecodeString (EncodeToString s) = Inr s"
proof -
  have "filter (\<lambda>c. c \<noteq> CHR 0x0A \<and> c \<noteq> CHR 0x0D) (EncodeToString s) = EncodeToString s"
    using Encode_no_space by (auto simp: filter_id_conv is_space_def)
  then show ?thesis by (simp add: DecodeString_def b64_decode_Encode)
qed

end
