(* ===== verification/Cable.thy ===== *)
theory Cable
  imports GoContext GoStrings
begin

text \<open>
  Action Cable connections (\<^verbatim>\<open>src/actioncable\<close>): the messages, the cancellers, the server end of a
  subscription, and the connection with its commands, its reading and writing and its closing.

  Three parties are outside of the package. The websocket connection of the Gorilla library is a record of
  operations on a state of type \<open>'v\<close>; the codec of the negotiated subprotocol is a pair of
  functions; the \<^verbatim>\<open>Handler\<close> acts on a state of type \<open>'w\<close>, in which the contexts live too. A handler call may
  panic or not return. Go's byte slices and strings are both \<open>string\<close>.
\<close>

section \<open>Messages\<close>

definition subscribeCommand :: string where "subscribeCommand = ''subscribe''"
definition unsubscribeCommand :: string where "unsubscribeCommand = ''unsubscribe''"
definition actionCommand :: string where "actionCommand = ''message''"

record clientMessage =
  Command :: string
  cm_Identifier :: string
  cm_Data :: string

text \<open>The dynamic type of the field \<^verbatim>\<open>Message\<close>.\<close>

datatype payload = NoPayload | Text string | Bytes string

record serverMessage =
  sm_Type :: string
  sm_Identifier :: string
  sm_Message :: payload

definition newWelcome :: serverMessage where
  "newWelcome = \<lparr>sm_Type = ''welcome'', sm_Identifier = [], sm_Message = NoPayload\<rparr>"

definition newPing :: "int \<Rightarrow> serverMessage" where
  "newPing unix = \<lparr>sm_Type = ''ping'', sm_Identifier = [], sm_Message = Text (decimal unix)\<rparr>"

definition newSubscriptionConfirmation :: "string \<Rightarrow> serverMessage" where
  "newSubscriptionConfirmation i =
     \<lparr>sm_Type = ''confirm_subscription'', sm_Identifier = i, sm_Message = NoPayload\<rparr>"

definition newSubscriptionRejection :: "string \<Rightarrow> serverMessage" where
  "newSubscriptionRejection i =
     \<lparr>sm_Type = ''reject_subscription'', sm_Identifier = i, sm_Message = NoPayload\<rparr>"

definition newData :: "string \<Rightarrow> payload \<Rightarrow> serverMessage" where
  "newData i message = \<lparr>sm_Type = [], sm_Identifier = i, sm_Message = message\<rparr>"

record disconnectMessage =
  dm_Type :: string
  dm_Reason :: string
  dm_Reconnect :: bool

definition newDisconnect :: "string \<Rightarrow> bool \<Rightarrow> disconnectMessage" where
  "newDisconnect reason allowReconnect =
     \<lparr>dm_Type = ''disconnect'', dm_Reason = reason, dm_Reconnect = allowReconnect\<rparr>"

text \<open>What is written to the websocket.\<close>

datatype serverValue = ServerMessage serverMessage | DisconnectMessage disconnectMessage

section \<open>Cancellers\<close>

text \<open>The cancel function of a context is named by the context.\<close>

type_synonym Cancellers = "(string \<times> ctx list) list"

definition NewCancellers :: Cancellers where
  "NewCancellers = []"

definition cancellers_Add :: "string \<Rightarrow> ctx \<Rightarrow> Cancellers \<Rightarrow> Cancellers" where
  "cancellers_Add i c m = AList.update i ((case map_of m i of None \<Rightarrow> [] | Some cs \<Rightarrow> cs) @ [c]) m"

definition cancellers_Cancel :: "string \<Rightarrow> Cancellers \<Rightarrow> ctxs \<Rightarrow> Cancellers \<times> ctxs" where
  "cancellers_Cancel i m g =
     (AList.delete i m, fold ctx_cancel (case map_of m i of None \<Rightarrow> [] | Some cs \<Rightarrow> cs) g)"

section \<open>Subscriptions\<close>

record Subscription =
  s_identifier :: string
  s_sent :: "serverMessage list"

text \<open>
  \<^verbatim>\<open>SendText\<close> and \<^verbatim>\<open>SendBytes\<close>: \<open>is_done\<close> says which case of the \<^verbatim>\<open>select\<close> is taken, \<open>err\<close> is what
  \<^verbatim>\<open>ctx.Err()\<close> returns then. What the subscription has sent on \<^verbatim>\<open>toClient\<close> is in \<open>s_sent\<close>.
\<close>

definition SendText :: "bool \<Rightarrow> error option \<Rightarrow> string \<Rightarrow> Subscription \<Rightarrow> error option \<times> Subscription" where
  "SendText is_done err message s =
     (if is_done then (err, s)
      else
        let s = s\<lparr>s_sent := s_sent s @ [newData (s_identifier s) (Text message)]\<rparr>
        in if err \<noteq> None then (err, s) else (None, s))"

definition SendBytes :: "bool \<Rightarrow> error option \<Rightarrow> string \<Rightarrow> Subscription \<Rightarrow> error option \<times> Subscription" where
  "SendBytes is_done err message s =
     (if is_done then (err, s)
      else
        let s = s\<lparr>s_sent := s_sent s @ [newData (s_identifier s) (Bytes message)]\<rparr>
        in if err \<noteq> None then (err, s) else (None, s))"

section \<open>The connection\<close>

record 'v websocket =
  ws_Subprotocol :: "'v \<Rightarrow> string"
  ws_SetReadDeadline :: "'v \<Rightarrow> error option \<times> 'v"
  ws_SetWriteDeadline :: "'v \<Rightarrow> error option \<times> 'v"
  ws_ReadMessage :: "'v \<Rightarrow> (error + nat \<times> string) \<times> 'v"
  ws_WriteMessage :: "nat \<Rightarrow> string \<Rightarrow> 'v \<Rightarrow> error option \<times> 'v"
  ws_WriteControl :: "nat \<Rightarrow> string \<Rightarrow> 'v \<Rightarrow> error option \<times> 'v"
  ws_FormatCloseMessage :: "nat \<Rightarrow> string \<Rightarrow> string"
  ws_Close :: "'v \<Rightarrow> error option \<times> 'v"
  ws_IsCloseError :: "error option \<Rightarrow> nat list \<Rightarrow> bool"

text \<open>The numbers RFC 6455 gives to the message types and close codes.\<close>

definition TextMessage :: nat where "TextMessage = 1"
definition BinaryMessage :: nat where "BinaryMessage = 2"
definition CloseMessage :: nat where "CloseMessage = 8"
definition PingMessage :: nat where "PingMessage = 9"
definition CloseNormalClosure :: nat where "CloseNormalClosure = 1000"
definition CloseGoingAway :: nat where "CloseGoingAway = 1001"

record codec =
  Marshal :: "serverValue \<Rightarrow> error + string"
  Unmarshal :: "string \<Rightarrow> error + clientMessage"

text \<open>
  A handler: its two methods and the cancellation of contexts in its state. With its verdict,
  \<open>HandleSubscription\<close> returns the data it has sent through the subscription meanwhile.
\<close>

record 'w Handler =
  h_WithCancel :: "ctx \<Rightarrow> 'w \<Rightarrow> 'w \<times> ctx"
  h_cancel :: "ctx \<Rightarrow> 'w \<Rightarrow> 'w"
  HandleSubscription :: "ctx \<Rightarrow> string \<Rightarrow> 'w \<Rightarrow> ((error option \<times> payload list) \<times> 'w) go"
  HandleAction :: "ctx \<Rightarrow> string \<Rightarrow> string \<Rightarrow> 'w \<Rightarrow> (error option \<times> 'w) go"

text \<open>
  \<open>c_sent\<close> are the messages that were sent on the unbuffered channel \<^verbatim>\<open>toClient\<close> by the connection itself,
  \<open>toClient_closed\<close> whether the channel is closed. The value of \<^verbatim>\<open>unsubscribers\<close>, a cancel function, is named
  by its context.
\<close>

record 'v Conn =
  wsc :: 'v
  c_sent :: "serverMessage list"
  toClient_closed :: bool
  c_unsubscribers :: "(string \<times> ctx) list"
  sanitizeError :: "error option \<Rightarrow> string"
  subprotocol :: string
  marshaledWSType :: nat
  marshaler :: codec

definition isNormalClose :: "'v websocket \<Rightarrow> error option \<Rightarrow> bool" where
  "isNormalClose W err = ws_IsCloseError W err [CloseNormalClosure, CloseGoingAway]"

definition filterNormalClose :: "'v websocket \<Rightarrow> error option \<Rightarrow> error option \<Rightarrow> error option" where
  "filterNormalClose W underlying wrapped = (if isNormalClose W underlying then underlying else wrapped)"

definition WithErrorSanitizer :: "(error option \<Rightarrow> string) \<Rightarrow> 'v Conn \<Rightarrow> 'v Conn" where
  "WithErrorSanitizer f conn = conn\<lparr>sanitizeError := f\<rparr>"

definition defaultErrorSanitizer :: "error option \<Rightarrow> string" where
  "defaultErrorSanitizer err =
     (case err of
        None \<Rightarrow> []
      | Some e \<Rightarrow> if errors_Is e Canceled then ''logged out'' else ''server or client error'')"

definition ActionCableV1JSONSubprotocol :: string where
  "ActionCableV1JSONSubprotocol = ''actioncable-v1-json''"

definition ActionCableV1MsgpackSubprotocol :: string where
  "ActionCableV1MsgpackSubprotocol = ''actioncable-v1-msgpack''"

definition SupportedSubprotocols :: "string list" where
  "SupportedSubprotocols = [ActionCableV1JSONSubprotocol, ActionCableV1MsgpackSubprotocol]"

definition Upgrade ::
  "'v websocket \<Rightarrow> codec \<Rightarrow> codec \<Rightarrow> ('v Conn \<Rightarrow> 'v Conn) list \<Rightarrow> 'v \<Rightarrow> error + 'v Conn" where
  "Upgrade W json msgpack opts v =
     (let sp = ws_Subprotocol W v;
          conn = (\<lambda>messageType m.
            fold (\<lambda>opt c. opt c) opts
              \<lparr>wsc = v, c_sent = [], toClient_closed = False, c_unsubscribers = [],
               sanitizeError = defaultErrorSanitizer, subprotocol = sp, marshaledWSType = messageType,
               marshaler = m\<rparr>)
      in if sp = [] then Inl (Errorf ''unsupported client-requested websocket subprotocol'')
         else if sp = ActionCableV1JSONSubprotocol then Inr (conn TextMessage json)
         else if sp = ActionCableV1MsgpackSubprotocol then Inr (conn BinaryMessage msgpack)
         else Inl (Errorf ''unsupported negotiated websocket subprotocol %s''))"

section \<open>Writing\<close>

text \<open>Running an operation of the websocket.\<close>

definition on_wsc :: "('v \<Rightarrow> 'r \<times> 'v) \<Rightarrow> 'v Conn \<Rightarrow> 'r \<times> 'v Conn" where
  "on_wsc f c = (let (r, v) = f (wsc c) in (r, c\<lparr>wsc := v\<rparr>))"

definition resetWriteDeadline :: "'v websocket \<Rightarrow> 'v Conn \<Rightarrow> error option \<times> 'v Conn" where
  "resetWriteDeadline W c =
     (let (err, c) = on_wsc (ws_SetWriteDeadline W) c
      in (errors_Wrap err ''couldn't reset write deadline'', c))"

definition writeMessage :: "'v websocket \<Rightarrow> nat \<Rightarrow> string \<Rightarrow> 'v Conn \<Rightarrow> error option \<times> 'v Conn" where
  "writeMessage W messageType data c =
     (let (err, c) = resetWriteDeadline W c
      in if err \<noteq> None then (err, c)
         else
           let (err, c) = on_wsc (ws_WriteMessage W messageType data) c
           in (errors_Wrap err ''couldn't write data over websocket connection'', c))"

definition writeAsMarshaled :: "'v websocket \<Rightarrow> serverValue \<Rightarrow> 'v Conn \<Rightarrow> error option \<times> 'v Conn" where
  "writeAsMarshaled W x c =
     (case Marshal (marshaler c) x of
        Inl e \<Rightarrow> (Some (Wrapped ''couldn't marshal data to write over websocket connection'' e), c)
      | Inr marshaled \<Rightarrow> writeMessage W (marshaledWSType c) marshaled c)"

section \<open>Closing\<close>

definition disconnect ::
  "'v websocket \<Rightarrow> 'w Handler \<Rightarrow> error option \<Rightarrow> bool \<Rightarrow> 'v Conn \<times> 'w \<Rightarrow> 'v Conn \<times> 'w" where
  "disconnect W H serr allowReconnect cw =
     (let (c, w) = cw;
          w = fold (h_cancel H) (map snd (c_unsubscribers c)) w;
          c = c\<lparr>c_unsubscribers := []\<rparr>
      in (snd (writeAsMarshaled W (DisconnectMessage (newDisconnect (sanitizeError c serr) allowReconnect)) c), w))"

text \<open>Closing a closed channel panics.\<close>

definition conn_Close ::
  "'v websocket \<Rightarrow> 'w Handler \<Rightarrow> error option \<Rightarrow> 'v Conn \<times> 'w \<Rightarrow> (error option \<times> 'v Conn \<times> 'w) go" where
  "conn_Close W H err cw =
     (let (c, w) = disconnect W H err False cw;
          c = snd (on_wsc (ws_WriteControl W CloseMessage
                (ws_FormatCloseMessage W CloseGoingAway ''server closing connection'')) c)
      in if toClient_closed c then Some (Inl CloseOfClosed)
         else
           let (err, c) = on_wsc (ws_Close W) (c\<lparr>toClient_closed := True\<rparr>)
           in go_return (errors_Wrap err ''couldn't close websocket'', c, w))"

section \<open>Commands\<close>

text \<open>
  \<^verbatim>\<open>subscribe\<close> up to its send on \<^verbatim>\<open>toClient\<close>: the messages to send, the last of which is the reply, and the
  context and error of a rejected subscription.
\<close>

definition subscribe_start ::
  "'w Handler \<Rightarrow> ctx \<Rightarrow> string \<Rightarrow> 'v Conn \<times> 'w \<Rightarrow>
   ((serverMessage list \<times> (ctx \<times> error) option) \<times> 'v Conn \<times> 'w) go" where
  "subscribe_start H ctx i cw =
     (let (c, w) = cw
      in if map_of (c_unsubscribers c) i \<noteq> None
         then go_return (([newSubscriptionConfirmation i], None), c, w)
         else
           let (w, cctx) = h_WithCancel H ctx w
           in go_bind (HandleSubscription H cctx i w) (\<lambda>((err, ps), w).
                case err of
                  Some e \<Rightarrow> go_return ((map (newData i) ps @ [newSubscriptionRejection i], Some (cctx, e)), c, w)
                | None \<Rightarrow>
                    go_return ((map (newData i) ps @ [newSubscriptionConfirmation i], None),
                      c\<lparr>c_unsubscribers := AList.update i cctx (c_unsubscribers c)\<rparr>, w)))"

definition subscribe_finish :: "'w Handler \<Rightarrow> (ctx \<times> error) option \<Rightarrow> 'w \<Rightarrow> error option \<times> 'w" where
  "subscribe_finish H rejected w =
     (case rejected of
        None \<Rightarrow> (None, w)
      | Some (cctx, e) \<Rightarrow> (Some (Wrapped ''subscribe command handler encountered error'' e), h_cancel H cctx w))"

definition conn_subscribe ::
  "'w Handler \<Rightarrow> ctx \<Rightarrow> string \<Rightarrow> 'v Conn \<times> 'w \<Rightarrow> (error option \<times> 'v Conn \<times> 'w) go" where
  "conn_subscribe H ctx i cw =
     go_bind (subscribe_start H ctx i cw) (\<lambda>((ms, rejected), c, w).
       let (err, w) = subscribe_finish H rejected w
       in go_return (err, c\<lparr>c_sent := c_sent c @ ms\<rparr>, w))"

definition conn_unsubscribe :: "'w Handler \<Rightarrow> string \<Rightarrow> 'v Conn \<times> 'w \<Rightarrow> 'v Conn \<times> 'w" where
  "conn_unsubscribe H i cw =
     (let (c, w) = cw
      in case map_of (c_unsubscribers c) i of
           None \<Rightarrow> (c, w)
         | Some u \<Rightarrow> (c\<lparr>c_unsubscribers := AList.delete i (c_unsubscribers c)\<rparr>, h_cancel H u w))"

definition conn_receive ::
  "'w Handler \<Rightarrow> ctx \<Rightarrow> clientMessage \<Rightarrow> 'v Conn \<times> 'w \<Rightarrow> (error option \<times> 'v Conn \<times> 'w) go" where
  "conn_receive H ctx command cw =
     (if Command command = subscribeCommand then conn_subscribe H ctx (cm_Identifier command) cw
      else if Command command = unsubscribeCommand
      then go_return (None, conn_unsubscribe H (cm_Identifier command) cw)
      else if Command command = actionCommand
      then go_bind (HandleAction H ctx (cm_Identifier command) (cm_Data command) (snd cw)) (\<lambda>(err, w).
             go_return (errors_Wrap err ''action command handler encountered error'', fst cw, w))
      else go_return (Some (Errorf ''unknown command %s''), cw))"

section \<open>Reading\<close>

definition readAsMarshaled :: "'v websocket \<Rightarrow> 'v Conn \<Rightarrow> (error + clientMessage) \<times> 'v Conn" where
  "readAsMarshaled W c =
     (let (r, c) = on_wsc (ws_ReadMessage W) c
      in (case r of
            Inl e \<Rightarrow> Inl (the (filterNormalClose W (Some e) (Some (Wrapped ''couldn't read websocket message'' e))))
          | Inr (messageType, marshaled) \<Rightarrow>
              if messageType \<noteq> marshaledWSType c
              then Inl (Errorf ''unexpected websocket message type %d (expected %d)'')
              else
                (case Unmarshal (marshaler c) marshaled of
                   Inl e \<Rightarrow> Inl (Wrapped ''couldn't unmarshal websocket message'' e)
                 | Inr command \<Rightarrow> Inr command), c))"

text \<open>
  The pong handler that \<^verbatim>\<open>receiveAll\<close> installs, which the library calls while it reads; it pushes the read
  deadline back. A read is an operation on the websocket's state as a whole, so these calls are part of \<open>ws_ReadMessage\<close>.
\<close>

definition pong_handler :: "'v websocket \<Rightarrow> 'v Conn \<Rightarrow> error option \<times> 'v Conn" where
  "pong_handler W c =
     (let (err, c) = on_wsc (ws_SetReadDeadline W) c
      in (errors_Wrap err ''couldn't set read deadline'', c))"

text \<open>
  The loop of \<^verbatim>\<open>receiveAll\<close>, driven by which case each \<^verbatim>\<open>select\<close> takes and what \<^verbatim>\<open>ctx.Err()\<close> returns then; in
  both cases the read has completed. The result \<open>None\<close> means that the loop is still running.
\<close>

fun receive_loop ::
  "'v websocket \<Rightarrow> 'w Handler \<Rightarrow> ctx \<Rightarrow> (error option \<times> bool) list \<Rightarrow> 'v Conn \<times> 'w \<Rightarrow>
   (error option option \<times> 'v Conn \<times> 'w) go" where
  "receive_loop W H ctx [] cw = go_return (None, cw)"
| "receive_loop W H ctx ((cerr, is_done) # ts) (c, w) =
     (let (r, c) = readAsMarshaled W c
      in if is_done then go_return (Some cerr, c, w)
         else
           case r of
             Inl e \<Rightarrow>
               go_return (Some (filterNormalClose W (Some e)
                 (Some (Wrapped ''couldn't unmarshal client message'' e))), c, w)
           | Inr command \<Rightarrow>
               if cerr \<noteq> None then go_return (Some cerr, c, w)
               else
                 go_bind (conn_receive H ctx command (c, w)) (\<lambda>(err, cw).
                   if err \<noteq> None then go_return (Some err, cw) else receive_loop W H ctx ts cw))"

definition receiveAll ::
  "'v websocket \<Rightarrow> 'w Handler \<Rightarrow> ctx \<Rightarrow> (error option \<times> bool) list \<Rightarrow> 'v Conn \<times> 'w \<Rightarrow>
   (error option option \<times> 'v Conn \<times> 'w) go" where
  "receiveAll W H ctx ts cw =
     (let (c, w) = cw;
          (err, c) = on_wsc (ws_SetReadDeadline W) c
      in if err \<noteq> None then go_return (Some (errors_Wrap err ''couldn't set read deadline''), c, w)
         else receive_loop W H ctx ts (c, w))"

section \<open>Sending\<close>

text \<open>The cases of the \<^verbatim>\<open>select\<close> of \<^verbatim>\<open>sendAll\<close>; the ticks carry the time in seconds.\<close>

datatype sendEvent = SendDone | WsPingTick int | CablePingTick int | FromClientQueue serverMessage

fun send_event :: "'v websocket \<Rightarrow> sendEvent \<Rightarrow> 'v Conn \<Rightarrow> error option \<times> 'v Conn" where
  "send_event W SendDone c = (None, c)"
| "send_event W (WsPingTick t) c =
     (let (err, c) = writeMessage W PingMessage (decimal t) c
      in (filterNormalClose W err (errors_Wrap err ''couldn't send websocket ping''), c))"
| "send_event W (CablePingTick t) c =
     (let (err, c) = writeAsMarshaled W (ServerMessage (newPing t)) c
      in (filterNormalClose W err (errors_Wrap err ''couldn't send Action Cable ping''), c))"
| "send_event W (FromClientQueue m) c =
     (let (err, c) = writeAsMarshaled W (ServerMessage m) c
      in (filterNormalClose W err
            (errors_Wrap err ''couldn't send Action Cable server message for client''), c))"

fun send_loop :: "'v websocket \<Rightarrow> (error option \<times> sendEvent) list \<Rightarrow> 'v Conn \<Rightarrow> error option option \<times> 'v Conn" where
  "send_loop W [] c = (None, c)"
| "send_loop W ((cerr, ev) # evs) c =
     (if ev = SendDone \<or> cerr \<noteq> None then (Some cerr, c)
      else
        let (err, c) = send_event W ev c
        in if err \<noteq> None then (Some err, c) else send_loop W evs c)"

definition send_handshake :: "'v websocket \<Rightarrow> 'v Conn \<Rightarrow> error option \<times> 'v Conn" where
  "send_handshake W c =
     (let (err, c) = resetWriteDeadline W c
      in if err \<noteq> None then (err, c)
         else
           let (err, c) = writeAsMarshaled W (ServerMessage newWelcome) c
           in (errors_Wrap err ''couldn't send welcome message for Action Cable handshake'', c))"

definition sendAll :: "'v websocket \<Rightarrow> (error option \<times> sendEvent) list \<Rightarrow> 'v Conn \<Rightarrow> error option option \<times> 'v Conn" where
  "sendAll W evs c =
     (let (err, c) = send_handshake W c
      in if err \<noteq> None then (Some err, c) else send_loop W evs c)"

text \<open>What \<^verbatim>\<open>Serve\<close> makes of the first error of its two goroutines.\<close>

definition serve_error :: "'v websocket \<Rightarrow> error option \<Rightarrow> error option" where
  "serve_error W err = (if err \<noteq> None then if isNormalClose W err then None else err else None)"


section \<open>Runs of a connection\<close>

text \<open>
  The life of a connection between \<^verbatim>\<open>Upgrade\<close> and \<^verbatim>\<open>Close\<close>, with the set of the contexts that
  \<^verbatim>\<open>subscribe\<close> has derived: commands are processed, the websocket changes, and the rest of the program
  changes the handler's state by steps \<open>env\<close>.
\<close>

definition derived_by :: "'w Handler \<Rightarrow> ctx \<Rightarrow> clientMessage \<Rightarrow> 'v Conn \<times> 'w \<Rightarrow> ctx set" where
  "derived_by H ctx command cw =
     (if Command command = subscribeCommand \<and>
         map_of (c_unsubscribers (fst cw)) (cm_Identifier command) = None
      then {snd (h_WithCancel H ctx (snd cw))} else {})"

inductive conn_run ::
  "'w Handler \<Rightarrow> ('w \<Rightarrow> 'w \<Rightarrow> bool) \<Rightarrow> ctx \<Rightarrow> 'w \<Rightarrow> 'v Conn \<Rightarrow> 'w \<Rightarrow> ctx set \<Rightarrow> bool"
  for H :: "'w Handler" and env :: "'w \<Rightarrow> 'w \<Rightarrow> bool" and ctx :: ctx and w0 :: 'w where
  upgraded: "Upgrade W json msgpack [] v = Inr c \<Longrightarrow> conn_run H env ctx w0 c w0 {}"
| command: "conn_run H env ctx w0 c w D \<Longrightarrow> conn_receive H ctx cmd (c, w) = Some (Inr (err, c', w')) \<Longrightarrow>
    conn_run H env ctx w0 c' w' (D \<union> derived_by H ctx cmd (c, w))"
| socket: "conn_run H env ctx w0 c w D \<Longrightarrow> conn_run H env ctx w0 (c\<lparr>wsc := v\<rparr>) w D"
| other: "conn_run H env ctx w0 c w D \<Longrightarrow> env w w' \<Longrightarrow> conn_run H env ctx w0 c w' D"

text \<open>
  What a connection relies on: the handler's state keeps its invariant and never revives a context.
\<close>

definition advances ::
  "('w \<Rightarrow> bool) \<Rightarrow> ('w \<Rightarrow> ctx \<Rightarrow> bool) \<Rightarrow> ('w \<Rightarrow> ctx \<Rightarrow> bool) \<Rightarrow> 'w \<Rightarrow> 'w \<Rightarrow> bool" where
  "advances ok known done_in w w' \<longleftrightarrow>
     ok w' \<and> (\<forall>d. known w d \<longrightarrow> known w' d) \<and> (\<forall>d. done_in w d \<longrightarrow> done_in w' d)"

lemma advancesD:
  "advances ok known done_in w w' \<Longrightarrow> ok w'"
  "advances ok known done_in w w' \<Longrightarrow> known w d \<Longrightarrow> known w' d"
  "advances ok known done_in w w' \<Longrightarrow> done_in w d \<Longrightarrow> done_in w' d"
  by (auto simp: advances_def)

lemma advances_trans:
  "advances ok known done_in u v \<Longrightarrow> advances ok known done_in v w \<Longrightarrow> advances ok known done_in u w"
  by (auto simp: advances_def)

text \<open>\<^verbatim>\<open>Close\<close> calls every unsubscriber and forgets it.\<close>

lemma conn_Close_cancels:
  assumes "conn_Close W H err (c, w) = Some (Inr (r, c', w'))"
  shows "w' = fold (h_cancel H) (map snd (c_unsubscribers c)) w" "c_unsubscribers c' = []"
  using assms by (auto simp: conn_Close_def disconnect_def on_wsc_def writeAsMarshaled_def writeMessage_def
      resetWriteDeadline_def Let_def split: if_splits sum.splits prod.splits)

locale cable_handler = cancellation done_in "h_WithCancel H" "h_cancel H" known inv
  for done_in :: "'w \<Rightarrow> ctx \<Rightarrow> bool" and known :: "'w \<Rightarrow> ctx \<Rightarrow> bool" and inv :: "'w \<Rightarrow> bool"
    and H :: "'w Handler" +
  fixes env :: "'w \<Rightarrow> 'w \<Rightarrow> bool"
  assumes subscription_advances: "inv w \<Longrightarrow> known w c \<Longrightarrow>
      HandleSubscription H c i w = Some (Inr (r, w')) \<Longrightarrow> advances inv known done_in w w'"
    and action_advances: "inv w \<Longrightarrow> known w c \<Longrightarrow>
      HandleAction H c i d w = Some (Inr (err, w')) \<Longrightarrow> advances inv known done_in w w'"
    and env_advances: "inv w \<Longrightarrow> env w w' \<Longrightarrow> advances inv known done_in w w'"
begin

text \<open>Every derived context is either held by an unsubscriber or done.\<close>

definition tracked :: "ctx \<Rightarrow> 'v Conn \<Rightarrow> 'w \<Rightarrow> ctx set \<Rightarrow> bool" where
  "tracked ctx c w D \<longleftrightarrow>
     inv w \<and> known w ctx \<and> distinct (map fst (c_unsubscribers c)) \<and> (\<forall>d\<in>D. known w d) \<and>
     snd ` set (c_unsubscribers c) \<subseteq> D \<and> (\<forall>d\<in>D. d \<in> snd ` set (c_unsubscribers c) \<or> done_in w d)"

lemma tracked_advances:
  "tracked ctx c w D \<Longrightarrow> advances inv known done_in w w' \<Longrightarrow> tracked ctx c w' D"
  unfolding tracked_def advances_def by blast

lemma cancel_advances: "inv w \<Longrightarrow> known w d \<Longrightarrow> advances inv known done_in w (h_cancel H d w)"
  by (simp add: advances_def cancel_inv cancel_known cancel_mono)

lemma derive_advances:
  "inv w \<Longrightarrow> h_WithCancel H c w = (w', d) \<Longrightarrow> advances inv known done_in w w'"
  unfolding advances_def
  by (intro conjI allI impI) (auto intro: derive_inv derive_known_mono simp: derive_same)

lemmas adv = advancesD [of inv known done_in]

lemma subscribe_tracked:
  assumes t: "tracked ctx c w D" and run: "conn_subscribe H ctx i (c, w) = Some (Inr (err, c', w'))"
    and cmd: "Command cmd = subscribeCommand" "cm_Identifier cmd = i"
  shows "tracked ctx c' w' (D \<union> derived_by H ctx cmd (c, w))"
proof (cases "map_of (c_unsubscribers c) i")
  case (Some u)
  then have "w' = w" "c_unsubscribers c' = c_unsubscribers c"
    using run by (auto simp: conn_subscribe_def subscribe_start_def subscribe_finish_def)
  then show ?thesis
    using t Some cmd by (simp add: tracked_def derived_by_def)
next
  case None
  obtain v d where der: "h_WithCancel H ctx w = (v, d)" by force
  from None run der obtain r ps u where
    h: "HandleSubscription H d i v = Some (Inr ((r, ps), u))" and
    res: "(r = None \<and> w' = u \<and> c_unsubscribers c' = AList.update i d (c_unsubscribers c)) \<or>
      (r \<noteq> None \<and> w' = h_cancel H d u \<and> c_unsubscribers c' = c_unsubscribers c)"
    by (auto simp: conn_subscribe_def subscribe_start_def subscribe_finish_def split: option.splits)
  have w: "inv w" "known w ctx"
    using t by (auto simp: tracked_def)
  have v: "advances inv known done_in w v" "known v d"
    using derive_advances [OF w(1) der] derive_known [OF w(2) der] by auto
  have u: "advances inv known done_in v u" "known u d"
    using subscription_advances [OF adv(1) [OF v(1)] v(2) h] adv(2) [OF _ v(2)] by simp_all
  have tu: "tracked ctx c u D"
    using t v u tracked_advances by blast
  have D: "derived_by H ctx cmd (c, w) = {d}"
    using None cmd der by (simp add: derived_by_def)
  show ?thesis
  proof (cases "r = None")
    case True
    then have "snd ` set (c_unsubscribers c') = insert d (snd ` set (c_unsubscribers c))"
      using res None by (auto simp: update_absent)
    then show ?thesis
      using True res tu u D by (auto simp: tracked_def)
  next
    case False
    then have w': "w' = h_cancel H d u" and "inv u"
      using res tu by (auto simp: tracked_def)
    then have "tracked ctx c w' D" "done_in w' d" "known w' d"
      using tracked_advances [OF tu cancel_advances [OF _ u(2)]] u(2)
      by (simp_all add: cancel_known cancel_done)
    then show ?thesis
      using False res D unfolding tracked_def by (elim disjE conjE) (simp_all add: subset_insertI2)
  qed
qed

lemma unsubscribe_tracked:
  assumes "tracked ctx c w D" and "conn_unsubscribe H i (c, w) = (c', w')"
  shows "tracked ctx c' w' D"
proof (cases "map_of (c_unsubscribers c) i")
  case (Some u)
  then have c': "c_unsubscribers c' = AList.delete i (c_unsubscribers c)" "w' = h_cancel H u w"
    using assms(2) by (auto simp: conn_unsubscribe_def)
  have "known w u" "inv w"
    using assms(1) Some by (auto simp: tracked_def dest!: map_of_SomeD)
  then have t: "tracked ctx c w' D" and u: "done_in w' u"
    using tracked_advances [OF assms(1) cancel_advances] c' by (simp_all add: cancel_done)
  have sup: "snd ` set (c_unsubscribers c) \<subseteq> insert u (snd ` set (c_unsubscribers c'))"
    using values_delete [OF _ Some] t unfolding c' tracked_def by blast
  have sub: "snd ` set (c_unsubscribers c') \<subseteq> snd ` set (c_unsubscribers c)"
    by (auto simp: c' AList.delete_eq)
  have "d \<in> snd ` set (c_unsubscribers c') \<or> done_in w' d" if "d \<in> D" for d
  proof -
    have "d \<in> snd ` set (c_unsubscribers c) \<or> done_in w' d"
      using t that by (simp add: tracked_def)
    with u subsetD [OF sup, of d] show ?thesis by blast
  qed
  then show ?thesis
    using t subset_trans [OF sub] by (simp add: tracked_def c')
qed (use assms in \<open>simp add: conn_unsubscribe_def\<close>)

lemma receive_tracked:
  assumes t: "tracked ctx c w D" and run: "conn_receive H ctx cmd (c, w) = Some (Inr (err, c', w'))"
  shows "tracked ctx c' w' (D \<union> derived_by H ctx cmd (c, w))"
proof -
  have cmds: "unsubscribeCommand \<noteq> subscribeCommand" "actionCommand \<noteq> subscribeCommand"
    "actionCommand \<noteq> unsubscribeCommand"
    by (simp_all add: subscribeCommand_def unsubscribeCommand_def actionCommand_def)
  consider "Command cmd = subscribeCommand" | "Command cmd = unsubscribeCommand"
    | "Command cmd = actionCommand"
    | "Command cmd \<notin> {subscribeCommand, unsubscribeCommand, actionCommand}" by blast
  then show ?thesis
  proof cases
    case 1
    then show ?thesis
      using run by (intro subscribe_tracked [OF t]) (simp_all add: conn_receive_def)
  next
    case 2
    then have "conn_unsubscribe H (cm_Identifier cmd) (c, w) = (c', w')"
      using run cmds by (simp add: conn_receive_def)
    then show ?thesis
      using unsubscribe_tracked [OF t] 2 cmds by (simp add: derived_by_def)
  next
    case 3
    then obtain r where "HandleAction H ctx (cm_Identifier cmd) (cm_Data cmd) w = Some (Inr (r, w'))"
      and "c' = c"
      using run cmds by (auto simp: conn_receive_def)
    moreover have "inv w" "known w ctx" using t by (simp_all add: tracked_def)
    ultimately have "tracked ctx c' w' D"
      using tracked_advances [OF t action_advances] by simp
    then show ?thesis
      using 3 cmds by (simp add: derived_by_def)
  next
    case 4
    then show ?thesis
      using run t by (auto simp: conn_receive_def derived_by_def)
  qed
qed

lemma conn_run_tracked:
  assumes "conn_run H env ctx w0 c w D" and "inv w0" and "known w0 ctx"
  shows "tracked ctx c w D"
  using assms
proof (induction rule: conn_run.induct)
  case (upgraded W json msgpack v c)
  then have "c_unsubscribers c = []"
    by (auto simp: Upgrade_def Let_def split: if_splits)
  then show ?case
    using upgraded by (simp add: tracked_def)
next
  case (command c w D cmd err c' w')
  then show ?case by (intro receive_tracked) auto
next
  case (socket c w D v)
  then show ?case by (simp add: tracked_def)
next
  case (other c w D w')
  then have "inv w" by (simp add: tracked_def)
  then show ?case
    using other tracked_advances env_advances by blast
qed

text \<open>Closing a connection ends every context that its subscriptions were given.\<close>

lemma close_ends_all:
  assumes run: "conn_run H env ctx w0 c w D" and w0: "inv w0" "known w0 ctx"
    and cl: "conn_Close W H err (c, w) = Some (Inr (r, c', w'))" and d: "d \<in> D"
  shows "done_in w' d \<and> c_unsubscribers c' = []"
proof -
  note w' = conn_Close_cancels(1) [OF cl] and c' = conn_Close_cancels(2) [OF cl]
  have "d \<in> set (map snd (c_unsubscribers c)) \<or> done_in w d"
    using conn_run_tracked [OF run w0] d by (auto simp: tracked_def)
  then show ?thesis
    unfolding w' using fold_cancel_done fold_cancel_mono c' by blast
qed

end

section \<open>Facts on single operations\<close>

text \<open>What a successful run of \<^verbatim>\<open>subscribe\<close> has done.\<close>

lemma conn_subscribe_cases:
  assumes "conn_subscribe H ctx i (c, w) = Some (Inr (err, c', w'))"
  obtains (again) "map_of (c_unsubscribers c) i \<noteq> None" "err = None" "w' = w"
      "c' = c\<lparr>c_sent := c_sent c @ [newSubscriptionConfirmation i]\<rparr>"
    | (accepted) v d ps where "map_of (c_unsubscribers c) i = None" "h_WithCancel H ctx w = (v, d)"
      "HandleSubscription H d i v = Some (Inr ((None, ps), w'))" "err = None"
      "c' = c\<lparr>c_sent := c_sent c @ map (newData i) ps @ [newSubscriptionConfirmation i],
        c_unsubscribers := AList.update i d (c_unsubscribers c)\<rparr>"
    | (rejected) v d ps e u where "map_of (c_unsubscribers c) i = None" "h_WithCancel H ctx w = (v, d)"
      "HandleSubscription H d i v = Some (Inr ((Some e, ps), u))" "w' = h_cancel H d u"
      "err = Some (Wrapped ''subscribe command handler encountered error'' e)"
      "c' = c\<lparr>c_sent := c_sent c @ map (newData i) ps @ [newSubscriptionRejection i]\<rparr>"
proof (cases "map_of (c_unsubscribers c) i")
  case None
  obtain v d where der: "h_WithCancel H ctx w = (v, d)" by force
  with None assms obtain r ps u where
    h: "HandleSubscription H d i v = Some (Inr ((r, ps), u))"
    by (auto simp: conn_subscribe_def subscribe_start_def)
  show thesis
  proof (cases r)
    case None
    with h der assms \<open>map_of (c_unsubscribers c) i = None\<close> show thesis
      by (intro accepted) (auto simp: conn_subscribe_def subscribe_start_def subscribe_finish_def)
  next
    case (Some e)
    with h der assms None show thesis
      by (intro rejected) (auto simp: conn_subscribe_def subscribe_start_def subscribe_finish_def)
  qed
next
  case Some
  with assms show thesis
    by (intro again) (auto simp: conn_subscribe_def subscribe_start_def subscribe_finish_def)
qed

text \<open>Histories of a \<^verbatim>\<open>Cancellers\<close> value.\<close>

datatype cancellers_op = AddCanceller string ctx | CancelId string

fun cancellers_run :: "cancellers_op list \<Rightarrow> Cancellers \<times> ctxs \<Rightarrow> Cancellers \<times> ctxs" where
  "cancellers_run [] mg = mg"
| "cancellers_run (AddCanceller i c # ops) (m, g) = cancellers_run ops (cancellers_Add i c m, g)"
| "cancellers_run (CancelId i # ops) (m, g) = cancellers_run ops (cancellers_Cancel i m g)"

definition pending :: "Cancellers \<Rightarrow> string \<Rightarrow> ctx list" where
  "pending m i = (case map_of m i of None \<Rightarrow> [] | Some cs \<Rightarrow> cs)"

lemma pending_simps [simp]:
  "pending (cancellers_Add i c m) j = (if i = j then pending m j @ [c] else pending m j)"
  "pending (AList.delete i m) j = (if i = j then [] else pending m j)"
  "pending [] j = []"
  by (auto simp: pending_def cancellers_Add_def)

lemma ctx_Done_fold_cancel:
  "ctx_Done (fold ctx_cancel cs g) d \<longleftrightarrow> ctx_Done g d \<or> (\<exists>c\<in>set cs. prefix c d)"
  by (induction cs arbitrary: g) auto

text \<open>The contexts that a history cancels: added under an identifier that is cancelled later.\<close>

fun cancels :: "(string \<Rightarrow> ctx list) \<Rightarrow> cancellers_op list \<Rightarrow> ctx set" where
  "cancels p [] = {}"
| "cancels p (AddCanceller i c # ops) = cancels (p(i := p i @ [c])) ops"
| "cancels p (CancelId i # ops) = set (p i) \<union> cancels (p(i := [])) ops"

lemma cancellers_run_Done:
  "cancellers_run ops (m, g) = (m', g') \<Longrightarrow>
   ctx_Done g' d \<longleftrightarrow> ctx_Done g d \<or> (\<exists>c\<in>cancels (pending m) ops. prefix c d)"
proof (induction ops arbitrary: m g)
  case (Cons a ops)
  show ?case
  proof (cases a)
    case (AddCanceller i c)
    have p: "pending (cancellers_Add i c m) = (pending m)(i := pending m i @ [c])"
      by (simp add: fun_eq_iff)
    show ?thesis
      using Cons.IH [of "cancellers_Add i c m" g, unfolded p] Cons.prems AddCanceller by (simp add: fun_upd_def)
  next
    case (CancelId i)
    have "pending (AList.delete i m) = (pending m)(i := [])"
      by (simp add: fun_eq_iff)
    with Cons CancelId show ?thesis
      by (auto simp: cancellers_Cancel_def ctx_Done_fold_cancel pending_def [symmetric] fun_upd_def)
  qed
qed simp

lemma cancels_iff:
  "c \<in> cancels p ops \<longleftrightarrow>
     (\<exists>i. CancelId i \<in> set ops \<and> c \<in> set (p i)) \<or>
     (\<exists>i xs ys. ops = xs @ AddCanceller i c # ys \<and> CancelId i \<in> set ys)"
  (is "_ \<longleftrightarrow> ?P p ops \<or> ?Q ops")
proof (induction ops arbitrary: p)
  case (Cons a ops)
  have Q: "?Q (a # ops) \<longleftrightarrow> (\<exists>i. a = AddCanceller i c \<and> CancelId i \<in> set ops) \<or> ?Q ops"
    by (auto simp: Cons_eq_append_conv)
  show ?case
    unfolding Q by (cases a; simp add: Cons.IH; metis)
qed simp

section \<open>Properties of the connection\<close>

definition demo_codec :: codec where
  "demo_codec =
     \<lparr>Marshal = \<lambda>_. Inr ''m'', Unmarshal = \<lambda>_. Inr \<lparr>Command = [], cm_Identifier = [], cm_Data = []\<rparr>\<rparr>"

definition demo_conn :: "unit Conn" where
  "demo_conn =
     \<lparr>wsc = (), c_sent = [], toClient_closed = False, c_unsubscribers = [],
      sanitizeError = defaultErrorSanitizer, subprotocol = ActionCableV1JSONSubprotocol,
      marshaledWSType = TextMessage, marshaler = demo_codec\<rparr>"

text \<open>A handler that accepts the identifiers that are not empty, on the contexts alone.\<close>

definition demo_handler :: "ctxs Handler" where
  "demo_handler =
     \<lparr>h_WithCancel = WithCancel, h_cancel = ctx_cancel,
      HandleSubscription = \<lambda>c i g.
        go_return ((if i = [] then Some (Errorf ''empty'') else None, [Text ''hello'']), g),
      HandleAction = \<lambda>c i d g. go_return (None, g)\<rparr>"

text \<open>
  A history of \<^verbatim>\<open>Cancellers\<close> makes done exactly the contexts that descend from one added under an
  identifier that was cancelled afterwards: nothing added later or under another identifier is
  touched.
\<close>

theorem Cancellers_cancel_by_id:
  "ctx_Done (snd (cancellers_run ops (NewCancellers, initial_ctxs))) d \<longleftrightarrow>
     (\<exists>i c xs ys. ops = xs @ AddCanceller i c # ys \<and> CancelId i \<in> set ys \<and> prefix c d)"
proof -
  obtain m' g' where run: "cancellers_run ops (NewCancellers, initial_ctxs) = (m', g')" by force
  show ?thesis
    using cancellers_run_Done [OF run [unfolded NewCancellers_def]]
    by (simp add: run [unfolded NewCancellers_def] NewCancellers_def Bex_def cancels_iff) blast
qed

text \<open>
  (C24) A \<^verbatim>\<open>subscribe\<close> command that returns has sent exactly one reply, after the data of the handler: a
  confirmation if it returns nil and a rejection otherwise. After it the identifier has an
  unsubscriber exactly if it was confirmed.
\<close>

theorem subscribe_one_reply:
  assumes "conn_subscribe H ctx i (c, w) = Some (Inr (err, c', w'))"
  shows "\<exists>ps. c_sent c' = c_sent c @ map (newData i) ps @
      [if err = None then newSubscriptionConfirmation i else newSubscriptionRejection i] \<and>
    (map_of (c_unsubscribers c') i \<noteq> None \<longleftrightarrow> err = None)"
  using assms
proof (cases rule: conn_subscribe_cases)
  case again
  then show ?thesis by (intro exI [of _ "[]"]) simp
next
  case (accepted v d ps)
  then show ?thesis by (intro exI [of _ ps]) simp
next
  case (rejected v d ps e u)
  then show ?thesis by (intro exI [of _ ps]) simp
qed

theorem subscribe_one_reply_witness:
  "\<exists>ps. c_sent (demo_conn\<lparr>c_sent := [newData ''a'' (Text ''hello''), newSubscriptionConfirmation ''a''],
       c_unsubscribers := [(''a'', [0])]\<rparr>) =
     c_sent demo_conn @ map (newData ''a'') ps @ [newSubscriptionConfirmation ''a'']"
proof -
  have "conn_subscribe demo_handler Background ''a'' (demo_conn, initial_ctxs) =
    Some (Inr (None, demo_conn\<lparr>c_sent := [newData ''a'' (Text ''hello''), newSubscriptionConfirmation ''a''],
      c_unsubscribers := [(''a'', [0])]\<rparr>, initial_ctxs\<lparr>fresh := 1\<rparr>))"
    by (simp add: conn_subscribe_def subscribe_start_def subscribe_finish_def demo_handler_def demo_conn_def
        WithCancel_def Background_def initial_ctxs_def)
  from subscribe_one_reply [OF this] show ?thesis by simp
qed

text \<open>The negotiated subprotocols that \<^verbatim>\<open>Upgrade\<close> accepts are the supported ones, each with its own
  message type; a fresh connection has no subscription and an open queue.\<close>

theorem Upgrade_supported:
  "(case Upgrade W json msgpack [] v of
      Inl e \<Rightarrow> ws_Subprotocol W v \<notin> set SupportedSubprotocols
    | Inr c \<Rightarrow> ws_Subprotocol W v \<in> set SupportedSubprotocols \<and> c_unsubscribers c = [] \<and>
        \<not> toClient_closed c \<and> wsc c = v \<and>
        (marshaledWSType c, marshaler c) =
          (if ws_Subprotocol W v = ActionCableV1JSONSubprotocol then (TextMessage, json)
           else (BinaryMessage, msgpack)))"
  by (simp add: Upgrade_def Let_def SupportedSubprotocols_def ActionCableV1JSONSubprotocol_def
      ActionCableV1MsgpackSubprotocol_def)

text \<open>
  The documented behaviour of \<^verbatim>\<open>websocket.IsCloseError\<close>: it recognises a close error with one of the
  codes, and no error of another type.
\<close>

definition close_errors :: "'v websocket \<Rightarrow> bool" where
  "close_errors W \<longleftrightarrow>
     (\<forall>k codes. ws_IsCloseError W (Some (CloseError k)) codes \<longleftrightarrow> k \<in> set codes) \<and>
     (\<forall>m e codes. \<not> ws_IsCloseError W (Some (Wrapped m e)) codes)"

lemma isNormalClose_simps:
  assumes "close_errors W"
  shows "isNormalClose W (Some (CloseError k)) \<longleftrightarrow> k = 1000 \<or> k = 1001"
    and "\<not> isNormalClose W (Some (Wrapped m e))"
  using assms
  by (auto simp: isNormalClose_def close_errors_def CloseNormalClosure_def CloseGoingAway_def)

text \<open>A socket that reports a fixed error on every operation.\<close>

definition closed_socket :: "error \<Rightarrow> unit websocket" where
  "closed_socket e =
     \<lparr>ws_Subprotocol = \<lambda>_. ActionCableV1JSONSubprotocol, ws_SetReadDeadline = \<lambda>v. (None, v),
      ws_SetWriteDeadline = \<lambda>v. (None, v), ws_ReadMessage = \<lambda>v. (Inl e, v),
      ws_WriteMessage = \<lambda>_ _ v. (Some e, v), ws_WriteControl = \<lambda>_ _ v. (Some e, v),
      ws_FormatCloseMessage = \<lambda>_ s. s, ws_Close = \<lambda>v. (None, v),
      ws_IsCloseError = \<lambda>err codes. (case err of Some (CloseError k) \<Rightarrow> k \<in> set codes | _ \<Rightarrow> False)\<rparr>"

lemma closed_socket_close_errors: "close_errors (closed_socket e)"
  by (simp add: close_errors_def closed_socket_def)

text \<open>
  When the client closes the websocket normally or goes away while the context is live, the read
  loop ends with the raw close error, which \<^verbatim>\<open>Serve\<close> turns into nil; with any other close code
  \<^verbatim>\<open>Serve\<close> returns an error.
\<close>

theorem read_close_served:
  assumes "close_errors W" and "ws_ReadMessage W (wsc c) = (Inl (CloseError k), v)"
  shows "\<exists>err. receive_loop W H ctx ((None, False) # ts) (c, w) = go_return (Some (Some err), c\<lparr>wsc := v\<rparr>, w) \<and>
    (serve_error W (Some err) = None \<longleftrightarrow> k \<in> {CloseNormalClosure, CloseGoingAway})"
  using assms isNormalClose_simps [OF assms(1)]
  by (auto simp: readAsMarshaled_def on_wsc_def filterNormalClose_def serve_error_def
      CloseNormalClosure_def CloseGoingAway_def)

theorem read_close_served_witness:
  "\<exists>err. receive_loop (closed_socket (CloseError 1001)) demo_handler Background [(None, False)]
        (demo_conn, initial_ctxs) =
      go_return (Some (Some err), demo_conn\<lparr>wsc := ()\<rparr>, initial_ctxs) \<and>
    serve_error (closed_socket (CloseError 1001)) (Some err) = None"
  using read_close_served [OF closed_socket_close_errors, of "CloseError 1001" demo_conn 1001 "()"
      demo_handler Background "[]" initial_ctxs]
  by (simp add: closed_socket_def CloseGoingAway_def)

text \<open>
  A close error from writing is never recognised: \<^verbatim>\<open>writeMessage\<close> wraps it before
  \<^verbatim>\<open>filterNormalClose\<close> sees it, so that whatever the close code \<^verbatim>\<open>Serve\<close> returns an error.
\<close>

theorem write_close_not_recognised:
  assumes "close_errors W" and "send_event W ev c = (Some err, c')"
  shows "serve_error W (Some err) = Some err"
proof -
  have "\<exists>m e. err = Wrapped m e"
    using assms(2)
    by (cases ev) (auto simp: filterNormalClose_def errors_Wrap_def writeAsMarshaled_def writeMessage_def
        resetWriteDeadline_def split: prod.splits sum.splits if_splits)
  then show ?thesis
    using isNormalClose_simps [OF assms(1)] by (auto simp: serve_error_def)
qed

theorem write_close_not_recognised_witness:
  "\<exists>err. send_event (closed_socket (CloseError 1000)) (WsPingTick 7) demo_conn = (Some err, demo_conn) \<and>
     serve_error (closed_socket (CloseError 1000)) (Some err) = Some err"
proof -
  have "send_event (closed_socket (CloseError 1000)) (WsPingTick 7) demo_conn =
    (Some (Wrapped ''couldn't send websocket ping''
      (Wrapped ''couldn't write data over websocket connection'' (CloseError 1000))), demo_conn)"
    using isNormalClose_simps [OF closed_socket_close_errors]
    by (simp add: closed_socket_def writeMessage_def resetWriteDeadline_def on_wsc_def filterNormalClose_def)
  then show ?thesis
    using write_close_not_recognised [OF closed_socket_close_errors] by blast
qed

end
