(* ===== verification/SignedNames.thy ===== *)
theory SignedNames
  imports GoStrings
begin

text \<open>
  Signed names (\<^verbatim>\<open>src/actioncable/signed-names.go\<close>) and the parsing of subscription identifiers
  (\<^verbatim>\<open>subscription-identifiers.go\<close>). The JSON decoder is the parameter \<open>json\<close>: for the field names of a
  struct of strings, it reads a text into an error or the values of the fields. The HMAC with SHA-512 is
  the parameter \<open>hmac\<close>, a function of the key and the text.
\<close>

section \<open>Identifiers\<close>

type_synonym json_decoder = "string list \<Rightarrow> string \<Rightarrow> error + (string \<Rightarrow> string)"

definition parseChannelName :: "json_decoder \<Rightarrow> string \<Rightarrow> error + string" where
  "parseChannelName json identifier =
     (case json [''channel''] identifier of
        Inl e \<Rightarrow> Inl (Wrapped ''couldn't parse channel name from identifier'' e)
      | Inr i \<Rightarrow> Inr (i ''channel''))"

section \<open>The signer\<close>

record SignerConfig =
  KeyFile :: string
  HashKey :: string

record Signer =
  sg_Config :: SignerConfig

definition NewSigner :: "SignerConfig \<Rightarrow> Signer" where
  "NewSigner config = \<lparr>sg_Config = config\<rparr>"

record signedName =
  sn_Name :: string
  sn_Hash :: string

definition signer_hash :: "(string \<Rightarrow> string \<Rightarrow> string) \<Rightarrow> Signer \<Rightarrow> string \<Rightarrow> string" where
  "signer_hash hmac s name = hmac (HashKey (sg_Config s)) name"

definition Sign :: "(string \<Rightarrow> string \<Rightarrow> string) \<Rightarrow> Signer \<Rightarrow> string \<Rightarrow> string" where
  "Sign hmac s name = EncodeToString (signer_hash hmac s name)"

definition parseIdentifier :: "json_decoder \<Rightarrow> string \<Rightarrow> error + signedName" where
  "parseIdentifier json identifier =
     (case json [''name'', ''integrity''] identifier of
        Inl e \<Rightarrow> Inl (Wrapped ''couldn't parse identifier for params'' e)
      | Inr params \<Rightarrow>
          (case DecodeString (params ''integrity'') of
             Inl e \<Rightarrow> Inl (Wrapped ''couldn't base64-decode stream/subchannel name hash'' e)
           | Inr h \<Rightarrow> Inr \<lparr>sn_Name = params ''name'', sn_Hash = h\<rparr>))"

definition validate :: "(string \<Rightarrow> string \<Rightarrow> string) \<Rightarrow> Signer \<Rightarrow> signedName \<Rightarrow> bool" where
  "validate hmac s n \<longleftrightarrow> sn_Hash n = signer_hash hmac s (sn_Name n)"

definition Check :: "json_decoder \<Rightarrow> (string \<Rightarrow> string \<Rightarrow> string) \<Rightarrow> Signer \<Rightarrow> string \<Rightarrow> error option" where
  "Check json hmac s identifier =
     (case parseIdentifier json identifier of
        Inl e \<Rightarrow> Some e
      | Inr n \<Rightarrow>
          if \<not> validate hmac s n
          then Some (Errorf ''signed stream/subchannel name %s failed HMAC check'') else None)"

section \<open>Properties of the signer\<close>

text \<open>
  \<^verbatim>\<open>Check\<close> accepts exactly the identifiers whose field \<^verbatim>\<open>integrity\<close> decodes to the HMAC of their field
  \<^verbatim>\<open>name\<close> under the signer's key; a text that is not JSON or not Base64 is refused.
\<close>

theorem Check_accepts_iff:
  "Check json hmac s identifier = None \<longleftrightarrow>
     (\<exists>params. json [''name'', ''integrity''] identifier = Inr params \<and>
        DecodeString (params ''integrity'') = Inr (hmac (HashKey (sg_Config s)) (params ''name'')))"
  by (auto simp: Check_def parseIdentifier_def validate_def signer_hash_def split: sum.splits)

text \<open>
  (C31) What \<^verbatim>\<open>Sign\<close> produces for a name passes \<^verbatim>\<open>Check\<close> for that name, and for another name only if the two
  names have the same HMAC.
\<close>

theorem Sign_Check_roundtrip:
  assumes "json [''name'', ''integrity''] identifier = Inr params"
    and "params ''integrity'' = Sign hmac s m"
  shows "Check json hmac s identifier = None \<longleftrightarrow>
    signer_hash hmac s (params ''name'') = signer_hash hmac s m"
  using assms
  by (auto simp: Check_def parseIdentifier_def validate_def Sign_def DecodeString_Encode)

theorem Sign_Check_roundtrip_witness:
  "Check (\<lambda>_ _. Inr ((\<lambda>_. [])(''name'' := ''n'', ''integrity'' := Sign (@) (NewSigner \<lparr>KeyFile = [], HashKey = ''k''\<rparr>) ''n'')))
     (@) (NewSigner \<lparr>KeyFile = [], HashKey = ''k''\<rparr>) ''{}'' = None"
  by (subst Sign_Check_roundtrip [OF refl, where m = "''n''"]) simp_all

end
