(* ===== verification/Dispatcher.thy ===== *)
theory Dispatcher
  imports Cable SignedNames
begin

text \<open>
  The channel dispatcher (\<^verbatim>\<open>src/actioncable/channels.go\<close>), the handler of a connection that creates a
  channel for each subscription identifier. Channels are objects behind an interface: a record of
  methods that act on a state of type \<open>'x\<close>, in which the contexts live too.
\<close>

section \<open>Channels and the dispatcher\<close>

record 'x Channel =
  ch_Subscribe :: "ctx \<Rightarrow> string \<Rightarrow> 'x \<Rightarrow> ((error option \<times> payload list) \<times> 'x) go"
  ch_Perform :: "string \<Rightarrow> 'x \<Rightarrow> (error option \<times> 'x) go"

type_synonym 'x ChannelFactory = "string \<Rightarrow> error + 'x Channel"

type_synonym IdentifierChecker = "string \<Rightarrow> error option"

text \<open>The map of channels is given by the caller and may be nil.\<close>

record 'x ChannelDispatcher =
  factories :: "string \<rightharpoonup> 'x ChannelFactory"
  channels :: "(string \<times> 'x Channel) list option"
  checkers :: "IdentifierChecker list"
  d_world :: 'x

definition NewChannelDispatcher ::
  "(string \<rightharpoonup> 'x ChannelFactory) \<Rightarrow> (string \<times> 'x Channel) list option \<Rightarrow> IdentifierChecker list \<Rightarrow> 'x \<Rightarrow>
   'x ChannelDispatcher" where
  "NewChannelDispatcher fs cs ks x = \<lparr>factories = fs, channels = cs, checkers = ks, d_world = x\<rparr>"

definition find_channel :: "string \<Rightarrow> 'x ChannelDispatcher \<Rightarrow> 'x Channel option" where
  "find_channel i d = (case channels d of None \<Rightarrow> None | Some m \<Rightarrow> map_of m i)"

fun run_checkers :: "IdentifierChecker list \<Rightarrow> string \<Rightarrow> error option" where
  "run_checkers [] i = None"
| "run_checkers (checker # ks) i = (case checker i of Some e \<Rightarrow> Some e | None \<Rightarrow> run_checkers ks i)"

definition parseSubIdentifier :: "json_decoder \<Rightarrow> string \<Rightarrow> 'x ChannelDispatcher \<Rightarrow> error + string" where
  "parseSubIdentifier json i d =
     (case parseChannelName json i of
        Inl e \<Rightarrow> Inl e
      | Inr channelName \<Rightarrow>
          (case run_checkers (checkers d) i of
             Some e \<Rightarrow> Inl (Wrapped ''subscription identifier for channel %s failed check'' e)
           | None \<Rightarrow> Inr channelName))"

definition resubscribe ::
  "'x Channel \<Rightarrow> ctx \<Rightarrow> string \<Rightarrow> 'x ChannelDispatcher \<Rightarrow>
   ((error option \<times> payload list) \<times> 'x ChannelDispatcher) go" where
  "resubscribe channel ctx i d =
     go_bind (ch_Subscribe channel ctx i (d_world d)) (\<lambda>((err, ps), x).
       let d = d\<lparr>d_world := x\<rparr>
       in case err of
            Some e \<Rightarrow>
              go_return ((Some (Wrapped ''couldn't re-subscribe to %s'' e), ps),
                d\<lparr>channels := map_option (AList.delete i) (channels d)\<rparr>)
          | None \<Rightarrow> go_return ((None, ps), d))"

definition subscribe_new ::
  "'x Channel \<Rightarrow> ctx \<Rightarrow> string \<Rightarrow> 'x ChannelDispatcher \<Rightarrow>
   ((error option \<times> payload list) \<times> 'x ChannelDispatcher) go" where
  "subscribe_new channel ctx i d =
     go_bind (ch_Subscribe channel ctx i (d_world d)) (\<lambda>((err, ps), x).
       let d = d\<lparr>d_world := x\<rparr>
       in case err of
            Some e \<Rightarrow> go_return ((Some (Wrapped ''couldn't subscribe to %s'' e), ps), d)
          | None \<Rightarrow>
              (case channels d of
                 None \<Rightarrow> Some (Inl NilMapWrite)
               | Some m \<Rightarrow> go_return ((None, ps), d\<lparr>channels := Some (AList.update i channel m)\<rparr>)))"

definition dispatcher_HandleSubscription ::
  "json_decoder \<Rightarrow> ctx \<Rightarrow> string \<Rightarrow> 'x ChannelDispatcher \<Rightarrow>
   ((error option \<times> payload list) \<times> 'x ChannelDispatcher) go" where
  "dispatcher_HandleSubscription json ctx i d =
     (case find_channel i d of
        Some channel \<Rightarrow> resubscribe channel ctx i d
      | None \<Rightarrow>
          (case parseSubIdentifier json i d of
             Inl e \<Rightarrow> go_return ((Some e, []), d)
           | Inr channelName \<Rightarrow>
               (case factories d channelName of
                  None \<Rightarrow> go_return ((Some (Errorf ''unknown channel name %s''), []), d)
                | Some factory \<Rightarrow>
                    (case factory i of
                       Inl e \<Rightarrow>
                         go_return ((Some (Wrapped ''couldn't instantiate channel %s for subscription %s'' e), []), d)
                     | Inr channel \<Rightarrow> subscribe_new channel ctx i d))))"

definition dispatcher_HandleAction ::
  "ctx \<Rightarrow> string \<Rightarrow> string \<Rightarrow> 'x ChannelDispatcher \<Rightarrow> (error option \<times> 'x ChannelDispatcher) go" where
  "dispatcher_HandleAction ctx i data d =
     (case find_channel i d of
        None \<Rightarrow> go_return (Some (Errorf ''no preexisting subscription on %s''), d)
      | Some channel \<Rightarrow>
          go_bind (ch_Perform channel data (d_world d)) (\<lambda>(err, x). go_return (err, d\<lparr>d_world := x\<rparr>)))"

text \<open>The dispatcher as the handler of a connection.\<close>

definition dispatcher_handler ::
  "(ctx \<Rightarrow> 'x \<Rightarrow> 'x \<times> ctx) \<Rightarrow> (ctx \<Rightarrow> 'x \<Rightarrow> 'x) \<Rightarrow> json_decoder \<Rightarrow> 'x ChannelDispatcher Handler" where
  "dispatcher_handler derive cancel json =
     \<lparr>h_WithCancel = \<lambda>c d. (let (x, c') = derive c (d_world d) in (d\<lparr>d_world := x\<rparr>, c')),
      h_cancel = \<lambda>c d. d\<lparr>d_world := cancel c (d_world d)\<rparr>,
      HandleSubscription = dispatcher_HandleSubscription json,
      HandleAction = dispatcher_HandleAction\<rparr>"

section \<open>What a call leaves unchanged\<close>

text \<open>A call touches the world only through the methods of a channel that is stored or just made.\<close>

definition admits :: "json_decoder \<Rightarrow> 'x ChannelDispatcher \<Rightarrow> string \<Rightarrow> 'x Channel \<Rightarrow> bool" where
  "admits json d i ch \<longleftrightarrow>
     (\<exists>name factory. parseChannelName json i = Inr name \<and> run_checkers (checkers d) i = None \<and>
        factories d name = Some factory \<and> factory i = Inr ch)"

lemma HandleSubscription_cases:
  assumes "dispatcher_HandleSubscription json ctx i d = Some (Inr (r, d'))"
  obtains (refused) e where "r = (Some e, [])" "d' = d" "find_channel i d = None"
    | (called) ch err ps x where "find_channel i d = Some ch \<or> find_channel i d = None \<and> admits json d i ch"
      "ch_Subscribe ch ctx i (d_world d) = Some (Inr ((err, ps), x))"
      "d_world d' = x" "factories d' = factories d" "checkers d' = checkers d"
      "fst r = None \<longleftrightarrow> err = None"
      "find_channel i d' = (if err = None then Some ch else None)"
      "\<And>j. j \<noteq> i \<Longrightarrow> find_channel j d' = find_channel j d"
proof (cases "find_channel i d")
  case (Some ch)
  then obtain err ps x where
    s: "ch_Subscribe ch ctx i (d_world d) = Some (Inr ((err, ps), x))"
    using assms by (auto simp: dispatcher_HandleSubscription_def resubscribe_def)
  show thesis
    using assms Some s
    by (intro called [of ch err ps x])
      (auto simp: dispatcher_HandleSubscription_def resubscribe_def find_channel_def Let_def split: option.splits)
next
  case None
  show thesis
  proof (cases "\<exists>ch. admits json d i ch")
    case True
    then obtain ch where ch: "admits json d i ch" by blast
    then have eq: "subscribe_new ch ctx i d = Some (Inr (r, d'))"
      using assms None
      by (auto simp: dispatcher_HandleSubscription_def parseSubIdentifier_def admits_def)
    then obtain err ps x where
      s: "ch_Subscribe ch ctx i (d_world d) = Some (Inr ((err, ps), x))"
      by (auto simp: subscribe_new_def)
    show thesis
      using eq s None ch
      by (intro called [of ch err ps x]) (auto simp: subscribe_new_def find_channel_def Let_def split: option.splits)
  next
    case False
    then obtain e where "r = (Some e, [])" "d' = d"
      using assms None
      by (auto simp: dispatcher_HandleSubscription_def parseSubIdentifier_def admits_def
          split: sum.splits option.splits)
    with None show thesis by (intro refused)
  qed
qed

section \<open>The contract of channels gives the contract of a handler\<close>

definition dispatcher_ok :: "('x Channel \<Rightarrow> bool) \<Rightarrow> ('x \<Rightarrow> bool) \<Rightarrow> json_decoder \<Rightarrow> 'x ChannelDispatcher \<Rightarrow> bool" where
  "dispatcher_ok good ok json d \<longleftrightarrow>
     ok (d_world d) \<and> (\<forall>i ch. find_channel i d = Some ch \<longrightarrow> good ch) \<and>
     (\<forall>i ch. admits json d i ch \<longrightarrow> good ch)"

definition dispatcher_env :: "('x \<Rightarrow> 'x \<Rightarrow> bool) \<Rightarrow> 'x ChannelDispatcher \<Rightarrow> 'x ChannelDispatcher \<Rightarrow> bool" where
  "dispatcher_env env d d' \<longleftrightarrow> (\<exists>x. env (d_world d) x \<and> d' = d\<lparr>d_world := x\<rparr>)"

lemma world_update_simps [simp]:
  "find_channel i (d\<lparr>d_world := x\<rparr>) = find_channel i d"
  "admits json (d\<lparr>d_world := x\<rparr>) i ch = admits json d i ch"
  by (simp_all add: find_channel_def admits_def)

lemma dispatcher_ok_world:
  "dispatcher_ok good ok json d \<Longrightarrow> ok x \<Longrightarrow> dispatcher_ok good ok json (d\<lparr>d_world := x\<rparr>)"
  by (simp add: dispatcher_ok_def)

locale channel_world = cancellation done_in derive cancel_in known inv
  for done_in :: "'x \<Rightarrow> ctx \<Rightarrow> bool" and derive :: "ctx \<Rightarrow> 'x \<Rightarrow> 'x \<times> ctx"
    and cancel_in :: "ctx \<Rightarrow> 'x \<Rightarrow> 'x" and known :: "'x \<Rightarrow> ctx \<Rightarrow> bool" and inv :: "'x \<Rightarrow> bool" +
  fixes good :: "'x Channel \<Rightarrow> bool" and env :: "'x \<Rightarrow> 'x \<Rightarrow> bool" and json :: json_decoder
  assumes channel_subscribe: "good ch \<Longrightarrow> inv x \<Longrightarrow> known x c \<Longrightarrow>
      ch_Subscribe ch c i x = Some (Inr (r, x')) \<Longrightarrow> advances inv known done_in x x'"
    and channel_perform: "good ch \<Longrightarrow> inv x \<Longrightarrow>
      ch_Perform ch d x = Some (Inr (err, x')) \<Longrightarrow> advances inv known done_in x x'"
    and world_env: "inv x \<Longrightarrow> env x x' \<Longrightarrow> advances inv known done_in x x'"
begin

lemma advances_world:
  assumes "dispatcher_ok good inv json d'" and "advances inv known done_in (d_world d) (d_world d')"
  shows "advances (dispatcher_ok good inv json) (\<lambda>d. known (d_world d)) (\<lambda>d. done_in (d_world d)) d d'"
  using assms by (simp add: advances_def)

lemma world_env_inv: "inv x \<Longrightarrow> env x x' \<Longrightarrow> inv x'"
  using world_env by (simp add: advances_def)

lemma advances_refl: "inv x \<Longrightarrow> advances inv known done_in x x"
  by (simp add: advances_def)

lemma dispatcher_subscription:
  assumes ok: "dispatcher_ok good inv json d" and "known (d_world d) c"
    and run: "dispatcher_HandleSubscription json c i d = Some (Inr (r, d'))"
  shows "advances (dispatcher_ok good inv json) (\<lambda>d. known (d_world d)) (\<lambda>d. done_in (d_world d)) d d'"
  using run
proof (cases rule: HandleSubscription_cases)
  case (refused e)
  then show ?thesis
    using ok advances_refl by (auto intro!: advances_world simp: dispatcher_ok_def)
next
  case (called ch err ps x)
  have good: "good ch" and inv: "inv (d_world d)"
    using ok called(1) by (auto simp: dispatcher_ok_def)
  have adv: "advances inv known done_in (d_world d) (d_world d')"
    using channel_subscribe [OF good inv assms(2)] called(2,3) by blast
  have "admits json d' = admits json d"
    using called(4,5) by (simp add: fun_eq_iff admits_def)
  moreover have "good ch'" if "find_channel j d' = Some ch'" for j ch'
    using that good called(7,8) ok by (cases "j = i") (auto simp: dispatcher_ok_def split: if_splits)
  ultimately have "dispatcher_ok good inv json d'"
    using ok adv by (simp add: dispatcher_ok_def advances_def)
  then show ?thesis
    using adv by (rule advances_world)
qed

lemma dispatcher_action:
  assumes ok: "dispatcher_ok good inv json d"
    and run: "dispatcher_HandleAction c i data d = Some (Inr (err, d'))"
  shows "advances (dispatcher_ok good inv json) (\<lambda>d. known (d_world d)) (\<lambda>d. done_in (d_world d)) d d'"
proof (cases "find_channel i d")
  case None
  then show ?thesis
    using ok run advances_refl
    by (auto intro!: advances_world simp: dispatcher_HandleAction_def dispatcher_ok_def)
next
  case (Some ch)
  then obtain x where x: "ch_Perform ch data (d_world d) = Some (Inr (err, x))" "d' = d\<lparr>d_world := x\<rparr>"
    using run by (auto simp: dispatcher_HandleAction_def)
  have "advances inv known done_in (d_world d) x"
    using channel_perform [OF _ _ x(1)] ok Some by (simp add: dispatcher_ok_def)
  then show ?thesis
    using x(2) ok by (auto intro!: advances_world dispatcher_ok_world simp: advances_def)
qed

end

sublocale channel_world \<subseteq> disp: cable_handler "\<lambda>d. done_in (d_world d)" "\<lambda>d. known (d_world d)"
  "dispatcher_ok good inv json" "dispatcher_handler derive cancel_in json" "dispatcher_env env"
proof (unfold_locales, goal_cases)
  case (10 c g g' d h)
  then show ?case by (auto simp: dispatcher_handler_def split: prod.splits intro: derive_follows)
next
  case (11 w c i r w')
  then show ?case by (auto simp: dispatcher_handler_def intro: dispatcher_subscription)
next
  case (12 w c i d err w')
  then show ?case by (auto simp: dispatcher_handler_def intro: dispatcher_action)
next
  case (13 w w')
  then show ?case
    by (auto simp: dispatcher_env_def dispatcher_ok_def intro!: advances_world
        dest: world_env world_env_inv)
qed (auto simp: dispatcher_handler_def dispatcher_ok_world derive_same derive_inv cancel_done cancel_mono
  cancel_known dispatcher_ok_def split: prod.splits
  intro: cancel_inv derive_known derive_known_mono derive_inv dest: derive_done)

section \<open>Runs of a dispatcher\<close>

inductive dispatcher_run ::
  "json_decoder \<Rightarrow> (string \<rightharpoonup> 'x ChannelFactory) \<Rightarrow> IdentifierChecker list \<Rightarrow> 'x ChannelDispatcher \<Rightarrow> bool"
  for json :: json_decoder and fs :: "string \<rightharpoonup> 'x ChannelFactory" and ks :: "IdentifierChecker list" where
  new: "dispatcher_run json fs ks (NewChannelDispatcher fs (Some []) ks x)"
| subscription: "dispatcher_run json fs ks d \<Longrightarrow>
    dispatcher_HandleSubscription json ctx i d = Some (Inr (r, d')) \<Longrightarrow> dispatcher_run json fs ks d'"
| action: "dispatcher_run json fs ks d \<Longrightarrow>
    dispatcher_HandleAction ctx i data d = Some (Inr (err, d')) \<Longrightarrow> dispatcher_run json fs ks d'"
| world: "dispatcher_run json fs ks d \<Longrightarrow> dispatcher_run json fs ks (d\<lparr>d_world := x\<rparr>)"

lemma run_checkers_None: "run_checkers ks i = None \<longleftrightarrow> (\<forall>k\<in>set ks. k i = None)"
  by (induction ks) (auto split: option.splits)

lemma HandleAction_frame:
  assumes "dispatcher_HandleAction ctx i data d = Some (Inr (err, d'))"
  shows "\<exists>x. d' = d\<lparr>d_world := x\<rparr>"
proof (cases "find_channel i d")
  case None
  with assms have "d' = d" by (simp add: dispatcher_HandleAction_def)
  then show ?thesis by (intro exI [of _ "d_world d"]) simp
qed (use assms in \<open>auto simp: dispatcher_HandleAction_def\<close>)

lemma dispatcher_run_checked:
  assumes "dispatcher_run json fs ks d"
  shows "factories d = fs \<and> checkers d = ks \<and>
    (\<forall>i ch. find_channel i d = Some ch \<longrightarrow> admits json d i ch)"
  using assms
proof (induction rule: dispatcher_run.induct)
  case (new x)
  show ?case by (simp add: NewChannelDispatcher_def find_channel_def)
next
  case (subscription d ctx i r d')
  from subscription(2) show ?case
  proof (cases rule: HandleSubscription_cases)
    case (refused e)
    then show ?thesis using subscription by simp
  next
    case (called ch err ps x)
    have eq: "admits json d' = admits json d"
      using called(4,5) by (simp add: fun_eq_iff admits_def)
    have "admits json d j ch'" if "find_channel j d' = Some ch'" for j ch'
      using that called(1,7,8) subscription.IH by (cases "j = i") (auto split: if_splits)
    then show ?thesis
      using called(4,5) subscription.IH by (simp add: eq)
  qed
next
  case (action d ctx i data err d')
  then show ?case using HandleAction_frame [OF action(2)] by auto
qed auto

text \<open>A dispatcher for one channel name, with the signer as its checker.\<close>

definition demo_json :: json_decoder where
  "demo_json fs s =
     (if s = ''ok'' then Inr ((\<lambda>_. [])(''channel'' := ''c'', ''name'' := ''n'',
        ''integrity'' := Sign (@) (NewSigner \<lparr>KeyFile = [], HashKey = ''k''\<rparr>) ''n''))
      else Inl (ExternalError ''invalid character''))"

definition demo_signer :: Signer where
  "demo_signer = NewSigner \<lparr>KeyFile = [], HashKey = ''k''\<rparr>"

definition demo_channel :: "nat Channel" where
  "demo_channel =
     \<lparr>ch_Subscribe = \<lambda>c i x. go_return ((None, []), Suc x), ch_Perform = \<lambda>data x. go_return (None, x)\<rparr>"

definition demo_factories :: "string \<rightharpoonup> nat ChannelFactory" where
  "demo_factories = [''c'' \<mapsto> \<lambda>i. Inr demo_channel]"

definition demo_checkers :: "IdentifierChecker list" where
  "demo_checkers = [Check demo_json (@) demo_signer]"

definition demo_dispatcher :: "nat ChannelDispatcher" where
  "demo_dispatcher =
     \<lparr>factories = demo_factories, channels = Some [(''ok'', demo_channel)], checkers = demo_checkers, d_world = 1\<rparr>"

lemma demo_subscription:
  "dispatcher_HandleSubscription demo_json ctx ''ok''
     (NewChannelDispatcher demo_factories (Some []) demo_checkers 0) =
   Some (Inr ((None, []), demo_dispatcher))"
proof -
  have "Check demo_json (@) demo_signer ''ok'' = None"
    by (simp add: Check_def parseIdentifier_def demo_json_def demo_signer_def validate_def Sign_def
        DecodeString_Encode)
  then show ?thesis
    by (simp add: dispatcher_HandleSubscription_def find_channel_def NewChannelDispatcher_def
        parseSubIdentifier_def parseChannelName_def demo_json_def demo_factories_def demo_checkers_def
        subscribe_new_def demo_channel_def demo_dispatcher_def Let_def)
qed

lemma demo_dispatcher_run: "dispatcher_run demo_json demo_factories demo_checkers demo_dispatcher"
  by (rule dispatcher_run.subscription [OF dispatcher_run.new demo_subscription])

section \<open>Properties of the dispatcher\<close>

text \<open>
  A channel is stored under an identifier only if every checker accepts the identifier and the channel
  is the one that the factory of its channel name makes for it.
\<close>

theorem dispatcher_channels_checked:
  assumes "dispatcher_run json fs ks d" and "find_channel i d = Some ch"
  shows "(\<forall>checker\<in>set ks. checker i = None) \<and>
    (\<exists>name factory. parseChannelName json i = Inr name \<and> fs name = Some factory \<and> factory i = Inr ch)"
proof -
  have "factories d = fs" "checkers d = ks" "admits json d i ch"
    using dispatcher_run_checked [OF assms(1)] assms(2) by simp_all
  then show ?thesis by (auto simp: admits_def run_checkers_None)
qed

theorem dispatcher_channels_checked_witness:
  "Check demo_json (@) demo_signer ''ok'' = None \<and>
   (\<exists>name factory. parseChannelName demo_json ''ok'' = Inr name \<and> demo_factories name = Some factory \<and>
      factory ''ok'' = Inr demo_channel)"
proof -
  have "find_channel ''ok'' demo_dispatcher = Some demo_channel"
    by (simp add: find_channel_def demo_dispatcher_def)
  from dispatcher_channels_checked [OF demo_dispatcher_run this] show ?thesis
    by (simp add: demo_checkers_def)
qed

text \<open>
  (C13) With the signer among the checkers, only authenticated streams are served: an action that the
  dispatcher passes on to a channel carries an identifier whose \<^verbatim>\<open>integrity\<close> is the HMAC of its
  \<^verbatim>\<open>name\<close> under the signer's key. Any other action is refused with an error and changes nothing.
\<close>

theorem actions_authenticated:
  assumes "dispatcher_run json fs ks d" and "Check json hmac s \<in> set ks"
  shows "dispatcher_HandleAction ctx i data d = go_return (Some (Errorf ''no preexisting subscription on %s''), d) \<or>
    (\<exists>params. json [''name'', ''integrity''] i = Inr params \<and>
       DecodeString (params ''integrity'') = Inr (hmac (HashKey (sg_Config s)) (params ''name'')))"
proof (cases "find_channel i d")
  case None
  then show ?thesis by (simp add: dispatcher_HandleAction_def)
next
  case (Some ch)
  then have "Check json hmac s i = None"
    using dispatcher_run_checked [OF assms(1)] assms(2) by (auto simp: admits_def run_checkers_None)
  then show ?thesis
    by (auto simp: Check_def parseIdentifier_def validate_def signer_hash_def split: sum.splits if_splits)
qed

theorem actions_authenticated_witness:
  "\<exists>params. demo_json [''name'', ''integrity''] ''ok'' = Inr params \<and>
     DecodeString (params ''integrity'') = Inr (''k'' @ params ''name'')"
proof -
  have "Check demo_json (@) demo_signer \<in> set demo_checkers" by (simp add: demo_checkers_def)
  moreover have "dispatcher_HandleAction Background ''ok'' [] demo_dispatcher = go_return (None, demo_dispatcher)"
    by (simp add: dispatcher_HandleAction_def find_channel_def demo_dispatcher_def demo_channel_def)
  ultimately show ?thesis
    using actions_authenticated [OF demo_dispatcher_run, of "(@)" demo_signer Background "''ok''" "[]"]
    by (simp add: demo_signer_def NewSigner_def go_return_def)
qed

text \<open>
  A subscription that the dispatcher accepts leaves a channel stored under its identifier, one that
  it refuses leaves none, also when a channel was stored before; no other identifier is affected.
\<close>

theorem dispatcher_subscription_outcome:
  assumes "dispatcher_HandleSubscription json ctx i d = Some (Inr ((err, ps), d'))"
  shows "(find_channel i d' \<noteq> None \<longleftrightarrow> err = None) \<and> (\<forall>j. j = i \<or> find_channel j d' = find_channel j d)"
  using assms
proof (cases rule: HandleSubscription_cases)
  case (called ch e qs x)
  then show ?thesis by auto
qed auto

theorem dispatcher_subscription_outcome_witness:
  "find_channel ''ok'' demo_dispatcher \<noteq> None"
  using dispatcher_subscription_outcome [OF demo_subscription] by simp

end
