(* ===== verification/Handling.thy ===== *)
theory Handling
  imports GoContext
begin

text \<open>
  The worker loops and the error filter of \<^verbatim>\<open>src/handling\<close>. A \<^verbatim>\<open>select\<close> takes one of its ready cases,
  so a run of a loop is driven by the list of the cases taken, each with the value that \<^verbatim>\<open>ctx.Err()\<close> has
  when the case runs. The result \<open>None\<close> means that the loop is still waiting when the list ends. The
  callback is the caller's closure, a function on a state of type \<open>'s\<close>.
\<close>

section \<open>Except\<close>

fun Except :: "error option \<Rightarrow> error list \<Rightarrow> error option" where
  "Except err [] = err"
| "Except err (exception # exceptions) =
     (if (case err of None \<Rightarrow> False | Some e \<Rightarrow> errors_Is e exception) then None else Except err exceptions)"

section \<open>Consume\<close>

text \<open>The cases of the \<^verbatim>\<open>select\<close>: the context is done, an element arrived, the channel is closed.\<close>

datatype 'a pick = PickDone | PickElem 'a | PickClosed

type_synonym ('a, 's) Consumer = "'a \<Rightarrow> 's \<Rightarrow> (bool \<times> error option) \<times> 's"

fun Consume :: "('a, 's) Consumer \<Rightarrow> (error option \<times> 'a pick) list \<Rightarrow> 's \<Rightarrow> error option option \<times> 's" where
  "Consume f [] s = (None, s)"
| "Consume f ((err, PickDone) # ps) s = (Some err, s)"
| "Consume f ((err, PickElem x) # ps) s =
     (if err \<noteq> None then (Some err, s)
      else
        let ((finished, err), s) = f x s
        in if err \<noteq> None then (Some err, s) else if finished then (Some None, s) else Consume f ps s)"
| "Consume f ((err, PickClosed) # ps) s = (if err \<noteq> None then (Some err, s) else (Some None, s))"

section \<open>Repeat\<close>

type_synonym 's Worker = "'s \<Rightarrow> (bool \<times> error option) \<times> 's"

text \<open>
  In both loops the \<^verbatim>\<open>select\<close> has the case of the done context and one other, the \<^verbatim>\<open>default\<close> of
  \<^verbatim>\<open>repeatInstantly\<close> and the tick of \<^verbatim>\<open>repeatDelayed\<close>: a turn says whether the first was taken.
\<close>

fun repeatInstantly :: "'s Worker \<Rightarrow> (error option \<times> bool) list \<Rightarrow> 's \<Rightarrow> error option option \<times> 's" where
  "repeatInstantly f [] s = (None, s)"
| "repeatInstantly f ((err, is_done) # ts) s =
     (if is_done then (Some err, s)
      else if err \<noteq> None then (Some err, s)
      else
        let ((finished, err), s) = f s
        in if err \<noteq> None then (Some err, s) else if finished then (Some None, s) else repeatInstantly f ts s)"

fun repeatDelayed :: "'s Worker \<Rightarrow> (error option \<times> bool) list \<Rightarrow> 's \<Rightarrow> error option option \<times> 's" where
  "repeatDelayed f [] s = (None, s)"
| "repeatDelayed f ((err, is_done) # ticks) s =
     (if is_done then (Some err, s)
      else if err \<noteq> None then (Some err, s)
      else
        let ((finished, err), s) = f s
        in if err \<noteq> None then (Some err, s) else if finished then (Some None, s) else repeatDelayed f ticks s)"

definition Repeat :: "nat \<Rightarrow> 's Worker \<Rightarrow> (error option \<times> bool) list \<Rightarrow> 's \<Rightarrow> error option option \<times> 's" where
  "Repeat interval f ts s = (if interval = 0 then repeatInstantly f ts s else repeatDelayed f ts s)"

definition RepeatImmediate ::
  "nat \<Rightarrow> 's Worker \<Rightarrow> (error option \<times> bool) list \<Rightarrow> 's \<Rightarrow> error option option \<times> 's" where
  "RepeatImmediate interval f ts s =
     (let ((finished, err), s) = f s
      in if err \<noteq> None then (Some err, s) else if finished then (Some None, s) else Repeat interval f ts s)"

section \<open>What the loops do\<close>

text \<open>Running the callback on a list until it stops: the reference for the loops.\<close>

fun call_each :: "('a, 's) Consumer \<Rightarrow> 'a list \<Rightarrow> 's \<Rightarrow> error option option \<times> 's" where
  "call_each f [] s = (None, s)"
| "call_each f (x # xs) s =
     (let ((finished, err), s) = f x s
      in if finished \<or> err \<noteq> None then (Some err, s) else call_each f xs s)"

text \<open>The elements that arrive before the context is done or the channel closed, and what comes next.\<close>

fun elems_before :: "(error option \<times> 'a pick) list \<Rightarrow> 'a list" where
  "elems_before ((None, PickElem x) # ps) = x # elems_before ps"
| "elems_before ps = []"

fun ending :: "(error option \<times> 'a pick) list \<Rightarrow> error option option" where
  "ending ((None, PickElem x) # ps) = ending ps"
| "ending [] = None"
| "ending ((err, p) # ps) = Some err"

text \<open>A turn of a repeat loop, seen as a pick of the \<^verbatim>\<open>select\<close> of \<^verbatim>\<open>Consume\<close>.\<close>

definition turn_pick :: "error option \<times> bool \<Rightarrow> error option \<times> unit pick" where
  "turn_pick t = (fst t, if snd t then PickDone else PickElem ())"

lemma Consume_call_each:
  "Consume f ps s =
     (case call_each f (elems_before ps) s of (None, s') \<Rightarrow> (ending ps, s') | r \<Rightarrow> r)"
proof (induction f ps s rule: Consume.induct)
  case (3 f err x ps s)
  then show ?case
    by (cases err) (auto split: prod.splits option.splits)
next
  case (2 f err ps s)
  then show ?case by (cases err) auto
next
  case (4 f err ps s)
  then show ?case by (cases err) auto
qed simp

lemma repeatInstantly_Consume: "repeatInstantly f ts s = Consume (\<lambda>_. f) (map turn_pick ts) s"
  by (induction f ts s rule: repeatInstantly.induct) (auto simp: turn_pick_def split: prod.splits)

lemma repeatDelayed_Consume: "repeatDelayed f ts s = Consume (\<lambda>_. f) (map turn_pick ts) s"
  by (induction f ts s rule: repeatDelayed.induct) (auto simp: turn_pick_def split: prod.splits)

lemma Repeat_Consume: "Repeat interval f ts s = Consume (\<lambda>_. f) (map turn_pick ts) s"
  by (simp add: Repeat_def repeatInstantly_Consume repeatDelayed_Consume)

lemma ending_None: "ending ps = None \<Longrightarrow> \<forall>p\<in>set ps. fst p = None \<and> (\<exists>x. snd p = PickElem x)"
  by (induction ps rule: ending.induct) auto

section \<open>Properties\<close>

text \<open>
  \<^verbatim>\<open>Except\<close> drops an error exactly when it is, or wraps, one of the exceptions, and otherwise
  returns it unchanged.
\<close>

theorem Except_filters:
  "Except err exs =
     (case err of None \<Rightarrow> None | Some e \<Rightarrow> if \<exists>x\<in>set exs. errors_Is e x then None else Some e)"
  by (induction err exs rule: Except.induct) (auto split: option.splits)

text \<open>
  The context has priority in \<^verbatim>\<open>Consume\<close>: the callback is run on exactly the elements that arrive
  while the context is live, in order, until it stops the loop; an element received together with the
  cancellation is dropped, and then the result is the context's error. If neither the callback nor
  the context nor the close of the channel ends the loop, it is still waiting.
\<close>

theorem Consume_runs_live_elements:
  "Consume f ps s =
     (case call_each f (elems_before ps) s of
        (Some r, s') \<Rightarrow> (Some r, s')
      | (None, s') \<Rightarrow> (ending ps, s'))"
  unfolding Consume_call_each [of f ps s] by (auto split: prod.split option.split)

text \<open>
  Both repeat loops return once the context is done: a list of turns that contains one at which
  the context is done never leaves the loop waiting, whatever the worker does.
\<close>

theorem Repeat_stops_when_done:
  assumes "t \<in> set ts" and "fst t \<noteq> None"
  shows "\<exists>r. fst (Repeat interval f ts s) = Some r"
proof -
  have "ending (map turn_pick ts) \<noteq> None"
    using ending_None [of "map turn_pick ts"] assms by (force simp: turn_pick_def)
  then show ?thesis
    by (auto simp: Repeat_Consume Consume_call_each split: prod.split option.split)
qed

definition demo_worker :: "nat Worker" where
  "demo_worker n = ((False, None), Suc n)"

theorem Repeat_stops_when_done_witness:
  "\<exists>r. fst (Repeat 0 demo_worker [(None, False), (Some Canceled, True)] 0) = Some r"
  using Repeat_stops_when_done [of "(Some Canceled, True)" "[(None, False), (Some Canceled, True)]"]
  by simp

text \<open>
  \<^verbatim>\<open>RepeatImmediate\<close> is \<^verbatim>\<open>Repeat\<close> with one turn before the first \<^verbatim>\<open>select\<close>: the worker runs once at
  once, even if the context is already done, and then as in \<^verbatim>\<open>Repeat\<close>.
\<close>

theorem RepeatImmediate_first_turn:
  "RepeatImmediate interval f ts s = Repeat interval f ((None, False) # ts) s"
  by (auto simp: RepeatImmediate_def Repeat_def split: prod.split)

end
