(* ===== verification/TurboStreams.thy ===== *)
theory TurboStreams
  imports Broker Dispatcher Handling
begin

text \<open>
  Turbo Streams (\<^verbatim>\<open>src/turbostreams\<close>): the broker whose messages are rendered by MSG handlers, and the
  Action Cable channel that subscribes a client to a stream of it. Here the parts of the program meet:
  the commands of a connection (theory \<open>Cable\<close>) reach through the dispatcher (\<open>Dispatcher\<close>) a channel whose
  state is the pub-sub broker (\<open>Broker\<close>) with its hub.

  As in the broker, \<open>parse\<close> is the path that \<^verbatim>\<open>url.ParseRequestURI\<close> reads in a stream name and \<open>json\<close> the JSON
  decoder.
\<close>

section \<open>Contexts and messages\<close>

record 'd Message =
  Action :: string
  Target :: string
  Targets :: string
  Template :: string
  Data :: 'd

text \<open>
  A \<^verbatim>\<open>Context\<close> embeds the broker's context, of which handlers can read the context, the method, the topic
  and the route; the buffer is nil except for MSG handlers.
\<close>

record 'm Context =
  t_context :: ctx
  t_method :: string
  t_topic :: string
  t_path :: string
  t_pnames :: "string list"
  t_pvalues :: "string list"
  t_sessionID :: string
  t_messages :: "'m list"
  t_rendered :: "string option"

definition make_context :: "string \<Rightarrow> 'm list \<Rightarrow> string option \<Rightarrow> 'c BrokerContext \<Rightarrow> 'm Context" where
  "make_context sessionID messages buffer c =
     \<lparr>t_context = bc_context c, t_method = bc_method c, t_topic = bc_topic c,
      t_path = c_path (bc_routerContext c), t_pnames = c_pnames (bc_routerContext c),
      t_pvalues = c_pvalues (bc_routerContext c), t_sessionID = sessionID, t_messages = messages,
      t_rendered = buffer\<rparr>"

definition EmptyHandler :: "'m Context HandlerFunc" where
  "EmptyHandler c = Inr (None, c)"

section \<open>The broker\<close>

definition MethodMsg :: string where "MethodMsg = ''MSG''"

type_synonym 'm TBroker = "('m Context, 'm) Broker"

definition turbo_PUB where "turbo_PUB name = broker_Add name MethodPub"
definition turbo_SUB where "turbo_SUB name = broker_Add name MethodSub"
definition turbo_UNSUB where "turbo_UNSUB name = broker_Add name MethodUnsub"
definition turbo_MSG where "turbo_MSG name = broker_Add name MethodMsg"

text \<open>
  \<^verbatim>\<open>triggerMsg\<close>: the expression that is logged after a failure, \<^verbatim>\<open>errors.Wrapf(h(c), ...)\<close>, calls the handler
  again, on the context as the first call left it. A nil error that is logged leaves no entry here.
\<close>

definition log_error :: "error option \<Rightarrow> ('c, 'm) Broker \<Rightarrow> ('c, 'm) Broker" where
  "log_error e b = (case e of None \<Rightarrow> b | Some e \<Rightarrow> b\<lparr>b_log := b_log b @ [e]\<rparr>)"

definition triggerMsg ::
  "(string \<Rightarrow> string option) \<Rightarrow> ctx \<Rightarrow> string \<Rightarrow> string \<Rightarrow> 'm list \<Rightarrow> 'm TBroker \<Rightarrow> ((error + string) \<times> 'm TBroker) go" where
  "triggerMsg parse ctx streamName sessionID messages b =
     go_bind (prepare parse ctx MethodMsg streamName b) (\<lambda>(h, bc).
       go_bind (run_handler h (make_context sessionID messages (Some []) bc)) (\<lambda>(err, c).
         case failure err of
           None \<Rightarrow> go_return (Inr (case t_rendered c of None \<Rightarrow> ''<nil>'' | Some r \<Rightarrow> r), b)
         | Some e \<Rightarrow>
             go_bind (run_handler h c) (\<lambda>(err2, _).
               go_return (Inl e, log_error (errors_Wrap err2 ''couldn't trigger msg on stream %s'') b))))"

text \<open>The callback of a subscription, which renders the messages and hands the result on.\<close>

definition turbo_callback ::
  "(string \<Rightarrow> string option) \<Rightarrow> string \<Rightarrow> string \<Rightarrow> (ctx \<Rightarrow> string \<Rightarrow> error option) \<Rightarrow> ctx \<Rightarrow> 'm list \<Rightarrow> 'm TBroker \<Rightarrow>
   (error option \<times> 'm TBroker) go" where
  "turbo_callback parse streamName sessionID msgConsumer ctx messages b =
     go_bind (triggerMsg parse ctx streamName sessionID messages b) (\<lambda>(r, b).
       case r of
         Inl e \<Rightarrow> go_return (Some e, log_error (Some (Wrapped ''msg handler on stream %s failed'' e)) b)
       | Inr rendered \<Rightarrow> go_return (msgConsumer ctx rendered, b))"

text \<open>
  The receiver that the hub stores is a function of the messages: the callback on the routes and
  middleware of the broker at the time of the call. A callback that panics ends the program, so its
  value there is not used.
\<close>

definition callback_value :: "(error option \<times> 'b) go \<Rightarrow> error option" where
  "callback_value r = (case r of Some (Inr (err, _)) \<Rightarrow> err | _ \<Rightarrow> None)"

definition turbo_Subscribe ::
  "(string \<Rightarrow> string option) \<Rightarrow> ctx \<Rightarrow> string \<Rightarrow> string \<Rightarrow> (ctx \<Rightarrow> string \<Rightarrow> error option) \<Rightarrow> 'm TBroker \<Rightarrow>
   ('m list subscription option \<times> 'm TBroker) go" where
  "turbo_Subscribe parse ctx streamName sessionID msgConsumer b =
     broker_Subscribe parse (make_context sessionID [] None) ctx streamName
       (\<lambda>ctx messages. callback_value (turbo_callback parse streamName sessionID msgConsumer ctx messages b)) b"

text \<open>A round of \<^verbatim>\<open>Serve\<close>, whose handler contexts have no session.\<close>

definition turbo_serve_round :: "(string \<Rightarrow> string option) \<Rightarrow> ctx \<Rightarrow> 'm TBroker \<Rightarrow> 'm TBroker go" where
  "turbo_serve_round parse = serve_round parse (make_context [] [] None)"

section \<open>The channel\<close>

definition ChannelName :: string where "ChannelName = ''Turbo::StreamsChannel''"

text \<open>The fields \<^verbatim>\<open>h\<close> and \<^verbatim>\<open>subscriber\<close> are the broker the channel acts on.\<close>

record StreamsChannel =
  sc_identifier :: string
  sc_streamName :: string
  sc_sessionID :: string

definition parseStreamName :: "json_decoder \<Rightarrow> string \<Rightarrow> error + string" where
  "parseStreamName json identifier =
     (case json [''name''] identifier of
        Inl e \<Rightarrow> Inl (Wrapped ''couldn't parse stream name from action cable subscription identifier'' e)
      | Inr i \<Rightarrow> Inr (i ''name''))"

definition NewChannel :: "json_decoder \<Rightarrow> string \<Rightarrow> string \<Rightarrow> IdentifierChecker list \<Rightarrow> error + StreamsChannel" where
  "NewChannel json identifier sessionID ks =
     (case parseStreamName json identifier of
        Inl e \<Rightarrow> Inl e
      | Inr name \<Rightarrow>
          (case run_checkers ks identifier of
             Some e \<Rightarrow> Inl (Wrapped ''action cable subscription identifier failed checks'' e)
           | None \<Rightarrow> Inr \<lparr>sc_identifier = identifier, sc_streamName = name, sc_sessionID = sessionID\<rparr>))"

text \<open>What the channel does with a rendered message; \<open>send\<close> is the result of \<^verbatim>\<open>sub.SendText\<close>.\<close>

definition deliver :: "(ctx \<Rightarrow> string \<Rightarrow> error option) \<Rightarrow> ctx \<Rightarrow> string \<Rightarrow> error option" where
  "deliver send ctx rendered =
     errors_Wrap (Except (send ctx rendered) [Canceled]) ''couldn't send turbo streams messages over action cable''"

text \<open>
  \<^verbatim>\<open>Subscribe\<close> returns nil whatever channel it gets; the goroutine that waits for that channel
  only calls \<^verbatim>\<open>Subscription.Close\<close>, which does nothing.
\<close>

definition channel_Subscribe ::
  "(string \<Rightarrow> string option) \<Rightarrow> (string \<Rightarrow> ctx \<Rightarrow> string \<Rightarrow> error option) \<Rightarrow> StreamsChannel \<Rightarrow> ctx \<Rightarrow> string \<Rightarrow> 'm TBroker \<Rightarrow>
   ((error option \<times> payload list) \<times> 'm TBroker) go" where
  "channel_Subscribe parse send ch ctx i b =
     (if i \<noteq> sc_identifier ch
      then go_return ((Some (Errorf ''channel identifier %+v does not match subscription identifier %+v''), []), b)
      else
        go_bind (turbo_Subscribe parse ctx (sc_streamName ch) (sc_sessionID ch) (deliver (send i)) b)
          (\<lambda>(finished, b). go_return ((None, []), b)))"

definition channel_Perform :: "StreamsChannel \<Rightarrow> string \<Rightarrow> 'm TBroker \<Rightarrow> (error option \<times> 'm TBroker) go" where
  "channel_Perform ch data b = go_return (Some (Errorf ''turbo streams channel cannot perform any actions''), b)"

definition channel_object ::
  "(string \<Rightarrow> string option) \<Rightarrow> (string \<Rightarrow> ctx \<Rightarrow> string \<Rightarrow> error option) \<Rightarrow> StreamsChannel \<Rightarrow> 'm TBroker Channel" where
  "channel_object parse send ch =
     \<lparr>ch_Subscribe = channel_Subscribe parse send ch, ch_Perform = channel_Perform ch\<rparr>"

definition NewChannelFactory ::
  "(string \<Rightarrow> string option) \<Rightarrow> (string \<Rightarrow> ctx \<Rightarrow> string \<Rightarrow> error option) \<Rightarrow> json_decoder \<Rightarrow> string \<Rightarrow> IdentifierChecker list \<Rightarrow>
   'm TBroker ChannelFactory" where
  "NewChannelFactory parse send json sessionID ks identifier =
     map_sum (\<lambda>e. e) (channel_object parse send) (NewChannel json identifier sessionID ks)"

section \<open>Form submissions\<close>

definition ContentType :: string where "ContentType = ''text/vnd.turbo-stream.html''"

text \<open>The argument is the value of the header field \<^verbatim>\<open>Accept\<close>.\<close>

definition Accepted :: "string \<Rightarrow> bool" where
  "Accepted accept \<longleftrightarrow> (\<exists>a\<in>set (split_commas accept). TrimSpace a = ContentType)"

section \<open>The contexts of a broker only advance\<close>

definition ctxs_le :: "('c, 'm) Broker \<Rightarrow> ('c, 'm) Broker \<Rightarrow> bool" where
  "ctxs_le b b' \<longleftrightarrow>
     (\<forall>d. ctx_known (contexts (b_hub b)) d \<longrightarrow> ctx_known (contexts (b_hub b')) d) \<and>
     (\<forall>d. ctx_Done (contexts (b_hub b)) d \<longrightarrow> ctx_Done (contexts (b_hub b')) d)"

lemma ctxs_le_refl [simp]: "ctxs_le b b"
  by (simp add: ctxs_le_def)

lemma ctxs_le_trans: "ctxs_le a b \<Longrightarrow> ctxs_le b c \<Longrightarrow> ctxs_le a c"
  by (simp add: ctxs_le_def)

lemma ctxs_le_same: "contexts (b_hub b') = contexts (b_hub b) \<Longrightarrow> ctxs_le b b'"
  by (simp add: ctxs_le_def)

lemma ctxs_le_hub: "hub_step (b_hub b) N (b_hub b') \<Longrightarrow> ctxs_le b b'"
  by (simp add: ctxs_le_def hub_step_known hub_step_mono)

lemma TriggerPub_ctxs:
  assumes "TriggerPub parse hc ctx tp b = Some (Inr (err, b'))"
  shows "ctxs_le b b'"
proof (cases "map_of (pubCancelers b) tp")
  case None
  obtain g d where w: "WithCancel ctx (contexts (b_hub b)) = (g, d)" by fastforce
  have "contexts (b_hub b') = g"
    using assms None w by (auto simp: TriggerPub_def Let_def)
  then show ?thesis
    using gctx.derive_known_mono [OF _ w] gctx.derive_same [OF w] by (simp add: ctxs_le_def)
qed (use assms in \<open>auto simp: TriggerPub_def\<close>)

lemma CancelPub_ctxs: "ctxs_le b (CancelPub tp b)"
  by (auto simp: CancelPub_def ctxs_le_def gctx.cancel_known gctx.cancel_mono split: option.split)

lemma fold_CancelPub_ctxs: "ctxs_le b (fold CancelPub tps b)"
  by (induction tps arbitrary: b) (auto intro: ctxs_le_trans CancelPub_ctxs)

lemma serve_added_ctxs: "serve_added parse hc ctx tps b = Some (Inr b') \<Longrightarrow> ctxs_le b b'"
proof (induction tps arbitrary: b)
  case (Cons tp tps)
  show ?case
  proof (cases "map_of (pubCancelers b) tp")
    case None
    then obtain err b1 where t: "TriggerPub parse hc ctx tp b = Some (Inr (err, b1))"
      and rest: "serve_added parse hc ctx tps
        (if err \<noteq> None
         then b1\<lparr>b_log := b_log b1 @ [Errorf ''couldn't automatically trigger pub handler for topic %s'']\<rparr>
         else b1) = Some (Inr b')"
      using Cons.prems by auto
    from Cons.IH [OF rest] have "ctxs_le b1 b'"
      by (simp add: ctxs_le_def split: if_splits)
    then show ?thesis
      using TriggerPub_ctxs [OF t] ctxs_le_trans by blast
  qed (use Cons in simp)
qed (simp add: go_return_def)

lemma serve_round_ctxs:
  assumes "serve_round parse hc ctx b = Some (Inr b')"
  shows "ctxs_le b b'"
proof -
  obtain b1 where "serve_added parse hc ctx (Added (emitted (b_hub b) ! consumed b))
      (b\<lparr>consumed := Suc (consumed b)\<rparr>) = Some (Inr b1)"
    and b': "b' = fold CancelPub (Removed (emitted (b_hub b) ! consumed b)) b1"
    using assms by (auto simp: serve_round_def serve_change_def)
  then have "ctxs_le (b\<lparr>consumed := Suc (consumed b)\<rparr>) b1"
    using serve_added_ctxs by blast
  then have "ctxs_le b b1" by (simp add: ctxs_le_def)
  then show ?thesis
    unfolding b' using fold_CancelPub_ctxs ctxs_le_trans by blast
qed

lemma broker_Subscribe_ctxs:
  assumes "broker_Subscribe parse hc c tp bh b = Some (Inr (s, b'))" and "ctx_known (contexts (b_hub b)) c"
  shows "ctxs_le b b'"
  using assms
proof (cases rule: broker_Subscribe_hub)
  case (2 h1 N h2 l us)
  then have "ctxs_le b (b\<lparr>b_hub := h1\<rparr>)" "ctxs_le (b\<lparr>b_hub := h1\<rparr>) b'"
    using ctxs_le_hub [of b "{}" "b\<lparr>b_hub := h1\<rparr>"] ctxs_le_hub [of "b\<lparr>b_hub := h1\<rparr>" N b'] hub_op_step by auto
  then show ?thesis by (rule ctxs_le_trans)
qed (simp add: ctxs_le_def)

lemma broker_step_ctxs:
  assumes "broker_step parse hc ctx b b'" and "broker_inv b"
  shows "ctxs_le b b'"
  using assms
proof (induction rule: broker_step.induct)
  case (bs_add name meth tp h ms b r b')
  have "router_inv (b_router b)" using bs_add by (simp add: broker_inv_def base_ok_def)
  from broker_Add_router(2) [OF this bs_add(2,1)] have "b_hub b' = b_hub b" by (metis Broker.select_convs(1) Broker.surjective Broker.update_convs(2))
  then show ?case by (simp add: ctxs_le_same)
next
  case (bs_hub b N h)
  then show ?case by (intro ctxs_le_hub [of b N]) (simp add: hub_op_step)
next
  case (bs_cancel b c)
  then show ?case by (simp add: ctxs_le_def gctx.cancel_known)
next
  case (bs_subscribe hc' c tp bh b s b')
  then show ?case by (intro broker_Subscribe_ctxs)
next
  case (bs_unsubscriber u b hc' b')
  then obtain b1 where "TriggerUnsub parse hc' (u_context u) (u_topic u) b = Some (Inr b1)"
      "b' = b1\<lparr>unsubscribers := remove1 u (unsubscribers b1)\<rparr>"
    by (auto simp: unsubscriber_run_def)
  then have "b_hub b' = b_hub b"
    by (auto simp: TriggerUnsub_def)
  then show ?case by (simp add: ctxs_le_same)
next
  case (bs_publisher p b b')
  then have "b_hub b' = b_hub b" by (auto simp: publisher_run_def)
  then show ?case by (simp add: ctxs_le_same)
next
  case (bs_serve b b')
  then show ?case by (intro serve_round_ctxs)
next
  case (bs_closer b)
  show ?case by (rule ctxs_le_hub [of b "{}"]) (simp add: serve_closer_def step_close)
qed (simp add: broker_Use_def ctxs_le_same)

section \<open>The channels of a broker satisfy the contract of a channel\<close>

definition broker_derive :: "ctx \<Rightarrow> ('c, 'm) Broker \<Rightarrow> ('c, 'm) Broker \<times> ctx" where
  "broker_derive c b = (let (g, d) = WithCancel c (contexts (b_hub b)) in (set_contexts g b, d))"

lemma broker_derive_eq:
  "broker_derive c b = (b', d) \<longleftrightarrow> (\<exists>g. WithCancel c (contexts (b_hub b)) = (g, d) \<and> b' = set_contexts g b)"
  by (auto simp: broker_derive_def split: prod.splits)

definition broker_cancel :: "ctx \<Rightarrow> ('c, 'm) Broker \<Rightarrow> ('c, 'm) Broker" where
  "broker_cancel c b = set_contexts (ctx_cancel c (contexts (b_hub b))) b"

definition broker_env :: "('c, 'm) Broker \<Rightarrow> ('c, 'm) Broker \<Rightarrow> bool" where
  "broker_env b b' \<longleftrightarrow> (\<exists>parse hc ctx. broker_step parse hc ctx b b')"

definition is_streams_channel :: "'m TBroker Channel \<Rightarrow> bool" where
  "is_streams_channel ch \<longleftrightarrow> (\<exists>parse send c. ch = channel_object parse send c)"

abbreviation broker_done :: "('c, 'm) Broker \<Rightarrow> ctx \<Rightarrow> bool" where
  "broker_done b \<equiv> ctx_Done (contexts (b_hub b))"

abbreviation broker_known :: "('c, 'm) Broker \<Rightarrow> ctx \<Rightarrow> bool" where
  "broker_known b \<equiv> ctx_known (contexts (b_hub b))"

lemma broker_inv_wf: "broker_inv b \<Longrightarrow> ctxs_wf (contexts (b_hub b))"
  using hub_run_inv by (auto simp: broker_inv_def base_ok_def hub_inv_def)

lemma advances_ctxs: "broker_inv b' \<Longrightarrow> ctxs_le b b' \<Longrightarrow> advances broker_inv broker_known broker_done b b'"
  by (simp add: advances_def ctxs_le_def)

lemma broker_inv_contexts:
  "broker_inv b \<Longrightarrow> hub_step (b_hub b) {} ((b_hub b)\<lparr>contexts := g\<rparr>) \<Longrightarrow> broker_inv (set_contexts g b)"
  using broker_inv_hub by (simp add: set_contexts_def)

lemma broker_derive_inv: "broker_inv b \<Longrightarrow> broker_derive c b = (b', d) \<Longrightarrow> broker_inv b'"
  using step_derive [of "b_hub b" c] broker_inv_contexts by (auto simp: broker_derive_def split: prod.splits)

lemma channel_Subscribe_advances:
  assumes "broker_inv b" and "broker_known b c"
    and "channel_Subscribe parse send ch c i b = Some (Inr (r, b'))"
  shows "advances broker_inv broker_known broker_done b b'"
proof (cases "i = sc_identifier ch")
  case True
  then obtain s bh hc where s: "broker_Subscribe parse hc c (sc_streamName ch) bh b = Some (Inr (s, b'))"
    using assms(3) by (auto simp: channel_Subscribe_def turbo_Subscribe_def)
  have "broker_inv b'"
    by (rule broker_step_inv [OF bs_subscribe [OF s assms(2)] assms(1)])
  then show ?thesis
    by (rule advances_ctxs) (rule broker_Subscribe_ctxs [OF s assms(2)])
qed (use assms in \<open>simp add: channel_Subscribe_def advances_def\<close>)

interpretation ts: channel_world broker_done broker_derive broker_cancel broker_known broker_inv
  is_streams_channel broker_env json for json
proof (unfold_locales, goal_cases)
  case (3 g c)
  then show ?case
    unfolding broker_cancel_def using broker_inv_contexts step_ctx_cancel by blast
next
  case (5 g c g' d)
  then obtain x where "WithCancel c (contexts (b_hub g)) = (x, d)" "g' = set_contexts x g"
    by (auto simp: broker_derive_eq)
  then show ?case
    using gctx.derive_done [OF broker_inv_wf [OF 5(1)]] by simp
next
  case (6 c g g' d x)
  then obtain h where "WithCancel c (contexts (b_hub g)) = (h, d)" "g' = set_contexts h g"
    by (auto simp: broker_derive_eq)
  then show ?case by (simp add: gctx.derive_same)
next
  case (7 g c g' d)
  then show ?case by (rule broker_derive_inv)
next
  case (8 g c g' d)
  then show ?case by (auto simp: broker_derive_eq intro: gctx.derive_known)
next
  case (9 g x c g' d)
  then show ?case by (auto simp: broker_derive_eq intro: gctx.derive_known_mono)
next
  case (10 c g g' d h)
  then show ?case by (auto simp: broker_derive_eq broker_cancel_def WithCancel_def)
next
  case (11 ch x c i r x')
  then show ?case
    by (auto simp: is_streams_channel_def channel_object_def intro: channel_Subscribe_advances)
next
  case (12 ch x d err x')
  then show ?case
    by (auto simp: is_streams_channel_def channel_object_def channel_Perform_def advances_def)
next
  case (13 x x')
  then show ?case
    using broker_step_inv broker_step_ctxs by (intro advances_ctxs) (auto simp: broker_env_def)
qed (simp_all add: broker_cancel_def gctx.cancel_known)

section \<open>A connection to a broker\<close>

definition streams_handler :: "json_decoder \<Rightarrow> 'm TBroker ChannelDispatcher Handler" where
  "streams_handler json = dispatcher_handler broker_derive broker_cancel json"

definition streams_dispatcher ::
  "(string \<Rightarrow> string option) \<Rightarrow> (string \<Rightarrow> ctx \<Rightarrow> string \<Rightarrow> error option) \<Rightarrow> json_decoder \<Rightarrow> string \<Rightarrow> IdentifierChecker list \<Rightarrow>
   'm TBroker \<Rightarrow> 'm TBroker ChannelDispatcher" where
  "streams_dispatcher parse send json sessionID ks b =
     NewChannelDispatcher [ChannelName \<mapsto> NewChannelFactory parse send json sessionID ks] (Some []) ks b"

lemma streams_dispatcher_world [simp]: "d_world (streams_dispatcher parse send json sessionID ks b) = b"
  by (simp add: streams_dispatcher_def NewChannelDispatcher_def)

lemma streams_dispatcher_ok:
  assumes "broker_inv b"
  shows "dispatcher_ok is_streams_channel broker_inv json (streams_dispatcher parse send json' sessionID ks b)"
proof -
  have "is_streams_channel ch" if "NewChannelFactory parse send json' sessionID ks i = Inr ch" for i ch
    using that by (cases "NewChannel json' i sessionID ks") (auto simp: NewChannelFactory_def is_streams_channel_def)
  then show ?thesis
    using assms
    by (auto simp: dispatcher_ok_def streams_dispatcher_def NewChannelDispatcher_def find_channel_def admits_def
        split: if_splits)
qed

lemma streams_close_ends:
  assumes "conn_run (streams_handler json) (dispatcher_env broker_env) ctx
      (streams_dispatcher parse send json' sessionID ks b) c w D"
    and "broker_inv b" and "broker_known b ctx"
    and "conn_Close W (streams_handler json) err (c, w) = Some (Inr (r, c', w'))" and "d \<in> D"
  shows "broker_done (d_world w') d \<and> c_unsubscribers c' = []"
  by (rule ts.disp.close_ends_all [where json = json, OF assms(1) [unfolded streams_handler_def] _ _
        assms(4) [unfolded streams_handler_def] assms(5)])
    (use assms(2,3) streams_dispatcher_ok in \<open>simp_all add: streams_dispatcher_world\<close>)

text \<open>
  A connection whose handler is the dispatcher of the broker, with the subscriptions that the hub got while the
  connection's commands were processed. Between the commands the socket may change, and anything may happen to the broker.
\<close>

definition hub_subscriptions :: "'m TBroker ChannelDispatcher \<Rightarrow> 'm list subscription set" where
  "hub_subscriptions w = set (watchers (b_hub (d_world w)))"

inductive streams_run ::
  "json_decoder \<Rightarrow> ctx \<Rightarrow> 'm TBroker ChannelDispatcher \<Rightarrow> 'v Conn \<Rightarrow> 'm TBroker ChannelDispatcher \<Rightarrow>
   'm list subscription set \<Rightarrow> bool"
  for json ctx w0 where
  sr_upgraded: "Upgrade W jc mc [] v = Inr c \<Longrightarrow> streams_run json ctx w0 c w0 {}"
| sr_command: "streams_run json ctx w0 c w M \<Longrightarrow>
    conn_receive (streams_handler json) ctx cmd (c, w) = Some (Inr (err, c', w')) \<Longrightarrow>
    streams_run json ctx w0 c' w' (M \<union> (hub_subscriptions w' - hub_subscriptions w))"
| sr_socket: "streams_run json ctx w0 c w M \<Longrightarrow> streams_run json ctx w0 (c\<lparr>wsc := v\<rparr>) w M"
| sr_other: "streams_run json ctx w0 c w M \<Longrightarrow> dispatcher_env broker_env w w' \<Longrightarrow> streams_run json ctx w0 c w' M"

text \<open>The broker's \<^verbatim>\<open>Subscribe\<close> adds at most one subscription to the hub, below the context it is given.\<close>

lemma broker_Subscribe_made:
  assumes "broker_Subscribe parse hc c tp bh b = Some (Inr (so, b'))"
  obtains "so = None" "watchers (b_hub b') = watchers (b_hub b)"
    | s where "so = Some s" "watchers (b_hub b') = watchers (b_hub b) @ [s]" "prefix c (sub_cancel s)"
proof -
  obtain err b1 where b1: "TriggerSub parse hc c tp b = Some (Inr (err, b1))" using assms by (auto simp: broker_Subscribe_def)
  have hub: "b_hub b1 = b_hub b" by (subst TriggerSub_fields [OF b1]) simp
  show thesis
  proof (cases "err = None")
    case False
    then show thesis using assms b1 hub that(1) by (auto simp: broker_Subscribe_def)
  next
    case True
    obtain g d where w: "WithCancel c (contexts (b_hub b)) = (g, d)" by fastforce
    obtain h s where h: "hub_Subscribe d tp (broker_receive d bh) ((b_hub b)\<lparr>contexts := g\<rparr>) = Inr (h, s)"
        "b_hub b' = h" "so = Some s"
      using assms b1 w hub True by (auto simp: broker_Subscribe_def Let_def split: sum.splits)
    from h(1) show thesis
    proof (rule hub_SubscribeE)
      assume d: "WithCancel d (contexts ((b_hub b)\<lparr>contexts := g\<rparr>)) = (contexts h, sub_cancel s)"
        and "watchers h = watchers ((b_hub b)\<lparr>contexts := g\<rparr>) @ [s]"
      then have "watchers (b_hub b') = watchers (b_hub b) @ [s]" using h(2) by simp
      moreover have "sub_cancel s = d @ [fresh g]" "d = c @ [fresh (contexts (b_hub b))]"
        using w d by (auto simp: WithCancel_def)
      then have "prefix c (sub_cancel s)" by simp
      ultimately show thesis using that(2) h(3) by blast
    qed
  qed
qed

lemma channel_Subscribe_made:
  assumes "is_streams_channel ch" and "ch_Subscribe ch c i b = Some (Inr (r, b'))"
    and "s \<in> set (watchers (b_hub b'))" and "s \<notin> set (watchers (b_hub b))"
  shows "prefix c (sub_cancel s)"
proof -
  obtain parse send sc where ch: "channel_Subscribe parse send sc c i b = Some (Inr (r, b'))"
    using assms(1,2) by (auto simp: is_streams_channel_def channel_object_def)
  with assms(3,4) obtain hc tp bh s' where sub: "broker_Subscribe parse hc c tp bh b = Some (Inr (s', b'))"
    by (auto simp: channel_Subscribe_def turbo_Subscribe_def split: if_splits)
  then show ?thesis by (rule broker_Subscribe_made) (use assms(3,4) in auto)
qed

lemma HandleSubscription_made:
  assumes "dispatcher_ok is_streams_channel broker_inv json w"
    and "HandleSubscription (streams_handler json) c i w = Some (Inr (r, w'))"
    and "s \<in> hub_subscriptions w'" and "s \<notin> hub_subscriptions w"
  shows "prefix c (sub_cancel s)"
proof -
  from assms(2) have "dispatcher_HandleSubscription json c i w = Some (Inr (r, w'))"
    by (simp add: streams_handler_def dispatcher_handler_def)
  then show ?thesis
  proof (cases rule: HandleSubscription_cases)
    case (called ch err ps x)
    then have "is_streams_channel ch" using assms(1) by (auto simp: dispatcher_ok_def)
    then show ?thesis
      using channel_Subscribe_made [OF _ called(2)] called(3) assms(3,4) by (simp add: hub_subscriptions_def)
  qed (use assms in simp)
qed

lemma streams_handler_derive:
  "h_WithCancel (streams_handler json) c w = (w', d) \<Longrightarrow> hub_subscriptions w' = hub_subscriptions w"
  by (auto simp: streams_handler_def dispatcher_handler_def broker_derive_def hub_subscriptions_def split: prod.splits)

lemma streams_handler_cancel: "hub_subscriptions (h_cancel (streams_handler json) c w) = hub_subscriptions w"
  by (simp add: streams_handler_def dispatcher_handler_def broker_cancel_def hub_subscriptions_def)

text \<open>What a command adds to the hub descends from the context that \<^verbatim>\<open>subscribe\<close> derived for it.\<close>

lemma command_made:
  assumes ok: "dispatcher_ok is_streams_channel broker_inv json w"
    and run: "conn_receive (streams_handler json) ctx cmd (c, w) = Some (Inr (err, c', w'))"
    and s: "s \<in> hub_subscriptions w'" "s \<notin> hub_subscriptions w"
  shows "\<exists>d\<in>derived_by (streams_handler json) ctx cmd (c, w). prefix d (sub_cancel s)"
proof -
  let ?H = "streams_handler json" and ?i = "cm_Identifier cmd"
  consider (sub) "Command cmd = subscribeCommand" | (unsub) "Command cmd = unsubscribeCommand"
    | (act) "Command cmd = actionCommand" | (other) "Command cmd \<noteq> subscribeCommand" "Command cmd \<noteq> unsubscribeCommand" "Command cmd \<noteq> actionCommand"
    by blast
  then show ?thesis
  proof cases
    case sub
    obtain w1 d where w1: "h_WithCancel ?H ctx w = (w1, d)" by fastforce
    have new: "map_of (c_unsubscribers c) ?i = None"
    proof (rule ccontr)
      assume "map_of (c_unsubscribers c) ?i \<noteq> None"
      then have "w' = w"
        using run sub by (auto simp: conn_receive_def conn_subscribe_def subscribe_start_def subscribe_finish_def go_return_def)
      then show False using s by simp
    qed
    obtain r w2 where w2: "HandleSubscription ?H d ?i w1 = Some (Inr (r, w2))" "hub_subscriptions w' = hub_subscriptions w2"
      using run sub new w1
      by (auto simp: conn_receive_def conn_subscribe_def subscribe_start_def subscribe_finish_def Let_def
          streams_handler_cancel go_return_def split: option.splits)
    have d1: "broker_derive ctx (d_world w) = (d_world w1, d)" and w1_eq: "w1 = w\<lparr>d_world := d_world w1\<rparr>"
      using w1 by (auto simp: streams_handler_def dispatcher_handler_def split: prod.splits)
    have "dispatcher_ok is_streams_channel broker_inv json w1"
      using dispatcher_ok_world [OF ok broker_derive_inv [OF _ d1]] ok w1_eq by (metis dispatcher_ok_def)
    then have "prefix d (sub_cancel s)"
      using HandleSubscription_made [OF _ w2(1)] s streams_handler_derive [OF w1] w2(2) by simp
    then show ?thesis using sub new w1 by (simp add: derived_by_def)
  next
    case unsub
    then have "hub_subscriptions w' = hub_subscriptions w"
      using run by (auto simp: conn_receive_def conn_unsubscribe_def subscribeCommand_def unsubscribeCommand_def
          streams_handler_cancel go_return_def split: option.splits)
    then show ?thesis using s by simp
  next
    case act
    then obtain err' where a: "dispatcher_HandleAction ctx ?i (cm_Data cmd) w = Some (Inr (err', w'))"
      using run by (auto simp: conn_receive_def subscribeCommand_def unsubscribeCommand_def actionCommand_def
          streams_handler_def dispatcher_handler_def go_return_def)
    have "hub_subscriptions w' = hub_subscriptions w"
    proof (cases "find_channel ?i w")
      case (Some ch)
      then have "is_streams_channel ch" using ok by (simp add: dispatcher_ok_def)
      then show ?thesis using a Some
        by (auto simp: dispatcher_HandleAction_def is_streams_channel_def channel_object_def channel_Perform_def
            hub_subscriptions_def go_return_def)
    qed (use a in \<open>simp add: dispatcher_HandleAction_def go_return_def\<close>)
    then show ?thesis using s by simp
  next
    case other
    then show ?thesis using run s by (simp add: conn_receive_def go_return_def)
  qed
qed

lemma streams_run_derived:
  assumes "streams_run json ctx w0 c w M" and "dispatcher_ok is_streams_channel broker_inv json w0"
    and "broker_known (d_world w0) ctx"
  shows "\<exists>D. conn_run (streams_handler json) (dispatcher_env broker_env) ctx w0 c w D \<and>
    (\<forall>s\<in>M. \<exists>d\<in>D. prefix d (sub_cancel s))"
  using assms(1)
proof (induction rule: streams_run.induct)
  case (sr_upgraded W jc mc v c)
  then show ?case by (intro exI [of _ "{}"]) (auto intro: conn_run.upgraded)
next
  case (sr_command c w M cmd err c' w')
  then obtain D where D: "conn_run (streams_handler json) (dispatcher_env broker_env) ctx w0 c w D"
      "\<forall>s\<in>M. \<exists>d\<in>D. prefix d (sub_cancel s)" by blast
  have "dispatcher_ok is_streams_channel broker_inv json w"
    using ts.disp.conn_run_tracked [OF D(1) [unfolded streams_handler_def] assms(2,3)] by (simp add: ts.disp.tracked_def)
  from command_made [OF this sr_command.hyps(2)]
  have "\<forall>s\<in>M \<union> (hub_subscriptions w' - hub_subscriptions w).
      \<exists>d\<in>D \<union> derived_by (streams_handler json) ctx cmd (c, w). prefix d (sub_cancel s)"
    using D(2) by blast
  with conn_run.command [OF D(1) sr_command.hyps(2)] show ?case by blast
next
  case (sr_socket c w M v)
  then obtain D where "conn_run (streams_handler json) (dispatcher_env broker_env) ctx w0 c w D"
      "\<forall>s\<in>M. \<exists>d\<in>D. prefix d (sub_cancel s)" by blast
  with sr_socket.hyps show ?case by (intro exI [of _ D] conjI) (auto intro: conn_run.socket)
next
  case (sr_other c w M w')
  then obtain D where "conn_run (streams_handler json) (dispatcher_env broker_env) ctx w0 c w D"
      "\<forall>s\<in>M. \<exists>d\<in>D. prefix d (sub_cancel s)" by blast
  with sr_other.hyps show ?case by (intro exI [of _ D] conjI) (auto intro: conn_run.other)
qed

section \<open>A broker to evaluate the properties on\<close>

text \<open>A broker whose middleware answers every event by one handler.\<close>

definition answering :: "'m Context HandlerFunc \<Rightarrow> 'm TBroker" where
  "answering f = broker_Use [\<lambda>_. Some f] (NewBroker initial_ctxs)"

lemma answering_facts:
  "broker_run parse hc ctx (answering f)" "b_hub (answering f) = NewHub True initial_ctxs"
  "b_middleware (answering f) = [\<lambda>_. Some f]" "router_inv (b_router (answering f))"
  using br_step [OF br_start bs_use]
  by (simp_all add: answering_def broker_Use_def NewBroker_def router_inv_New)

lemma prepare_answering:
  assumes "b_middleware b = [\<lambda>_. Some f]" and "router_inv (b_router b)"
  shows "\<exists>bc. prepare parse ctx meth tp b = Some (Inr (Some f, bc))"
proof -
  from assms(2) obtain h bc where p: "prepare parse ctx meth tp b = Some (Inr (h, bc))"
    by (rule prepare_total)
  then have "h = Some f"
    using assms(1) by (auto simp: prepare_def GetHandler_def applyMiddleware_foldr Let_def go_return_def)
  with p show ?thesis by simp
qed

definition stream_json :: json_decoder where
  "stream_json fs s = Inr (\<lambda>f. if f = ''channel'' then ChannelName else ''n'')"

definition demo_command :: clientMessage where
  "demo_command = \<lparr>Command = subscribeCommand, cm_Identifier = ''i'', cm_Data = []\<rparr>"

abbreviation demo_streams :: "nat TBroker ChannelDispatcher" where
  "demo_streams \<equiv> streams_dispatcher (\<lambda>_. None) (\<lambda>_ _ _. None) stream_json [] [] (answering EmptyHandler)"

lemma demo_stream_subscribed:
  obtains c w s where "streams_run stream_json Background demo_streams (c :: unit Conn) w {s}"
    "sub_active (b_hub (d_world w)) s" "\<not> toClient_closed c"
proof -
  let ?b = "set_contexts (initial_ctxs\<lparr>fresh := 1\<rparr>) (answering EmptyHandler) :: nat TBroker"
  have der: "h_WithCancel (streams_handler stream_json) Background demo_streams = (demo_streams\<lparr>d_world := ?b\<rparr>, [0])"
    by (simp add: streams_handler_def dispatcher_handler_def broker_derive_def WithCancel_def answering_facts
        NewHub_def initial_ctxs_def Background_def)
  obtain bc where p: "prepare (\<lambda>_. None) [0] MethodSub ''n'' ?b = Some (Inr (Some EmptyHandler, bc))"
    using prepare_answering [of ?b EmptyHandler "\<lambda>_. None" "[0]" MethodSub "''n''"]
    by (auto simp: answering_facts set_contexts_def)
  let ?cb = "\<lambda>ctx messages. callback_value (turbo_callback (\<lambda>_. None) ''n'' [] (deliver (\<lambda>_ _. None)) ctx messages ?b)"
  have h: "call_handler (Some EmptyHandler) (make_context [] [] None bc) = Inr (None, make_context [] [] None bc)"
    by (simp add: call_handler_def EmptyHandler_def)
  have "broadcastings (b_hub ?b) \<noteq> None" "failure None = None"
    by (simp_all add: answering_facts NewHub_def failure_def)
  then obtain s b' where sub: "broker_Subscribe (\<lambda>_. None) (make_context [] [] None) [0] ''n'' ?cb ?b = Some (Inr (Some s, b'))"
      "sub_active (b_hub b') s"
    using broker_Subscribe_accepts [where hc = "make_context [] [] None" and bh = ?cb, OF p h] by blast
  from sub(1) have made: "watchers (b_hub b') = [s]"
    by (rule broker_Subscribe_made) (simp_all add: answering_facts NewHub_def)
  let ?ch = "channel_object (\<lambda>_. None) (\<lambda>_ _ _. None) \<lparr>sc_identifier = ''i'', sc_streamName = ''n'', sc_sessionID = []\<rparr>"
  let ?w = "demo_streams\<lparr>channels := Some [(''i'', ?ch)], d_world := b'\<rparr>"
  have "ch_Subscribe ?ch [0] ''i'' ?b = Some (Inr ((None, []), b'))"
    using sub(1) by (simp add: channel_object_def channel_Subscribe_def turbo_Subscribe_def go_return_def)
  then have "HandleSubscription (streams_handler stream_json) [0] ''i'' (demo_streams\<lparr>d_world := ?b\<rparr>) =
      Some (Inr ((None, []), ?w))"
    by (simp add: streams_handler_def dispatcher_handler_def dispatcher_HandleSubscription_def find_channel_def
        streams_dispatcher_def NewChannelDispatcher_def parseSubIdentifier_def parseChannelName_def stream_json_def
        NewChannelFactory_def NewChannel_def parseStreamName_def subscribe_new_def Let_def go_return_def)
  then have "conn_receive (streams_handler stream_json) Background demo_command (demo_conn, demo_streams) =
      Some (Inr (None, demo_conn\<lparr>c_unsubscribers := [(''i'', [0])], c_sent := [newSubscriptionConfirmation ''i'']\<rparr>, ?w))"
    by (simp add: conn_receive_def demo_command_def conn_subscribe_def subscribe_start_def subscribe_finish_def der
        demo_conn_def go_return_def)
  moreover have "Upgrade (closed_socket Canceled) demo_codec demo_codec [] () = Inr demo_conn"
    by (simp add: Upgrade_def closed_socket_def demo_conn_def ActionCableV1JSONSubprotocol_def)
  moreover have "hub_subscriptions ?w - hub_subscriptions demo_streams = {s}"
    using made by (simp add: hub_subscriptions_def answering_facts NewHub_def)
  ultimately have "streams_run stream_json Background demo_streams
      (demo_conn\<lparr>c_unsubscribers := [(''i'', [0])], c_sent := [newSubscriptionConfirmation ''i'']\<rparr>) ?w {s}"
    using sr_command [OF sr_upgraded] by fastforce
  then show thesis
    by (rule that) (use sub in \<open>simp_all add: demo_conn_def\<close>)
qed

section \<open>Properties of Turbo Streams\<close>

text \<open>
  (C2) Closing an Action Cable connection ends what its client subscribed to: after \<^verbatim>\<open>Close\<close>, every subscription that
  the hub got while the connection processed one of its commands has a context that is done, whatever commands,
  subscriptions by others, publications and rounds of \<^verbatim>\<open>Serve\<close> came before, and the connection holds no unsubscriber.
\<close>

theorem connection_close_ends_streams:
  assumes "broker_run parse' hc sctx b" and "ctx_known (contexts (b_hub b)) ctx"
    and "streams_run json ctx (streams_dispatcher parse send json sessionID ks b) c w M"
    and "conn_Close W (streams_handler json) err (c, w) = Some (Inr (r, c', w'))"
  shows "(\<forall>s\<in>M. ctx_Done (contexts (b_hub (d_world w'))) (sub_cancel s)) \<and> c_unsubscribers c' = []"
proof -
  have inv: "broker_inv b" by (rule broker_run_inv [OF assms(1)])
  obtain D where D: "conn_run (streams_handler json) (dispatcher_env broker_env) ctx
        (streams_dispatcher parse send json sessionID ks b) c w D"
      "\<forall>s\<in>M. \<exists>d\<in>D. prefix d (sub_cancel s)"
    using streams_run_derived [OF assms(3) streams_dispatcher_ok [OF inv]] assms(2) by auto
  have "ctx_Done (contexts (b_hub (d_world w'))) d" if "d \<in> D" for d
    using streams_close_ends [OF D(1) inv assms(2,4) that] by simp
  then have "ctx_Done (contexts (b_hub (d_world w'))) (sub_cancel s)" if "s \<in> M" for s
    using D(2) that by (meson ctx_Done_def prefix_order.trans)
  then show ?thesis using conn_Close_cancels(2) [OF assms(4)] by blast
qed

theorem connection_close_ends_streams_witness:
  "\<exists>(c :: unit Conn) w s c' w' r.
     streams_run stream_json Background demo_streams c w {s} \<and> sub_active (b_hub (d_world w)) s \<and>
     conn_Close (closed_socket Canceled) (streams_handler stream_json) None (c, w) = Some (Inr (r, c', w')) \<and>
     ctx_Done (contexts (b_hub (d_world w'))) (sub_cancel s)"
proof -
  obtain c :: "unit Conn" and w s where run: "streams_run stream_json Background demo_streams c w {s}"
    and s: "sub_active (b_hub (d_world w)) s" and op: "\<not> toClient_closed c"
    by (rule demo_stream_subscribed)
  have "\<exists>r c' w'. conn_Close (closed_socket Canceled) (streams_handler stream_json) None (c, w) = Some (Inr (r, c', w'))"
    using op by (auto simp: conn_Close_def disconnect_def on_wsc_def writeAsMarshaled_def writeMessage_def
        resetWriteDeadline_def go_return_def Let_def split: prod.splits sum.splits if_splits)
  then obtain r c' w' where cl: "conn_Close (closed_socket Canceled) (streams_handler stream_json) None (c, w) =
      Some (Inr (r, c', w'))" by blast
  have "ctx_Done (contexts (b_hub (d_world w'))) (sub_cancel s)"
    using connection_close_ends_streams [OF answering_facts(1) Background_known run cl] by simp
  then show ?thesis
    using run s cl by blast
qed

text \<open>
  A MSG handler that succeeds is run once and its rendering is handed to the consumer. One that
  fails, other than by cancellation, is run a second time for the log entry, on the context that the
  first run left; the error of the first run is returned.
\<close>

theorem triggerMsg_runs_handler:
  assumes "prepare parse ctx MethodMsg streamName b = Some (Inr (h, bc))"
    and "call_handler h (make_context sessionID messages (Some []) bc) = Inr (err, c)"
  shows "case failure err of
      None \<Rightarrow> \<forall>text. t_rendered c = Some text \<longrightarrow>
        turbo_callback parse streamName sessionID consume ctx messages b = Some (Inr (consume ctx text, b))
    | Some e \<Rightarrow>
        (case call_handler h c of
           Inl p \<Rightarrow> turbo_callback parse streamName sessionID consume ctx messages b = Some (Inl p)
         | Inr (err2, _) \<Rightarrow>
             \<exists>b'. turbo_callback parse streamName sessionID consume ctx messages b = Some (Inr (Some e, b')) \<and>
               b_log b' = b_log b @ (case err2 of None \<Rightarrow> [] | Some e2 \<Rightarrow> [Wrapped ''couldn't trigger msg on stream %s'' e2]) @
                 [Wrapped ''msg handler on stream %s failed'' e])"
  using assms
  by (auto simp: turbo_callback_def triggerMsg_def run_handler_def log_error_def errors_Wrap_def go_return_def
      go_bind_def split: option.split sum.split)

theorem triggerMsg_runs_handler_witness:
  "turbo_callback (\<lambda>_. None) ''n'' [] (\<lambda>_ _. None) Background [7] (answering EmptyHandler) =
     Some (Inr (None, answering EmptyHandler :: nat TBroker))"
proof -
  obtain bc where p: "prepare (\<lambda>_. None) Background MethodMsg ''n'' (answering EmptyHandler :: nat TBroker) =
      Some (Inr (Some EmptyHandler, bc))"
    using prepare_answering [OF answering_facts(3,4)] by blast
  have h: "call_handler (Some EmptyHandler) (make_context [] [7] (Some []) bc) =
      Inr (None, make_context [] [7] (Some []) bc)"
    by (simp add: call_handler_def EmptyHandler_def)
  show ?thesis
    using triggerMsg_runs_handler [OF p h, of "\<lambda>_ _. None"] by (simp add: failure_def make_context_def)
qed

text \<open>
  When the SUB handler of a stream fails, \<^verbatim>\<open>Channel.Subscribe\<close> still returns nil: nothing is subscribed
  on the hub, yet the dispatcher stores the channel and the connection confirms the subscription.
\<close>

theorem failed_stream_is_confirmed:
  assumes "prepare parse ctx MethodSub (sc_streamName ch) b = Some (Inr (h, bc))"
    and "call_handler h (make_context (sc_sessionID ch) [] None bc) = Inr (err, c')" and "failure err \<noteq> None"
  shows "\<exists>b'. channel_Subscribe parse send ch ctx (sc_identifier ch) b = Some (Inr ((None, []), b')) \<and>
    b_hub b' = b_hub b \<and> unsubscribers b' = unsubscribers b"
proof -
  have "\<exists>b'. broker_Subscribe parse (make_context (sc_sessionID ch) [] None) ctx (sc_streamName ch) bh b =
      Some (Inr (None, b')) \<and> b_hub b' = b_hub b \<and> unsubscribers b' = unsubscribers b" for bh
    using assms by (auto simp: broker_Subscribe_def TriggerSub_def run_handler_def go_return_def)
  then obtain b' where "turbo_Subscribe parse ctx (sc_streamName ch) (sc_sessionID ch) (deliver (send (sc_identifier ch))) b =
      Some (Inr (None, b'))" "b_hub b' = b_hub b" "unsubscribers b' = unsubscribers b"
    unfolding turbo_Subscribe_def by blast
  then show ?thesis
    by (auto simp: channel_Subscribe_def go_return_def)
qed

theorem failed_stream_is_confirmed_witness:
  "\<exists>b'. channel_Subscribe (\<lambda>_. None) (\<lambda>_ _ _. None) \<lparr>sc_identifier = ''i'', sc_streamName = ''n'', sc_sessionID = []\<rparr>
      Background ''i'' (answering (\<lambda>c. Inr (Some (Errorf ''denied''), c)) :: nat TBroker) = Some (Inr ((None, []), b')) \<and>
    b_hub b' = NewHub True initial_ctxs"
proof -
  let ?f = "\<lambda>c :: nat Context. Inr (Some (Errorf ''denied''), c)" and
    ?ch = "\<lparr>sc_identifier = ''i'', sc_streamName = ''n'', sc_sessionID = []\<rparr>"
  obtain bc where p: "prepare (\<lambda>_. None) Background MethodSub (sc_streamName ?ch) (answering ?f) = Some (Inr (Some ?f, bc))"
    using prepare_answering [OF answering_facts(3,4)] by blast
  have h: "call_handler (Some ?f) (make_context (sc_sessionID ?ch) [] None bc) =
      Inr (Some (Errorf ''denied''), make_context (sc_sessionID ?ch) [] None bc)"
    by (simp add: call_handler_def)
  show ?thesis
    using failed_stream_is_confirmed [OF p h, of "\<lambda>_ _ _. None"] by (auto simp: failure_def answering_facts)
qed

text \<open>
  \<^verbatim>\<open>Accepted\<close> reads the list in the header field \<^verbatim>\<open>Accept\<close>: it holds exactly if one of the elements, spaces
  around it aside, is the content type of Turbo Streams.
\<close>

theorem Accepted_join:
  assumes "ws \<noteq> []" and "\<forall>w\<in>set ws. CHR '','' \<notin> set w"
  shows "Accepted (join_commas ws) \<longleftrightarrow> ContentType \<in> TrimSpace ` set ws"
  using split_join_commas [OF assms] by (force simp: Accepted_def)

theorem Accepted_join_witness:
  "Accepted (join_commas [''text/html'', '' text/vnd.turbo-stream.html '']) \<longleftrightarrow>
     ContentType \<in> TrimSpace ` set [''text/html'', '' text/vnd.turbo-stream.html '']"
  by (rule Accepted_join) simp_all

end
