(* ===== verification/HandlerContext.thy ===== *)
theory HandlerContext
  imports TurboStreams
begin

text \<open>
  What a handler sees: the accessors of the broker's context (\<^verbatim>\<open>src/pubsub/broker-context.go\<close>) and of the
  Turbo Streams context and broker (\<^verbatim>\<open>src/turbostreams/pubsub.go\<close>), and the parameters of its topic.
\<close>

section \<open>The broker's context\<close>

definition bctx_Context :: "'c BrokerContext \<Rightarrow> ctx" where "bctx_Context c = bc_context c"
definition bctx_Method :: "'c BrokerContext \<Rightarrow> string" where "bctx_Method c = bc_method c"
definition bctx_Topic :: "'c BrokerContext \<Rightarrow> string" where "bctx_Topic c = bc_topic c"

definition bctx_RouterContext :: "'c BrokerContext \<Rightarrow> 'c HandlerFunc RouterContext" where
  "bctx_RouterContext c = bc_routerContext c"

definition rctx_Path :: "'h RouterContext \<Rightarrow> string" where "rctx_Path c = c_path c"
definition rctx_ParamNames :: "'h RouterContext \<Rightarrow> string list" where "rctx_ParamNames c = c_pnames c"

definition bctx_Path :: "'c BrokerContext \<Rightarrow> string" where "bctx_Path c = c_path (bc_routerContext c)"

definition bctx_Param :: "'c BrokerContext \<Rightarrow> string \<Rightarrow> string" where
  "bctx_Param c name = ctx_Param name (bc_routerContext c)"

definition bctx_ParamNames :: "'c BrokerContext \<Rightarrow> string list" where
  "bctx_ParamNames c = rctx_ParamNames (bc_routerContext c)"

definition bctx_ParamValues :: "'c BrokerContext \<Rightarrow> panic + string list" where
  "bctx_ParamValues c = ctx_ParamValues (bc_routerContext c)"

text \<open>\<open>query\<close> stands for \<^verbatim>\<open>url.ParseRequestURI\<close> followed by \<^verbatim>\<open>Query\<close>.\<close>

definition bctx_QueryParams :: "(string \<Rightarrow> error + (string \<rightharpoonup> string list)) \<Rightarrow> 'c BrokerContext \<Rightarrow> error + (string \<rightharpoonup> string list)" where
  "bctx_QueryParams query c =
     (case query (bctx_Topic c) of
        Inl e \<Rightarrow> Inl (Wrapped ''couldn't parse topic %s as request URI'' e)
      | Inr values \<Rightarrow> Inr values)"

definition bctx_QueryParam :: "(string \<Rightarrow> error + (string \<rightharpoonup> string list)) \<Rightarrow> 'c BrokerContext \<Rightarrow> string \<Rightarrow> string \<times> error option" where
  "bctx_QueryParam query c name =
     (case bctx_QueryParams query c of
        Inl e \<Rightarrow> ([], Some e)
      | Inr values \<Rightarrow> (case values name of Some (v # _) \<Rightarrow> v | _ \<Rightarrow> [], None))"

section \<open>Turbo Streams\<close>

definition SessionID :: "'m Context \<Rightarrow> string" where "SessionID c = t_sessionID c"
definition Published :: "'m Context \<Rightarrow> 'm list" where "Published c = t_messages c"

text \<open>Writing to \<^verbatim>\<open>MsgWriter\<close> appends to the buffer, which is nil except for MSG handlers.\<close>

definition MsgWriter_Write :: "string \<Rightarrow> 'm Context \<Rightarrow> panic + 'm Context" where
  "MsgWriter_Write text c =
     (case t_rendered c of
        None \<Rightarrow> Inl NilDereference
      | Some buf \<Rightarrow> Inr (c\<lparr>t_rendered := Some (buf @ text)\<rparr>))"

definition turbo_NewBroker :: "ctxs \<Rightarrow> 'm TBroker" where "turbo_NewBroker g = NewBroker g"
definition turbo_Hub :: "'m TBroker \<Rightarrow> 'm list hub" where "turbo_Hub b = b_hub b"

definition turbo_Use :: "'m Context MiddlewareFunc list \<Rightarrow> 'm TBroker \<Rightarrow> 'm TBroker" where
  "turbo_Use ms b = broker_Use ms b"

section \<open>The parameters of a topic\<close>

lemma Param_loop_nth:
  "distinct ns \<Longrightarrow> i < length ns \<Longrightarrow> i < length vs \<Longrightarrow> Param_loop (ns ! i) ns vs = vs ! i"
proof (induction ns arbitrary: i vs)
  case (Cons n ns)
  then obtain v vs' where vs: "vs = v # vs'" by (cases vs) auto
  show ?case
  proof (cases i)
    case (Suc j)
    then have "ns ! j \<noteq> n" using Cons.prems by (auto simp: in_set_conv_nth)
    then show ?thesis using Cons Suc vs by auto
  qed (simp add: vs)
qed simp

lemma covers_specials:
  assumes "covers p s"
  shows "specials s \<le> length (param_names (clean_path p))"
  using assms by (auto simp: covers_def registers_def prefix_def simp flip: specials_pattern)

lemma take_is_all: "take n xs = ys \<Longrightarrow> length ys = n \<Longrightarrow> n \<le> length xs"
  by auto

text \<open>
  (C8) A handler sees the parameters of its topic. On a router built by any registrations of paths without escapes, none
  of them with the not-found method, the handler that \<^verbatim>\<open>Find\<close> picks was registered for the method at a path; the values
  that \<^verbatim>\<open>ParamValues\<close> returns, without a panic, fill a pattern that the path covers, its own or the prefix of it that ends
  at a \<open>*\<close>, to give the topic; \<^verbatim>\<open>ParamNames\<close> are as many of the names written in the path, in order, and when these are
  distinct, \<^verbatim>\<open>Param\<close> of each is its value.
\<close>

theorem handler_sees_its_parameters:
  assumes "\<forall>(m, p, h)\<in>set rs. plain_path p \<and> m \<noteq> RouteNotFound"
    and "add_all router_add rs NewHandlerRouter = Some r" and "meth \<noteq> RouteNotFound"
    and "router_Find meth tp r (fresh_context r) = Some (Inr c)" and "c_handler c = Some (UserHandler h)"
  shows "\<exists>p s vs. (meth, p, h) \<in> set rs \<and> covers p s \<and> fill s vs = tp \<and> ctx_ParamValues c = Inr vs \<and>
    rctx_ParamNames c = take (specials s) (param_names (clean_path p)) \<and> length vs = length (rctx_ParamNames c) \<and>
    (distinct (rctx_ParamNames c) \<longrightarrow> (\<forall>i < length vs. ctx_Param (rctx_ParamNames c ! i) c = vs ! i))"
proof -
  have plain: "\<forall>(m, p, h)\<in>set rs. plain_path p" using assms(1) by auto
  obtain r' where r': "add_all router_add rs NewHandlerRouter = Some r'" "router_inv r'"
    using rt.add_all_total [OF router_inv_New plain] by blast
  have look: "router_look r m s = (case List.find (\<lambda>(m', p, h). m' = m \<and> covers p s) (rev rs) of
      Some (m', p, h) \<Rightarrow> Some (entry p h s) | None \<Rightarrow> None)" for m s
    using rt.look_add_all [OF router_inv_New plain assms(2), of m s] by (simp split: option.split)
  obtain m s rm vs where f: "m = meth \<or> m = RouteNotFound" "router_look r m s = Some rm" "handler rm = Some h"
      "c_pnames c = pnames rm" "length vs = specials s" "fill s vs = tp" "m = meth \<longrightarrow> take (specials s) (c_pvalues c) = vs"
    using router_Find_user [OF _ _ assms(3) _ assms(4,5)] r' assms(2) by (auto simp: fresh_context_simps)
  obtain m' p h' where reg: "List.find (\<lambda>(m', p, h). m' = m \<and> covers p s) (rev rs) = Some (m', p, h')"
      "rm = entry p h' s"
    using f(2) look [of m s] by (auto split: option.splits)
  then have p: "(m, p, h') \<in> set rs" "covers p s"
    by (auto simp: find_Some_iff in_set_conv_nth rev_nth) (metis Suc_pred diff_less diff_Suc_less length_greater_0_conv list.size(3) not_less0)+
  have meth: "m = meth" using f(1) p(1) assms(1) by auto
  have h: "h' = h" using f(3) reg(2) by (simp add: entry_def)
  have names: "rctx_ParamNames c = take (specials s) (param_names (clean_path p))"
    using f(4) reg(2) by (simp add: rctx_ParamNames_def entry_def)
  have len: "length vs = length (rctx_ParamNames c)" using names covers_specials [OF p(2)] f(5) by simp
  have vals: "take (specials s) (c_pvalues c) = vs" using f(7) meth by blast
  have ge: "specials s \<le> length (c_pvalues c)" using take_is_all [OF vals f(5)] .
  have "ctx_ParamValues c = Inr vs"
    using len f(5) ge vals by (simp add: ctx_ParamValues_def rctx_ParamNames_def)
  moreover have "ctx_Param (rctx_ParamNames c ! i) c = vs ! i" if "distinct (rctx_ParamNames c)" "i < length vs" for i
    using Param_loop_nth [of "c_pnames c" i "c_pvalues c"] that len ge f(5) vals
    by (auto simp: ctx_Param_def rctx_ParamNames_def)
  ultimately show ?thesis using p h meth f(6) names len by blast
qed

theorem handler_sees_its_parameters_witness:
  "\<exists>r c vs. add_all router_add [(MethodPub, ''/users/:id'', 2 :: nat)] NewHandlerRouter = Some r \<and>
    router_Find MethodPub ''/users/42'' r (fresh_context r) = Some (Inr c) \<and> ctx_ParamValues c = Inr vs \<and>
    length vs = length (rctx_ParamNames c)"
proof -
  let ?rs = "[(MethodPub, ''/users/:id'', 2 :: nat)]"
  let ?r = "the (add_all router_add ?rs NewHandlerRouter)"
  let ?c = "router_Find MethodPub ''/users/42'' ?r (fresh_context ?r)"
  have e: "add_all router_add ?rs NewHandlerRouter \<noteq> None"
      "case_option False (case_sum (\<lambda>_. False) (\<lambda>c. c_handler c = Some (UserHandler 2))) ?c"
    by code_simp+
  then have r: "add_all router_add ?rs NewHandlerRouter = Some ?r" by auto
  from e(2) obtain c where c: "?c = Some (Inr c)" "c_handler c = Some (UserHandler 2)"
    by (auto split: option.splits sum.splits)
  have plain: "\<forall>(m, p, h)\<in>set ?rs. plain_path p \<and> m \<noteq> RouteNotFound"
    by (simp add: plain_path_def method_defs)
  have "MethodPub \<noteq> RouteNotFound" by (simp add: method_defs)
  from handler_sees_its_parameters [OF plain r this c] r c(1) show ?thesis by blast
qed

end
