(* ===== verification/Serve.thy ===== *)
theory Serve
  imports Cable
begin

text \<open>
  \<^verbatim>\<open>Conn.Serve\<close> of \<^verbatim>\<open>src/actioncable/connections.go\<close>: the two goroutines of its errgroup, \<^verbatim>\<open>receiveAll\<close> and
  \<^verbatim>\<open>sendAll\<close>, as a step relation. They meet on the unbuffered channel \<^verbatim>\<open>toClient\<close>, which \<^verbatim>\<open>subscribe\<close> sends on
  without looking at the context; the group's context is done once the parent's is or one goroutine has
  returned an error.
\<close>

section \<open>States\<close>

text \<open>
  The receiving goroutine: before the first deadline; waiting for the reader; with the result of the reader and the
  \<^verbatim>\<open>select\<close> still open; in \<^verbatim>\<open><-received\<close> after the context was done; in \<^verbatim>\<open>subscribe\<close> with messages to send, of which the
  last is the reply; returned.
\<close>

datatype receiver =
    RStart
  | RReading
  | RRead "error + clientMessage"
  | RDrain
  | RSending "serverMessage list" "(ctx \<times> error) option"
  | RReturned

datatype sender = SStart | SWaiting | SReturned

text \<open>\<open>sv_parent\<close> is \<^verbatim>\<open>ctx.Err()\<close> of the parent context, \<open>sv_first\<close> the first error the group has seen.\<close>

record ('v, 'w) serving =
  sv_conn :: "'v Conn"
  sv_world :: 'w
  sv_recv :: receiver
  sv_send :: sender
  sv_parent :: "error option"
  sv_first :: "error option"

definition serve_start :: "'v Conn \<Rightarrow> 'w \<Rightarrow> ('v, 'w) serving" where
  "serve_start c w =
     \<lparr>sv_conn = c, sv_world = w, sv_recv = RStart, sv_send = SStart, sv_parent = None, sv_first = None\<rparr>"

definition eg_Err :: "('v, 'w) serving \<Rightarrow> error option" where
  "eg_Err st =
     (case sv_parent st of
        Some e \<Rightarrow> Some e
      | None \<Rightarrow> if sv_first st \<noteq> None then Some Canceled else None)"

definition note_error :: "error option \<Rightarrow> ('v, 'w) serving \<Rightarrow> ('v, 'w) serving" where
  "note_error err st = (if sv_first st = None then st\<lparr>sv_first := err\<rparr> else st)"

definition recv_return :: "error option \<Rightarrow> ('v, 'w) serving \<Rightarrow> ('v, 'w) serving" where
  "recv_return err st = note_error err (st\<lparr>sv_recv := RReturned\<rparr>)"

definition send_return :: "error option \<Rightarrow> ('v, 'w) serving \<Rightarrow> ('v, 'w) serving" where
  "send_return err st = note_error err (st\<lparr>sv_send := SReturned\<rparr>)"

text \<open>The result of \<^verbatim>\<open>Serve\<close>, which waits for both goroutines.\<close>

definition conn_Serve_result :: "'v websocket \<Rightarrow> ('v, 'w) serving \<Rightarrow> error option option" where
  "conn_Serve_result W st =
     (if sv_recv st = RReturned \<and> sv_send st = SReturned then Some (serve_error W (sv_first st)) else None)"

section \<open>Steps of the goroutines\<close>

definition recv_begin :: "'v websocket \<Rightarrow> ('v, 'w) serving \<Rightarrow> ('v, 'w) serving" where
  "recv_begin W st =
     (let (err, c) = on_wsc (ws_SetReadDeadline W) (sv_conn st);
          st = st\<lparr>sv_conn := c\<rparr>
      in if err \<noteq> None then recv_return (errors_Wrap err ''couldn't set read deadline'') st
         else st\<lparr>sv_recv := RReading\<rparr>)"

text \<open>After a command that returned \<open>err\<close>.\<close>

definition recv_next :: "error option \<Rightarrow> ('v, 'w) serving \<Rightarrow> ('v, 'w) serving" where
  "recv_next err st = (if err \<noteq> None then recv_return err st else st\<lparr>sv_recv := RReading\<rparr>)"

text \<open>The case \<^verbatim>\<open><-received\<close>; a subscribe command stops at its send.\<close>

definition recv_received ::
  "'v websocket \<Rightarrow> 'w Handler \<Rightarrow> ctx \<Rightarrow> error + clientMessage \<Rightarrow> ('v, 'w) serving \<Rightarrow> ('v, 'w) serving go" where
  "recv_received W H ctx r st =
     (case r of
        Inl e \<Rightarrow>
          go_return (recv_return (filterNormalClose W (Some e) (Some (Wrapped ''couldn't unmarshal client message'' e))) st)
      | Inr command \<Rightarrow>
          if eg_Err st \<noteq> None then go_return (recv_return (eg_Err st) st)
          else if Command command = subscribeCommand then
            go_bind (subscribe_start H ctx (cm_Identifier command) (sv_conn st, sv_world st)) (\<lambda>((ms, rejected), c, w).
              go_return (st\<lparr>sv_conn := c, sv_world := w, sv_recv := RSending ms rejected\<rparr>))
          else
            go_bind (conn_receive H ctx command (sv_conn st, sv_world st)) (\<lambda>(err, c, w).
              go_return (recv_next err (st\<lparr>sv_conn := c, sv_world := w\<rparr>))))"

definition recv_subscribed :: "'w Handler \<Rightarrow> (ctx \<times> error) option \<Rightarrow> ('v, 'w) serving \<Rightarrow> ('v, 'w) serving" where
  "recv_subscribed H rejected st =
     (let (err, w) = subscribe_finish H rejected (sv_world st) in recv_next err (st\<lparr>sv_world := w\<rparr>))"

definition send_begin :: "'v websocket \<Rightarrow> ('v, 'w) serving \<Rightarrow> ('v, 'w) serving" where
  "send_begin W st =
     (let (err, c) = send_handshake W (sv_conn st);
          st = st\<lparr>sv_conn := c\<rparr>
      in if err \<noteq> None then send_return err st else st\<lparr>sv_send := SWaiting\<rparr>)"

text \<open>A case of the \<^verbatim>\<open>select\<close> of \<^verbatim>\<open>sendAll\<close>: the context has priority.\<close>

definition send_case :: "'v websocket \<Rightarrow> sendEvent \<Rightarrow> ('v, 'w) serving \<Rightarrow> ('v, 'w) serving" where
  "send_case W ev st =
     (if eg_Err st \<noteq> None then send_return (eg_Err st) st
      else
        let (err, c) = send_event W ev (sv_conn st);
            st = st\<lparr>sv_conn := c\<rparr>
        in if err \<noteq> None then send_return err st else st)"

text \<open>
  One step of \<^verbatim>\<open>Serve\<close>. Other goroutines, of the subscriptions, may hand a message to the sender too; what the
  handler sends during \<^verbatim>\<open>HandleSubscription\<close> is given up when the context is done, the reply is not.
\<close>

inductive serve_step ::
  "'v websocket \<Rightarrow> 'w Handler \<Rightarrow> ctx \<Rightarrow> ('v, 'w) serving \<Rightarrow> ('v, 'w) serving \<Rightarrow> bool"
  for W H ctx where
  recv_start: "sv_recv st = RStart \<Longrightarrow> serve_step W H ctx st (recv_begin W st)"
| recv_read: "sv_recv st = RReading \<Longrightarrow> readAsMarshaled W (sv_conn st) = (r, c) \<Longrightarrow>
    serve_step W H ctx st (st\<lparr>sv_conn := c, sv_recv := RRead r\<rparr>)"
| recv_done: "sv_recv st = RReading \<Longrightarrow> eg_Err st \<noteq> None \<Longrightarrow> serve_step W H ctx st (st\<lparr>sv_recv := RDrain\<rparr>)"
| recv_done_read: "sv_recv st = RRead r \<Longrightarrow> eg_Err st \<noteq> None \<Longrightarrow> serve_step W H ctx st (recv_return (eg_Err st) st)"
| recv_drained: "sv_recv st = RDrain \<Longrightarrow> readAsMarshaled W (sv_conn st) = (r, c) \<Longrightarrow>
    serve_step W H ctx st (recv_return (eg_Err st) (st\<lparr>sv_conn := c\<rparr>))"
| recv_command: "sv_recv st = RRead r \<Longrightarrow> recv_received W H ctx r st = Some (Inr st') \<Longrightarrow> serve_step W H ctx st st'"
| recv_give_up: "sv_recv st = RSending (m # m' # ms) rejected \<Longrightarrow> eg_Err st \<noteq> None \<Longrightarrow>
    serve_step W H ctx st (st\<lparr>sv_recv := RSending (m' # ms) rejected\<rparr>)"
| recv_replied: "sv_recv st = RSending [] rejected \<Longrightarrow> serve_step W H ctx st (recv_subscribed H rejected st)"
| meet: "sv_recv st = RSending (m # ms) rejected \<Longrightarrow> sv_send st = SWaiting \<Longrightarrow>
    serve_step W H ctx st (send_case W (FromClientQueue m)
      (st\<lparr>sv_recv := RSending ms rejected, sv_conn := (sv_conn st)\<lparr>c_sent := c_sent (sv_conn st) @ [m]\<rparr>\<rparr>))"
| send_start: "sv_send st = SStart \<Longrightarrow> serve_step W H ctx st (send_begin W st)"
| send_done: "sv_send st = SWaiting \<Longrightarrow> eg_Err st \<noteq> None \<Longrightarrow> serve_step W H ctx st (send_return (eg_Err st) st)"
| send_tick: "sv_send st = SWaiting \<Longrightarrow> ev \<noteq> SendDone \<Longrightarrow> serve_step W H ctx st (send_case W ev st)"
| parent_done: "sv_parent st = None \<Longrightarrow> serve_step W H ctx st (st\<lparr>sv_parent := Some e\<rparr>)"
| world: "serve_step W H ctx st (st\<lparr>sv_world := w\<rparr>)"

section \<open>Facts\<close>

lemmas serve_defs = recv_begin_def recv_next_def recv_received_def recv_subscribed_def send_begin_def send_case_def
  recv_return_def send_return_def note_error_def

text \<open>The receiver waits to send its reply, and nobody will receive it.\<close>

definition stuck :: "('v, 'w) serving \<Rightarrow> bool" where
  "stuck st \<longleftrightarrow> sv_send st = SReturned \<and> (\<exists>m ms rejected. sv_recv st = RSending (m # ms) rejected)"

lemma stuck_step: "serve_step W H ctx st st' \<Longrightarrow> stuck st \<Longrightarrow> stuck st'"
  by (induction rule: serve_step.induct) (auto simp: stuck_def)

lemma stuck_forever: "(serve_step W H ctx)\<^sup>*\<^sup>* st st' \<Longrightarrow> stuck st \<Longrightarrow> stuck st'"
  by (induction rule: rtranclp_induct) (auto dest: stuck_step)

definition eg_done :: "('v, 'w) serving \<Rightarrow> bool" where
  "eg_done st \<longleftrightarrow> sv_parent st \<noteq> None \<or> sv_first st \<noteq> None"

lemma eg_Err_done: "eg_Err st \<noteq> None \<longleftrightarrow> eg_done st"
  by (auto simp: eg_Err_def eg_done_def split: option.splits if_splits)

lemmas done_steps = recv_done [unfolded eg_Err_done] recv_done_read [unfolded eg_Err_done]
  recv_give_up [unfolded eg_Err_done] send_done [unfolded eg_Err_done]

lemma eg_done_simps [simp]:
  "eg_done (st\<lparr>sv_conn := c\<rparr>) = eg_done st"
  "eg_done (st\<lparr>sv_world := w\<rparr>) = eg_done st"
  "eg_done (st\<lparr>sv_recv := r\<rparr>) = eg_done st"
  "eg_done (st\<lparr>sv_send := s\<rparr>) = eg_done st"
  "eg_done st \<Longrightarrow> eg_done (recv_return e st)"
  "eg_done st \<Longrightarrow> eg_done (send_return e st)"
  by (auto simp: eg_done_def recv_return_def send_return_def note_error_def)

lemma send_case_done: "eg_done st \<Longrightarrow> send_case W ev st = send_return (eg_Err st) st"
  by (simp add: send_case_def eg_Err_done [symmetric])

lemma return_fields [simp]:
  "sv_recv (recv_return e st) = RReturned" "sv_send (recv_return e st) = sv_send st"
  "sv_send (send_return e st) = SReturned" "sv_recv (send_return e st) = sv_recv st"
  by (simp_all add: recv_return_def send_return_def note_error_def)

text \<open>With the context done, the receiver can return unless it has a message to send.\<close>

definition recv_returns :: "'v websocket \<Rightarrow> 'w Handler \<Rightarrow> ctx \<Rightarrow> ('v, 'w) serving \<Rightarrow> bool" where
  "recv_returns W H ctx st \<longleftrightarrow>
     (\<exists>st'. (serve_step W H ctx)\<^sup>*\<^sup>* st st' \<and> sv_recv st' = RReturned \<and> eg_done st')"

lemma recv_returns_step:
  "serve_step W H ctx st st' \<Longrightarrow> recv_returns W H ctx st' \<Longrightarrow> recv_returns W H ctx st"
  by (auto simp: recv_returns_def intro: converse_rtranclp_into_rtranclp)

lemma recv_returns_returned: "sv_recv st = RReturned \<Longrightarrow> eg_done st \<Longrightarrow> recv_returns W H ctx st"
  by (auto simp: recv_returns_def)

lemma recv_returns_reading:
  assumes "sv_recv st = RReading" and "eg_done st"
  shows "recv_returns W H ctx st"
proof -
  let ?st = "st\<lparr>sv_recv := RDrain\<rparr>"
  obtain r c where read: "readAsMarshaled W (sv_conn ?st) = (r, c)" by fastforce
  have "recv_returns W H ctx (recv_return (eg_Err ?st) (?st\<lparr>sv_conn := c\<rparr>))"
    using assms(2) by (intro recv_returns_returned) simp_all
  with recv_drained [OF _ read] have "recv_returns W H ctx ?st" by (auto intro: recv_returns_step)
  with done_steps(1) [OF assms] show ?thesis by (rule recv_returns_step)
qed

lemma recv_next_returns: "eg_done st \<Longrightarrow> recv_returns W H ctx (recv_next e st)"
  by (cases "e = None") (simp_all add: recv_next_def recv_returns_reading recv_returns_returned)

lemma recv_returns_unless_sending:
  assumes "eg_done st" and "\<nexists>m ms rejected. sv_recv st = RSending (m # ms) rejected"
  shows "recv_returns W H ctx st"
proof (cases "sv_recv st")
  case RStart
  have "recv_returns W H ctx (recv_begin W st)"
    using assms(1)
    by (auto simp: recv_begin_def Let_def split: prod.splits intro: recv_returns_returned recv_returns_reading)
  with recv_start [OF RStart] show ?thesis by (rule recv_returns_step)
next
  case (RSending ms rejected)
  then have "sv_recv st = RSending [] rejected" using assms(2) by (cases ms) auto
  from recv_replied [OF this] show ?thesis
    by (rule recv_returns_step)
       (use assms(1) in \<open>auto simp: recv_subscribed_def split: prod.splits intro!: recv_next_returns\<close>)
next
  case RDrain
  obtain r c where "readAsMarshaled W (sv_conn st) = (r, c)" by fastforce
  from recv_drained [OF RDrain this] show ?thesis
    by (rule recv_returns_step) (use assms(1) in \<open>auto intro!: recv_returns_returned\<close>)
next
  case (RRead r)
  have "recv_returns W H ctx (recv_return (eg_Err st) st)"
    using assms(1) by (intro recv_returns_returned) simp_all
  with done_steps(2) [OF RRead assms(1)] show ?thesis by (rule recv_returns_step)
qed (use assms(1) in \<open>auto intro: recv_returns_reading recv_returns_returned\<close>)

lemma recv_returns_meeting:
  assumes "sv_recv st = RSending (m # ms) rejected" and "sv_send st = SWaiting" and "eg_done st"
  shows "recv_returns W H ctx st"
  using assms
proof (induction ms arbitrary: st m)
  case Nil
  let ?st = "send_case W (FromClientQueue m)
      (st\<lparr>sv_recv := RSending [] rejected, sv_conn := (sv_conn st)\<lparr>c_sent := c_sent (sv_conn st) @ [m]\<rparr>\<rparr>)"
  have "eg_done ?st" "sv_recv ?st = RSending [] rejected"
    using Nil.prems(3) by (simp_all add: send_case_done)
  then have "recv_returns W H ctx ?st" by (intro recv_returns_unless_sending) simp_all
  with meet [OF Nil.prems(1,2)] show ?case by (rule recv_returns_step)
next
  case (Cons m' ms)
  have "recv_returns W H ctx (st\<lparr>sv_recv := RSending (m' # ms) rejected\<rparr>)"
    by (rule Cons.IH) (use Cons.prems in simp_all)
  with done_steps(3) [OF Cons.prems(1,3)] show ?case by (rule recv_returns_step)
qed

text \<open>Once the receiver has returned, the sender can.\<close>

lemma sender_returns:
  fixes st :: "('v, 'w) serving"
  assumes "sv_recv st = RReturned" and "eg_done st"
  shows "\<exists>st'. (serve_step W H ctx)\<^sup>*\<^sup>* st st' \<and> sv_recv st' = RReturned \<and> sv_send st' = SReturned"
proof -
  have waiting: "\<exists>st'. (serve_step W H ctx)\<^sup>*\<^sup>* st st' \<and> sv_recv st' = RReturned \<and> sv_send st' = SReturned"
    if "sv_recv st = RReturned" "eg_done st" "sv_send st = SWaiting" for st :: "('v, 'w) serving"
    using done_steps(4) [OF that(3,2)] that(1) by (intro exI [of _ "send_return (eg_Err st) st"]) auto
  show ?thesis
  proof (cases "sv_send st")
    case SStart
    let ?st = "send_begin W st"
    have st: "sv_recv ?st = RReturned" "eg_done ?st" "sv_send ?st = SReturned \<or> sv_send ?st = SWaiting"
      using assms by (auto simp: send_begin_def Let_def split: prod.splits)
    then have "\<exists>st'. (serve_step W H ctx)\<^sup>*\<^sup>* ?st st' \<and> sv_recv st' = RReturned \<and> sv_send st' = SReturned"
      using waiting by blast
    with send_start [OF SStart] show ?thesis by (meson converse_rtranclp_into_rtranclp)
  next
    case SWaiting
    then show ?thesis using waiting assms by blast
  next
    case SReturned
    then show ?thesis using assms(1) by blast
  qed
qed

section \<open>A connection to run on\<close>

text \<open>A websocket from which one subscribe command can be read and on which every write fails.\<close>

definition failing_socket :: "nat websocket" where
  "failing_socket =
     \<lparr>ws_Subprotocol = \<lambda>v. ActionCableV1JSONSubprotocol, ws_SetReadDeadline = \<lambda>v. (None, v),
      ws_SetWriteDeadline = \<lambda>v. (None, v), ws_ReadMessage = \<lambda>v. (Inr (TextMessage, []), v),
      ws_WriteMessage = \<lambda>t d v. (if v = 0 then None else Some (ExternalError ''broken pipe''), Suc v),
      ws_WriteControl = \<lambda>t d v. (None, v), ws_FormatCloseMessage = \<lambda>n s. s, ws_Close = \<lambda>v. (None, v),
      ws_IsCloseError = \<lambda>e cs. False\<rparr>"

definition demo_codec :: codec where
  "demo_codec =
     \<lparr>Marshal = \<lambda>x. Inr [], Unmarshal = \<lambda>s. Inr \<lparr>Command = subscribeCommand, cm_Identifier = ''x'', cm_Data = []\<rparr>\<rparr>"

definition demo_conn :: "nat Conn" where
  "demo_conn = \<lparr>wsc = 0, c_sent = [], toClient_closed = False, c_unsubscribers = [], sanitizeError = defaultErrorSanitizer,
     subprotocol = ActionCableV1JSONSubprotocol, marshaledWSType = TextMessage, marshaler = demo_codec\<rparr>"

definition accepting_handler :: "unit Handler" where
  "accepting_handler =
     \<lparr>h_WithCancel = \<lambda>c w. (w, c), h_cancel = \<lambda>c w. w, HandleSubscription = \<lambda>c i w. go_return ((None, []), w),
      HandleAction = \<lambda>c i d w. go_return (None, w)\<rparr>"

section \<open>Properties\<close>

text \<open>
  (C14) When \<^verbatim>\<open>Serve\<close> can return: once its context is done and the handshake is over, it can return exactly if it
  is not the case that \<^verbatim>\<open>sendAll\<close> has returned while \<^verbatim>\<open>subscribe\<close> is at its send on \<^verbatim>\<open>toClient\<close>. In that case
  it never returns, whatever happens afterwards.
\<close>

theorem Serve_returns_iff:
  assumes "eg_Err st \<noteq> None" and "sv_send st \<noteq> SStart"
  shows "(\<exists>st'. (serve_step W H ctx)\<^sup>*\<^sup>* st st' \<and> conn_Serve_result W st' \<noteq> None) \<longleftrightarrow> \<not> stuck st"
proof
  assume "\<exists>st'. (serve_step W H ctx)\<^sup>*\<^sup>* st st' \<and> conn_Serve_result W st' \<noteq> None"
  then show "\<not> stuck st"
    by (auto simp: conn_Serve_result_def stuck_def split: if_splits dest!: stuck_forever)
next
  assume "\<not> stuck st"
  then have "(\<nexists>m ms rejected. sv_recv st = RSending (m # ms) rejected) \<or>
      (\<exists>m ms rejected. sv_recv st = RSending (m # ms) rejected \<and> sv_send st = SWaiting)"
    using assms(2) by (cases "sv_send st") (auto simp: stuck_def)
  then have "recv_returns W H ctx st"
    using assms(1) recv_returns_unless_sending [of st W H ctx] recv_returns_meeting [of st] unfolding eg_Err_done by blast
  then obtain st1 st2 where "(serve_step W H ctx)\<^sup>*\<^sup>* st st1" "(serve_step W H ctx)\<^sup>*\<^sup>* st1 st2"
      "sv_recv st2 = RReturned" "sv_send st2 = SReturned"
    using sender_returns unfolding recv_returns_def by blast
  then show "\<exists>st'. (serve_step W H ctx)\<^sup>*\<^sup>* st st' \<and> conn_Serve_result W st' \<noteq> None"
    by (auto simp: conn_Serve_result_def intro!: exI [of _ st2])
qed

text \<open>
  The run into the hang: the handshake succeeds, a subscribe command is accepted, and the write of a ping fails
  before the confirmation is handed over.
\<close>

definition demo_hang :: "(nat, unit) serving" where
  "demo_hang =
     \<lparr>sv_conn = demo_conn\<lparr>wsc := 2, c_unsubscribers := [(''x'', Background)]\<rparr>, sv_world = (),
      sv_recv = RSending [newSubscriptionConfirmation ''x''] None, sv_send = SReturned, sv_parent = None,
      sv_first = Some (Wrapped ''couldn't send Action Cable ping''
        (Wrapped ''couldn't write data over websocket connection'' (ExternalError ''broken pipe'')))\<rparr>"

lemma demo_hang_reached:
  "(serve_step failing_socket accepting_handler Background)\<^sup>*\<^sup>* (serve_start demo_conn ()) demo_hang"
proof -
  let ?step = "serve_step failing_socket accepting_handler Background"
  let ?s0 = "serve_start demo_conn ()"
  let ?s1 = "?s0\<lparr>sv_recv := RReading\<rparr>"
  let ?s2 = "?s1\<lparr>sv_conn := demo_conn\<lparr>wsc := 1\<rparr>, sv_send := SWaiting\<rparr>"
  let ?s3 = "?s2\<lparr>sv_recv := RRead (Inr \<lparr>Command = subscribeCommand, cm_Identifier = ''x'', cm_Data = []\<rparr>)\<rparr>"
  let ?s4 = "?s3\<lparr>sv_conn := demo_conn\<lparr>wsc := 1, c_unsubscribers := [(''x'', Background)]\<rparr>,
      sv_recv := RSending [newSubscriptionConfirmation ''x''] None\<rparr>"
  have "?step ?s0 ?s1"
    using recv_start [of ?s0 failing_socket accepting_handler Background]
    by (simp add: serve_start_def recv_begin_def on_wsc_def failing_socket_def demo_conn_def)
  moreover have "?step ?s1 ?s2"
    using send_start [of ?s1 failing_socket accepting_handler Background]
    by (simp add: serve_start_def send_begin_def send_handshake_def resetWriteDeadline_def writeAsMarshaled_def
        writeMessage_def on_wsc_def failing_socket_def demo_conn_def demo_codec_def)
  moreover have "?step ?s2 ?s3"
    using recv_read [of ?s2 failing_socket _ _ accepting_handler Background]
    by (simp add: serve_start_def readAsMarshaled_def on_wsc_def failing_socket_def demo_conn_def demo_codec_def)
  moreover have "?step ?s3 ?s4"
    using recv_command [of ?s3 _ failing_socket accepting_handler Background ?s4]
    by (simp add: serve_start_def recv_received_def eg_Err_def subscribe_start_def accepting_handler_def demo_conn_def)
  moreover have "?step ?s4 demo_hang"
    using send_tick [of ?s4 "CablePingTick 0" failing_socket accepting_handler Background]
    by (simp add: serve_start_def demo_hang_def send_case_def eg_Err_def writeAsMarshaled_def writeMessage_def
        resetWriteDeadline_def on_wsc_def failing_socket_def demo_conn_def demo_codec_def filterNormalClose_def
        isNormalClose_def send_return_def note_error_def numeral_2_eq_2)
  ultimately show ?thesis
    by (meson converse_rtranclp_into_rtranclp rtranclp.rtrancl_refl)
qed

theorem Serve_returns_iff_witness:
  "(serve_step failing_socket accepting_handler Background)\<^sup>*\<^sup>* (serve_start demo_conn ()) demo_hang \<and>
   (\<nexists>st'. (serve_step failing_socket accepting_handler Background)\<^sup>*\<^sup>* demo_hang st' \<and>
      conn_Serve_result failing_socket st' \<noteq> None)"
  using Serve_returns_iff [of demo_hang failing_socket accepting_handler Background] demo_hang_reached
  by (auto simp: demo_hang_def eg_Err_def stuck_def)

end
