(* ===== verification/Env.thy ===== *)
theory Env
  imports GoStrings "HOL-Library.Word"
begin

text \<open>
  Environment variables and key files (\<^verbatim>\<open>src/env/parsing.go\<close>). The operating system is a record: the
  environment, the files, the source of randomness, what the system calls report, and the library
  function that cleans a path. An unset variable is empty.
\<close>

record 'r os =
  getenv :: "string \<Rightarrow> string"
  files :: "string \<rightharpoonup> string"
  clean :: "string \<Rightarrow> string"
  mkdir_parent :: "string \<Rightarrow> error option"
  write_error :: "string \<Rightarrow> error option"
  read_random :: "nat \<Rightarrow> 'r \<Rightarrow> string option \<times> 'r"
  random :: 'r

section \<open>Values\<close>

definition GetBool :: "'r os \<Rightarrow> string \<Rightarrow> error + bool" where
  "GetBool s varName =
     (let val = getenv s varName
      in if val = [] then Inr False
         else if val \<in> {''TRUE'', ''true'', ''True''} then Inr True
         else if val \<in> {''FALSE'', ''false'', ''False''} then Inr False
         else Inl (Errorf ''unknown value %s for boolean environment variable %s''))"

definition GetUint64 :: "'r os \<Rightarrow> string \<Rightarrow> 64 word \<Rightarrow> error + 64 word" where
  "GetUint64 s varName defaultValue =
     (let val = getenv s varName
      in if val = [] then Inr defaultValue
         else
           (case ParseUint 32 val of
              Inl e \<Rightarrow> Inl (Wrapped ''unparsable value %s for uint64 environment variable %s'' e)
            | Inr n \<Rightarrow> Inr (of_nat n)))"

definition GetInt64 :: "'r os \<Rightarrow> string \<Rightarrow> 64 word \<Rightarrow> error + 64 word" where
  "GetInt64 s varName defaultValue =
     (let val = getenv s varName
      in if val = [] then Inr defaultValue
         else
           (case ParseInt 64 val of
              Inl e \<Rightarrow> Inl (Wrapped ''unparsable value %s for int64 environment variable %s'' e)
            | Inr k \<Rightarrow> Inr (of_int k)))"

text \<open>\<open>parse\<close> stands for \<^verbatim>\<open>strconv.ParseFloat\<close> with 32 bits.\<close>

definition GetFloat32 :: "(string \<Rightarrow> error + 'f) \<Rightarrow> 'r os \<Rightarrow> string \<Rightarrow> 'f \<Rightarrow> error + 'f" where
  "GetFloat32 parse s varName defaultValue =
     (let val = getenv s varName
      in if val = [] then Inr defaultValue
         else
           (case parse val of
              Inl e \<Rightarrow> Inl (Wrapped ''unparsable value %s for float32 environment variable %s'' e)
            | Inr x \<Rightarrow> Inr x))"

definition GetString :: "'r os \<Rightarrow> string \<Rightarrow> string \<Rightarrow> string" where
  "GetString s varName defaultValue = (if getenv s varName = [] then defaultValue else getenv s varName)"

text \<open>
  The bytes that \<^verbatim>\<open>base64.StdEncoding.DecodeString\<close> returns, also with an error: those of the groups before the
  first bad one.
\<close>

fun b64_prefix :: "string \<Rightarrow> string" where
  "b64_prefix (p # q # r # t # rest) =
     (if t = CHR ''='' then
        (case b64_values (if r = CHR ''='' then [p, q] else [p, q, r]) of None \<Rightarrow> [] | Some vs \<Rightarrow> b64_bytes vs)
      else
        (case b64_values [p, q, r, t] of None \<Rightarrow> [] | Some vs \<Rightarrow> b64_bytes vs @ b64_prefix rest))"
| "b64_prefix _ = []"

definition decode_base64 :: "string \<Rightarrow> error option \<times> string" where
  "decode_base64 s =
     (case DecodeString s of
        Inl e \<Rightarrow> (Some e, b64_prefix (filter (\<lambda>c. c \<noteq> CHR 0x0A \<and> c \<noteq> CHR 0x0D) s))
      | Inr bytes \<Rightarrow> (None, bytes))"

text \<open>A nil slice is \<open>None\<close>.\<close>

definition GetBase64 :: "'r os \<Rightarrow> string \<Rightarrow> error option \<times> string option" where
  "GetBase64 s varName =
     (let rawValue = getenv s varName
      in if rawValue = [] then (None, None) else map_prod id Some (decode_base64 rawValue))"

record URL =
  Scheme :: string
  Host :: string
  Path :: string
  User :: "string option"
  RawQuery :: string
  Fragment :: string

text \<open>\<open>parse\<close> stands for \<^verbatim>\<open>url.Parse\<close>.\<close>

definition GetURL :: "(string \<Rightarrow> error + URL) \<Rightarrow> 'r os \<Rightarrow> string \<Rightarrow> string \<Rightarrow> error + URL" where
  "GetURL parse s varName defaultValue =
     (let val = getenv s varName in parse (if val = [] then defaultValue else val))"

definition GetURLOrigin :: "(string \<Rightarrow> error + URL) \<Rightarrow> 'r os \<Rightarrow> string \<Rightarrow> string \<Rightarrow> string \<Rightarrow> error + URL" where
  "GetURLOrigin parse s varName defaultValue defaultScheme =
     (case GetURL parse s varName defaultValue of
        Inl e \<Rightarrow> Inl (Wrapped ''unparsable value %s for URL environment variable %s'' e)
      | Inr u \<Rightarrow>
          let u = (if Scheme u = [] then u\<lparr>Scheme := defaultScheme\<rparr> else u)
          in Inr (u\<lparr>Path := [], User := None, RawQuery := [], Fragment := []\<rparr>))"

section \<open>Keys\<close>

definition GenerateRandomKey :: "nat \<Rightarrow> 'r os \<Rightarrow> string option \<times> 'r os" where
  "GenerateRandomKey n s = (let (k, r) = read_random s n (random s) in (k, s\<lparr>random := r\<rparr>))"

definition GetKey :: "string \<Rightarrow> nat \<Rightarrow> 'r os \<Rightarrow> (error + string) \<times> 'r os" where
  "GetKey varName n s =
     (case GetBase64 s varName of
        (Some e, _) \<Rightarrow> (Inl e, s)
      | (None, Some key) \<Rightarrow> (Inr key, s)
      | (None, None) \<Rightarrow>
          let (key, s) = GenerateRandomKey n s
          in (case key of
                None \<Rightarrow> (Inl (Errorf ''unable to generate a random key''), s)
              | Some key \<Rightarrow> (Inr key, s)))"

definition GetKeyFromFile :: "string \<Rightarrow> 'r os \<Rightarrow> error + string" where
  "GetKeyFromFile path s =
     (case files s (clean s path) of
        None \<Rightarrow> Inl (Wrapped ''couldn't read keyfile %s'' (ExternalError ''open''))
      | Some rawFile \<Rightarrow>
          (case DecodeString (TrimSpace rawFile) of
             Inl e \<Rightarrow> Inl (Wrapped ''couldn't parse key of length %d from file %s'' e)
           | Inr key \<Rightarrow> Inr key))"

definition SaveKeyToFile :: "string \<Rightarrow> string \<Rightarrow> 'r os \<Rightarrow> error option \<times> 'r os" where
  "SaveKeyToFile path key s =
     (case mkdir_parent s path of
        Some e \<Rightarrow> (Some (Wrapped ''couldn't create parent directory for file %s'' e), s)
      | None \<Rightarrow>
          let path = clean s path
          in (case write_error s path of
                Some e \<Rightarrow> (Some (Wrapped ''couldn't save key to %s'' e), s)
              | None \<Rightarrow> (None, s\<lparr>files := (files s)(path \<mapsto> EncodeToString key)\<rparr>)))"

text \<open>
  In \<^verbatim>\<open>GetKeyWithFile\<close> the variable \<^verbatim>\<open>key\<close> keeps what \<^verbatim>\<open>GetBase64\<close> returned when there is no file to read;
  a nil slice has length 0. The messages it prints are left out.
\<close>

definition GetKeyWithFile :: "string \<Rightarrow> string \<Rightarrow> nat \<Rightarrow> 'r os \<Rightarrow> (error + string) \<times> 'r os" where
  "GetKeyWithFile varName filePath genLength s =
     (let (err, key) = map_prod id (\<lambda>k. case k of None \<Rightarrow> [] | Some k \<Rightarrow> k) (GetBase64 s varName)
      in if err = None \<and> key \<noteq> [] then (Inr key, s)
         else
           let key = (if filePath \<noteq> [] then (case GetKeyFromFile filePath s of Inl _ \<Rightarrow> [] | Inr k \<Rightarrow> k) else key)
           in if key \<noteq> [] then (Inr key, s)
              else
                let (key, s) = map_prod (\<lambda>k. case k of None \<Rightarrow> [] | Some k \<Rightarrow> k) id (GenerateRandomKey genLength s)
                in (Inr key, snd (SaveKeyToFile filePath key s)))"

section \<open>Facts\<close>

lemma b64_prefix_decode: "b64_decode s = Some bytes \<Longrightarrow> b64_prefix s = bytes"
  by (induction s arbitrary: bytes rule: b64_decode.induct) (auto split: option.splits if_splits)

lemma TrimSpace_no_space: "(\<And>c. c \<in> set s \<Longrightarrow> \<not> is_space c) \<Longrightarrow> TrimSpace s = s"
proof -
  assume "\<And>c. c \<in> set s \<Longrightarrow> \<not> is_space c"
  then have "dropWhile is_space s = s" "dropWhile is_space (rev s) = rev s"
    by (cases "s = []"; simp add: dropWhile_eq_self_iff hd_rev)+
  then show ?thesis by (simp add: TrimSpace_def)
qed

lemma GetKeyFromFile_saved:
  assumes "SaveKeyToFile path key s = (None, s')"
  shows "GetKeyFromFile path s' = Inr key"
proof -
  have "s' = s\<lparr>files := (files s)(clean s path \<mapsto> EncodeToString key)\<rparr>"
    using assms by (auto simp: SaveKeyToFile_def Let_def split: option.splits)
  then show ?thesis
    using TrimSpace_no_space [OF Encode_no_space] by (simp add: GetKeyFromFile_def DecodeString_Encode)
qed

lemma SaveKeyToFile_frame:
  assumes "SaveKeyToFile path key s = (err, s')"
  shows "getenv s' = getenv s" "mkdir_parent s' = mkdir_parent s" "write_error s' = write_error s" "clean s' = clean s"
  using assms by (auto simp: SaveKeyToFile_def Let_def split: option.splits)

section \<open>A system to evaluate the properties on\<close>

definition demo_os :: "string option \<Rightarrow> nat os" where
  "demo_os k =
     \<lparr>getenv = \<lambda>v. if v = ''N'' then decimal_nat 4294967296 else if v = ''I'' then ''-42'' else [], files = Map.empty, clean = id,
      mkdir_parent = \<lambda>_. None, write_error = \<lambda>_. None, read_random = \<lambda>n r. (k, Suc r), random = 0\<rparr>"

section \<open>Properties\<close>

text \<open>
  (C25) A key survives a restart: when the key file can be written, the key that \<^verbatim>\<open>GetKeyWithFile\<close> returns is
  the one it returns again later, be it from the variable, from the file or generated at the first
  call, and the later call changes nothing.
\<close>

theorem GetKeyWithFile_stable:
  assumes "GetKeyWithFile v path n s = (Inr key, s')" and "path \<noteq> []" and "key \<noteq> []"
    and "mkdir_parent s path = None" and "write_error s (clean s path) = None"
  shows "GetKeyWithFile v path n s' = (Inr key, s')"
proof -
  obtain err k where e: "map_prod id (\<lambda>k. case k of None \<Rightarrow> [] | Some k \<Rightarrow> k) (GetBase64 s v) = (err, k)" by force
  consider "err = None \<and> k \<noteq> []" | "\<not> (err = None \<and> k \<noteq> [])" "\<exists>f. GetKeyFromFile path s = Inr f \<and> f \<noteq> []"
    | "\<not> (err = None \<and> k \<noteq> [])" "\<not> (\<exists>f. GetKeyFromFile path s = Inr f \<and> f \<noteq> [])" by blast
  then show ?thesis
  proof cases
    case 1
    then show ?thesis using assms(1) e by (simp add: GetKeyWithFile_def)
  next
    case 2
    then show ?thesis using assms(1,2) e by (auto simp: GetKeyWithFile_def Let_def)
  next
    case 3
    then have "(case GetKeyFromFile path s of Inl _ \<Rightarrow> [] | Inr f \<Rightarrow> f) = []"
      by (auto split: sum.split)
    then obtain s1 where g: "map_prod (\<lambda>k. case k of None \<Rightarrow> [] | Some k \<Rightarrow> k) id (GenerateRandomKey n s) = (key, s1)"
        "s' = snd (SaveKeyToFile path key s1)"
      using assms(1,2) 3(1) e by (auto simp: GetKeyWithFile_def Let_def split: prod.splits)
    have s1: "s1 = s\<lparr>random := random s1\<rparr>"
      using g(1) by (auto simp: GenerateRandomKey_def split: prod.splits)
    have "mkdir_parent s1 path = None" "write_error s1 (clean s1 path) = None" "getenv s1 = getenv s"
      using assms(4,5) by (subst s1, simp)+
    moreover from this have saved: "SaveKeyToFile path key s1 = (None, s')"
      using g(2) by (simp add: SaveKeyToFile_def Let_def)
    ultimately have "GetBase64 s' v = GetBase64 s v"
      using SaveKeyToFile_frame(1) [OF saved] by (simp add: GetBase64_def)
    then show ?thesis
      using e 3(1) assms(2,3) GetKeyFromFile_saved [OF saved] by (auto simp: GetKeyWithFile_def)
  qed
qed

theorem GetKeyWithFile_stable_witness:
  "GetKeyWithFile ''K'' ''/k'' 32 (snd (GetKeyWithFile ''K'' ''/k'' 32 (demo_os (Some ''secret'')))) =
     (Inr ''secret'', snd (GetKeyWithFile ''K'' ''/k'' 32 (demo_os (Some ''secret''))))"
proof (rule GetKeyWithFile_stable)
  show "GetKeyWithFile ''K'' ''/k'' 32 (demo_os (Some ''secret'')) =
      (Inr ''secret'', snd (GetKeyWithFile ''K'' ''/k'' 32 (demo_os (Some ''secret''))))"
    by (simp add: GetKeyWithFile_def GetBase64_def GetKeyFromFile_def GenerateRandomKey_def demo_os_def)
qed (simp_all add: demo_os_def)

text \<open>
  When the source of randomness fails, \<^verbatim>\<open>GetKey\<close> returns an error, but \<^verbatim>\<open>GetKeyWithFile\<close> returns an empty
  key and no error: it does not check for the nil key, as the comment on \<^verbatim>\<open>GenerateRandomKey\<close> asks.
\<close>

theorem GetKeyWithFile_empty_key:
  assumes "getenv s v = []" and "files s (clean s path) = None" and "fst (read_random s n (random s)) = None"
  shows "fst (GetKeyWithFile v path n s) = Inr [] \<and>
    fst (GetKey v n s) = Inl (Errorf ''unable to generate a random key'')"
  using assms
  by (auto simp: GetKeyWithFile_def GetKey_def GetBase64_def GetKeyFromFile_def GenerateRandomKey_def split: prod.splits)

theorem GetKeyWithFile_empty_key_witness:
  "fst (GetKeyWithFile ''K'' ''/k'' 32 (demo_os None)) = Inr [] \<and>
   fst (GetKey ''K'' 32 (demo_os None)) = Inl (Errorf ''unable to generate a random key'')"
  by (rule GetKeyWithFile_empty_key) (simp_all add: demo_os_def)

text \<open>
  \<^verbatim>\<open>GetUint64\<close> reads back the decimal notation of a number below \<open>2 ^ 32\<close>, and refuses that of every
  larger one, although its type has 64 bits.
\<close>

theorem GetUint64_range:
  assumes "getenv s v = decimal_nat n"
  shows "GetUint64 s v dflt =
    (if n < 2 ^ 32 then Inr (of_nat n)
     else Inl (Wrapped ''unparsable value %s for uint64 environment variable %s'' (ExternalError ''strconv.NumError'')))"
  using assms decimal_nat_parse [of n] by (simp add: GetUint64_def ParseUint_decimal)

theorem GetUint64_range_witness:
  "GetUint64 (demo_os None) ''N'' 0 =
     Inl (Wrapped ''unparsable value %s for uint64 environment variable %s'' (ExternalError ''strconv.NumError''))"
proof -
  have "getenv (demo_os None) ''N'' = decimal_nat 4294967296" by (simp add: demo_os_def)
  from GetUint64_range [OF this] show ?thesis by simp
qed

text \<open>
  \<^verbatim>\<open>GetInt64\<close> reads back the decimal notation of every 64-bit integer.
\<close>

theorem GetInt64_roundtrip:
  assumes "getenv s v = decimal (sint w)"
  shows "GetInt64 s v dflt = Inr w"
proof -
  have "- (2 ^ 63) \<le> sint w" "sint w < 2 ^ 63"
    using sint_ge [of w] sint_lt [of w] by simp_all
  moreover have "getenv s v \<noteq> []"
    using assms decimal_nat_parse by (auto simp: decimal_def)
  ultimately show ?thesis
    using assms ParseInt_decimal [of "sint w"] by (simp add: GetInt64_def)
qed

theorem GetInt64_roundtrip_witness: "GetInt64 (demo_os None) ''I'' 0 = Inr (- 42)"
proof (rule GetInt64_roundtrip)
  show "getenv (demo_os None) ''I'' = decimal (sint (- 42 :: 64 word))"
  proof -
    have "decimal (- 42) = ''-42''" by code_simp
    then show ?thesis by (simp add: demo_os_def)
  qed
qed

end
