(* ===== verification/Config.thy ===== *)
theory Config
  imports Env SignedNames
begin

text \<open>
  The configurations that components read from the environment: sessions (\<^verbatim>\<open>src/session/conf.go\<close>),
  authentication (\<^verbatim>\<open>src/authn/conf.go\<close>), the database (\<^verbatim>\<open>src/database/conf.go\<close>) and the signer of Action
  Cable names (\<^verbatim>\<open>src/actioncable/signed-names-conf.go\<close>). Integers have Go's widths; a \<^verbatim>\<open>time.Duration\<close>
  is a signed 64-bit number of nanoseconds.
\<close>

section \<open>Sessions\<close>

record Timeouts =
  Absolute :: "64 word"

record CSRFOptions =
  HeaderName :: string
  FieldName :: string

datatype SameSite = SameSiteDefaultMode | SameSiteLaxMode | SameSiteStrictMode | SameSiteNoneMode

record CookieOptions =
  o_Path :: string
  o_Domain :: string
  o_MaxAge :: int
  o_Secure :: bool
  o_HttpOnly :: bool
  o_SameSite :: SameSite

record SessionConfig =
  AuthKey :: string
  EncryptionKey :: string
  Timeouts_of :: Timeouts
  CookieOptions_of :: CookieOptions
  CookieName :: string
  CSRFOptions_of :: CSRFOptions

definition minute :: "64 word" where
  "minute = 60000000000"

definition getTimeouts :: "'r os \<Rightarrow> error + Timeouts" where
  "getTimeouts s =
     (case GetInt64 s ''SESSIONS_TIMEOUTS_ABSOLUTE'' (60 * 24 * 7) of
        Inl e \<Rightarrow> Inl (Wrapped ''couldn't make absolute timeout config'' e)
      | Inr rawAbsolute \<Rightarrow> Inr \<lparr>Absolute = rawAbsolute * minute\<rparr>)"

definition getCookieOptions :: "'r os \<Rightarrow> error + CookieOptions" where
  "getCookieOptions s =
     (case GetBool s ''SESSIONS_COOKIE_NOHTTPSONLY'' of
        Inl e \<Rightarrow> Inl (Wrapped ''couldn't make HTTPS-only config'' e)
      | Inr noHTTPSOnly \<Rightarrow>
          Inr \<lparr>o_Path = ''/'', o_Domain = [], o_MaxAge = 0, o_Secure = (\<not> noHTTPSOnly), o_HttpOnly = True,
            o_SameSite = SameSiteLaxMode\<rparr>)"

definition getCSRFOptions :: "'r os \<Rightarrow> CSRFOptions" where
  "getCSRFOptions s =
     \<lparr>HeaderName = GetString s ''SESSIONS_CSRF_HEADERNAME'' ''X-CSRF-Token'',
      FieldName = GetString s ''SESSIONS_CSRF_FIELDNAME'' ''csrf-token''\<rparr>"

definition session_GetConfig :: "'r os \<Rightarrow> (error + SessionConfig) \<times> 'r os" where
  "session_GetConfig s =
     (case GetKey ''SESSIONS_AUTH_KEY'' 32 s of
        (Inl e, s) \<Rightarrow> (Inl (Wrapped ''couldn't make session auth key config'' e), s)
      | (Inr authKey, s) \<Rightarrow>
          (case GetKey ''SESSIONS_ENCRYPTION_KEY'' 32 s of
             (Inl e, s) \<Rightarrow> (Inl (Wrapped ''couldn't make session encryption key config'' e), s)
           | (Inr encryptionKey, s) \<Rightarrow>
               (case getTimeouts s of
                  Inl e \<Rightarrow> (Inl (Wrapped ''couldn't make session timeouts config'' e), s)
                | Inr timeouts \<Rightarrow>
                    (case getCookieOptions s of
                       Inl e \<Rightarrow> (Inl (Wrapped ''couldn't make cookie options config'' e), s)
                     | Inr cookieOptions \<Rightarrow>
                         (Inr \<lparr>AuthKey = authKey, EncryptionKey = encryptionKey, Timeouts_of = timeouts,
                            CookieOptions_of = cookieOptions,
                            CookieName = (if o_Secure cookieOptions then ''__Host-Session'' else ''session''),
                            CSRFOptions_of = getCSRFOptions s\<rparr>, s)))))"

section \<open>Authentication\<close>

record Argon2idParams =
  Memory :: "32 word"
  Iterations :: "32 word"
  Parallelism :: "8 word"
  SaltLength :: "32 word"
  KeyLength :: "32 word"

record AuthnConfig =
  NoAuth :: bool
  Argon2idParams_of :: Argon2idParams
  AdminUsername :: string
  AdminPasswordHash :: string

definition getNoAuth :: "'r os \<Rightarrow> error + bool" where
  "getNoAuth s = GetBool s ''AUTHN_NOAUTH''"

definition MaxUint32 :: "64 word" where "MaxUint32 = 4294967295"
definition MaxUint8 :: "64 word" where "MaxUint8 = 255"

definition getArgon2idParams :: "'r os \<Rightarrow> error + Argon2idParams" where
  "getArgon2idParams s =
     (case GetUint64 s ''AUTHN_ARGON2ID_M'' 64 of
        Inl e \<Rightarrow> Inl (Wrapped ''couldn't make memorySize config'' e)
      | Inr memorySize \<Rightarrow>
          let memorySize = memorySize * 1024
          in if memorySize > MaxUint32 then Inl (Errorf ''%sARGON2ID_M %d is too large!'')
             else
               (case GetUint64 s ''AUTHN_ARGON2ID_T'' 1 of
                  Inl e \<Rightarrow> Inl (Wrapped ''couldn't make iterations config'' e)
                | Inr iterations \<Rightarrow>
                    if iterations > MaxUint32 then Inl (Errorf ''%sARGON2ID_T %d is too large!'')
                    else
                      (case GetUint64 s ''AUTHN_ARGON2ID_P'' 2 of
                         Inl e \<Rightarrow> Inl (Wrapped ''couldn't make parallelism config'' e)
                       | Inr parallelism \<Rightarrow>
                           if parallelism > MaxUint8 then Inl (Errorf ''%sARGON2ID_P %d is too large!'')
                           else
                             Inr \<lparr>Memory = ucast memorySize, Iterations = ucast iterations,
                               Parallelism = ucast parallelism, SaltLength = 16, KeyLength = 32\<rparr>)))"

definition getAdminUsername :: "'r os \<Rightarrow> string" where
  "getAdminUsername s = GetString s ''AUTHN_ADMIN_USERNAME'' ''admin''"

text \<open>\<open>create_hash\<close> stands for \<^verbatim>\<open>argon2id.CreateHash\<close>.\<close>

definition getAdminPasswordHash ::
  "(string \<Rightarrow> Argon2idParams \<Rightarrow> error + string) \<Rightarrow> Argon2idParams \<Rightarrow> bool \<Rightarrow> 'r os \<Rightarrow> error + string" where
  "getAdminPasswordHash create_hash params noAuth s =
     (let hash = GetString s ''AUTHN_ADMIN_PW_HASH'' []
      in if hash = [] \<and> \<not> noAuth then
           let password = GetString s ''AUTHN_ADMIN_PW'' []
           in if password = [] then Inl (Errorf ''must provide a password for the admin account with %sADMIN_PW'')
              else create_hash password params
         else Inr hash)"

definition authn_GetConfig ::
  "(string \<Rightarrow> Argon2idParams \<Rightarrow> error + string) \<Rightarrow> 'r os \<Rightarrow> error + AuthnConfig" where
  "authn_GetConfig create_hash s =
     (case getNoAuth s of
        Inl e \<Rightarrow> Inl (Wrapped ''couldn't make authentication config'' e)
      | Inr noAuth \<Rightarrow>
          (case getArgon2idParams s of
             Inl e \<Rightarrow> Inl (Wrapped ''couldn't make password hashing config'' e)
           | Inr params \<Rightarrow>
               (case getAdminPasswordHash create_hash params noAuth s of
                  Inl e \<Rightarrow> Inl (Wrapped ''couldn't make admin password hash config'' e)
                | Inr hash \<Rightarrow>
                    Inr \<lparr>NoAuth = noAuth, Argon2idParams_of = params, AdminUsername = getAdminUsername s,
                      AdminPasswordHash = hash\<rparr>)))"

text \<open>
  The authentication client (\<^verbatim>\<open>src/authn/client.go\<close>). \<open>compare\<close> stands for
  \<^verbatim>\<open>argon2id.ComparePasswordAndHash\<close>; the comparison of the names takes constant time and is equality.
\<close>

record Client =
  cl_Config :: AuthnConfig

definition NewClient :: "AuthnConfig \<Rightarrow> Client" where
  "NewClient c = \<lparr>cl_Config = c\<rparr>"

definition ConstantTimeCompare :: "string \<Rightarrow> string \<Rightarrow> int" where
  "ConstantTimeCompare x y =
     (if length x \<noteq> length y then 0 else if list_all2 (=) x y then 1 else 0)"

definition CheckCredentials ::
  "(string \<Rightarrow> string \<Rightarrow> error + bool) \<Rightarrow> Client \<Rightarrow> string \<Rightarrow> string \<Rightarrow> bool \<times> error option" where
  "CheckCredentials compare c username password =
     (if NoAuth (cl_Config c) then (True, None)
      else
        let usernameMatch = (ConstantTimeCompare username (AdminUsername (cl_Config c)) = 1)
        in case compare password (AdminPasswordHash (cl_Config c)) of
             Inl e \<Rightarrow> (False, Some e)
           | Inr passwordMatch \<Rightarrow> (usernameMatch \<and> passwordMatch, None))"

section \<open>Database and signer\<close>

datatype OpenFlag = OpenURI | OpenSharedCache | OpenWAL | OpenMemory | OpenReadOnly | OpenReadWrite | OpenCreate

record DatabaseConfig =
  db_URI :: string
  db_Flags :: "OpenFlag set"
  WritePoolSize :: "64 word"
  ReadPoolSize :: "64 word"

definition database_GetConfig :: "'r os \<Rightarrow> error + DatabaseConfig" where
  "database_GetConfig s =
     (case GetBool s ''DATABASE_MEMORY'' of
        Inl e \<Rightarrow> Inl (Wrapped ''couldn't make SQLite in-memory config'' e)
      | Inr memory \<Rightarrow>
          (case GetInt64 s ''DATABASE_WRITEPOOL'' 1 of
             Inl e \<Rightarrow> Inl (Wrapped ''couldn't make SQLite write pool size config'' e)
           | Inr rawWritePoolSize \<Rightarrow>
               (case GetInt64 s ''DATABASE_READPOOL'' 16 of
                  Inl e \<Rightarrow> Inl (Wrapped ''couldn't make SQLite read pool size config'' e)
                | Inr rawReadPoolSize \<Rightarrow>
                    Inr \<lparr>db_URI = GetString s ''DATABASE_URI'' ''file:db.sqlite3'',
                      db_Flags = {OpenURI, OpenSharedCache, OpenWAL} \<union> (if memory then {OpenMemory} else {}),
                      WritePoolSize = rawWritePoolSize, ReadPoolSize = rawReadPoolSize\<rparr>)))"

definition GetSignerConfig :: "'r os \<Rightarrow> (error + SignerConfig) \<times> 'r os" where
  "GetSignerConfig s =
     (let keyFile = GetString s ''ACTIONCABLE_HASH_KEYFILE'' ''/tmp/action-cable.key''
      in case GetKeyWithFile ''ACTIONCABLE_HASH_KEY'' keyFile 32 s of
           (Inl e, s) \<Rightarrow> (Inl (Wrapped ''couldn't get Action Cable key'' e), s)
         | (Inr hashKey, s) \<Rightarrow> (Inr \<lparr>KeyFile = keyFile, HashKey = hashKey\<rparr>, s))"

section \<open>Facts\<close>

lemma GetUint64_bound:
  assumes "GetUint64 s v dflt = Inr w" and "unat dflt < 2 ^ 32"
  shows "unat w < 2 ^ 32"
proof (cases "getenv s v = []")
  case True
  then show ?thesis using assms by (simp add: GetUint64_def)
next
  case False
  then obtain n where "w = of_nat n" "n < 2 ^ 32"
    using assms(1) by (auto simp: GetUint64_def ParseUint_def Let_def split: sum.splits if_splits)
  then show ?thesis by (simp add: unat_of_nat take_bit_eq_mod)
qed

section \<open>Properties\<close>

text \<open>
  (C32) The parameters of the password hash are the requested ones: the memory is 1024 times the number
  in the environment, with no wrap-around in the multiplication or the conversions to 32 and 8 bits.
\<close>

theorem argon2id_params_exact:
  assumes "getArgon2idParams s = Inr p"
  shows "\<exists>m t q. GetUint64 s ''AUTHN_ARGON2ID_M'' 64 = Inr m \<and> GetUint64 s ''AUTHN_ARGON2ID_T'' 1 = Inr t \<and>
    GetUint64 s ''AUTHN_ARGON2ID_P'' 2 = Inr q \<and> unat (Memory p) = 1024 * unat m \<and>
    unat (Iterations p) = unat t \<and> unat (Parallelism p) = unat q"
proof -
  obtain m t q where g: "GetUint64 s ''AUTHN_ARGON2ID_M'' 64 = Inr m" "GetUint64 s ''AUTHN_ARGON2ID_T'' 1 = Inr t"
      "GetUint64 s ''AUTHN_ARGON2ID_P'' 2 = Inr q"
    and le: "m * 1024 \<le> MaxUint32" "t \<le> MaxUint32" "q \<le> MaxUint8"
    and p: "p = \<lparr>Memory = ucast (m * 1024), Iterations = ucast t, Parallelism = ucast q, SaltLength = 16, KeyLength = 32\<rparr>"
    using assms by (auto simp: getArgon2idParams_def Let_def not_less split: sum.splits if_splits)
  have "unat m < 2 ^ 32" by (rule GetUint64_bound [OF g(1)]) simp
  then have m: "unat (m * 1024) = 1024 * unat m"
    by (simp add: unat_word_ariths)
  have "unat (m * 1024) \<le> 4294967295" "unat t \<le> 4294967295" "unat q \<le> 255"
    using le by (simp_all add: word_le_nat_alt MaxUint32_def MaxUint8_def)
  then show ?thesis
    using g m p by (auto simp: unsigned_ucast_eq take_bit_nat_eq_self)
qed

theorem argon2id_params_exact_witness:
  "\<exists>m t q. GetUint64 (demo_os None) ''AUTHN_ARGON2ID_M'' 64 = Inr m \<and>
    GetUint64 (demo_os None) ''AUTHN_ARGON2ID_T'' 1 = Inr t \<and> GetUint64 (demo_os None) ''AUTHN_ARGON2ID_P'' 2 = Inr q \<and>
    unat (65536 :: 32 word) = 1024 * unat m \<and> unat (1 :: 32 word) = unat t \<and> unat (2 :: 8 word) = unat q"
proof -
  have "getArgon2idParams (demo_os None) =
      Inr \<lparr>Memory = 65536, Iterations = 1, Parallelism = 2, SaltLength = 16, KeyLength = 32\<rparr>"
    by (simp add: getArgon2idParams_def GetUint64_def demo_os_def MaxUint32_def MaxUint8_def)
  from argon2id_params_exact [OF this] show ?thesis by simp
qed

text \<open>
  The absolute timeout is the configured number of minutes exactly when that number is at most
  153722867 in absolute value; beyond, the multiplication by a minute wraps around without an
  error.
\<close>

theorem timeout_exact_iff:
  assumes "GetInt64 s ''SESSIONS_TIMEOUTS_ABSOLUTE'' (60 * 24 * 7) = Inr m"
  shows "\<exists>t. getTimeouts s = Inr t \<and>
    (sint (Absolute t) = 60000000000 * sint m \<longleftrightarrow> \<bar>sint m\<bar> \<le> 153722867)"
proof -
  have "sint (m * minute) = 60000000000 * sint m \<longleftrightarrow> - (2 ^ 63) \<le> 60000000000 * sint m \<and> 60000000000 * sint m < 2 ^ 63"
    (is "?exact \<longleftrightarrow> ?range")
  proof
    assume ?exact
    then show ?range
      using sint_ge [of "m * minute"] sint_lt [of "m * minute"] by simp
  next
    assume r: ?range
    have "sint (m * minute) = signed_take_bit 63 (sint m * sint minute)"
      by (simp add: sint_word_ariths)
    also have "sint minute = 60000000000" by (simp add: minute_def)
    also have "signed_take_bit 63 (sint m * 60000000000) = sint m * 60000000000"
      using r by (intro signed_take_bit_int_eq_self) simp_all
    finally show ?exact by simp
  qed
  also have "\<dots> \<longleftrightarrow> \<bar>sint m\<bar> \<le> 153722867" by auto
  finally show ?thesis
    using assms by (simp add: getTimeouts_def)
qed

theorem timeout_exact_iff_witness:
  "\<exists>t. getTimeouts (demo_os None) = Inr t \<and>
    (sint (Absolute t) = 60000000000 * sint (10080 :: 64 word) \<longleftrightarrow> \<bar>sint (10080 :: 64 word)\<bar> \<le> 153722867)"
  by (rule timeout_exact_iff) (simp add: GetInt64_def demo_os_def)

text \<open>
  An administrator account without a password cannot come from the environment: if
  authentication is on and \<^verbatim>\<open>argon2id.CreateHash\<close> makes no empty hash, the configuration has a hash
  that is not empty, or it is refused.
\<close>

theorem admin_password_required:
  assumes "\<forall>pw params. create_hash pw params \<noteq> Inr []" and "authn_GetConfig create_hash s = Inr c" and "\<not> NoAuth c"
  shows "AdminPasswordHash c \<noteq> []"
  using assms
  by (auto simp: authn_GetConfig_def getAdminPasswordHash_def Let_def split: sum.splits if_splits)

definition demo_auth_os :: "nat os" where
  "demo_auth_os = (demo_os None)\<lparr>getenv := \<lambda>v. if v = ''AUTHN_ADMIN_PW'' then ''pw'' else []\<rparr>"

theorem admin_password_required_witness:
  "\<exists>c. authn_GetConfig (\<lambda>pw params. Inr (CHR ''$'' # pw)) demo_auth_os = Inr c \<and> AdminPasswordHash c \<noteq> []"
proof -
  let ?h = "\<lambda>pw (params :: Argon2idParams). Inr (CHR ''$'' # pw) :: error + string"
  obtain c where c: "authn_GetConfig ?h demo_auth_os = Inr c" "\<not> NoAuth c"
    by (simp add: authn_GetConfig_def getNoAuth_def GetBool_def getArgon2idParams_def GetUint64_def demo_auth_os_def
        MaxUint32_def MaxUint8_def getAdminPasswordHash_def GetString_def)
  then show ?thesis
    using admin_password_required [OF _ c] by auto
qed

text \<open>
  (C34) The configured administrator can log in, and nobody else: with authentication on and no hash configured in
  \<^verbatim>\<open>AUTHN_ADMIN_PW_HASH\<close>, so that the hash is made from the configured password, the configured name and password are accepted, if the hash function
  recognises the password it has hashed; and whatever is accepted carries the configured name and a password
  that matches the configured hash.
\<close>

theorem only_admin_logs_in:
  assumes "authn_GetConfig create_hash s = Inr c" and "\<not> NoAuth c" and "getenv s ''AUTHN_ADMIN_PW_HASH'' = []"
    and "\<forall>pw params h. create_hash pw params = Inr h \<longrightarrow> compare pw h = Inr True"
  shows "CheckCredentials compare (NewClient c) (AdminUsername c) (getenv s ''AUTHN_ADMIN_PW'') = (True, None) \<and>
    (\<forall>u pw. fst (CheckCredentials compare (NewClient c) u pw) \<longrightarrow>
       u = getAdminUsername s \<and> compare pw (AdminPasswordHash c) = Inr True)"
proof -
  have same: "ConstantTimeCompare x y = 1 \<longleftrightarrow> x = y" for x y
    by (auto simp: ConstantTimeCompare_def list.rel_eq)
  have "AdminUsername c = getAdminUsername s"
    "compare (getenv s ''AUTHN_ADMIN_PW'') (AdminPasswordHash c) = Inr True"
    using assms
    by (auto simp: authn_GetConfig_def getAdminPasswordHash_def GetString_def Let_def split: sum.splits if_splits)
  then show ?thesis
    using assms(2) by (auto simp: CheckCredentials_def NewClient_def same split: sum.splits)
qed

theorem only_admin_logs_in_witness:
  "\<exists>c. authn_GetConfig (\<lambda>pw params. Inr (CHR ''$'' # pw)) demo_auth_os = Inr c \<and>
     CheckCredentials (\<lambda>pw h. Inr (h = CHR ''$'' # pw)) (NewClient c) (AdminUsername c) ''pw'' = (True, None)"
proof -
  let ?h = "\<lambda>pw (params :: Argon2idParams). Inr (CHR ''$'' # pw) :: error + string"
  obtain c where c: "authn_GetConfig ?h demo_auth_os = Inr c" "\<not> NoAuth c"
    by (simp add: authn_GetConfig_def getNoAuth_def GetBool_def getArgon2idParams_def GetUint64_def demo_auth_os_def
        MaxUint32_def MaxUint8_def getAdminPasswordHash_def GetString_def)
  from only_admin_logs_in [OF this, of "\<lambda>pw h. Inr (h = CHR ''$'' # pw)"] c(1) show ?thesis
    by (auto simp: demo_auth_os_def)
qed

end
