(* ===== verification/Database.thy ===== *)
theory Database
  imports Config GoContext "HOL-Library.Multiset"
begin

text \<open>
  The database of \<^verbatim>\<open>src/database\<close>: connection pools, the preparation of connections, statements and
  migrations. The SQLite library is the record \<open>sqlite\<close>, its functions taking and returning a state of
  type \<open>'e\<close> that holds the contents of the database and of the pools; a file system is what walking and
  opening it give.
\<close>

section \<open>File systems\<close>

text \<open>\<open>f_read\<close> is the result of reading the whole file, \<open>f_close\<close> that of closing it.\<close>

record File =
  f_read :: "error + string"
  f_close :: "error option"

text \<open>\<open>fs_walk\<close> lists the calls that \<^verbatim>\<open>fs.WalkDir\<close> makes: the path, whether it is a directory, the error.\<close>

record FS =
  fs_walk :: "(string \<times> bool \<times> error option) list"
  fs_Open :: "string \<Rightarrow> error + File"

fun list_walk :: "(string \<Rightarrow> bool) option \<Rightarrow> (string \<times> bool \<times> error option) list \<Rightarrow> string list \<Rightarrow> error + string list" where
  "list_walk flt [] fs = Inr fs"
| "list_walk flt ((path, isDir, err) # ws) fs =
     (case err of
        Some e \<Rightarrow> Inl e
      | None \<Rightarrow>
          if isDir then list_walk flt ws fs
          else if flt = None \<or> the flt path then list_walk flt ws (fs @ [path])
          else list_walk flt ws fs)"

definition listFiles :: "FS \<Rightarrow> (string \<Rightarrow> bool) option \<Rightarrow> error + string list" where
  "listFiles f flt = list_walk flt (fs_walk f) []"

text \<open>
  The deferred \<^verbatim>\<open>Close\<close> assigns to a local \<^verbatim>\<open>err\<close>, not to a named result: its error is lost.
\<close>

definition readFile :: "string \<Rightarrow> FS \<Rightarrow> error + string" where
  "readFile filename f = (case fs_Open f filename of Inl e \<Rightarrow> Inl e | Inr file \<Rightarrow> f_read file)"

definition HasSuffix :: "string \<Rightarrow> string \<Rightarrow> bool" where
  "HasSuffix s suf = suffix suf s"

definition filterQuery :: "string \<Rightarrow> bool" where
  "filterQuery path = HasSuffix path ''.sql''"

fun read_query_files :: "FS \<Rightarrow> string list \<Rightarrow> error + string list" where
  "read_query_files f [] = Inr []"
| "read_query_files f (file # fs) =
     (case readFile file f of
        Inl e \<Rightarrow> Inl (Wrapped ''couldn't open query file %s'' e)
      | Inr q \<Rightarrow> (case read_query_files f fs of Inl e \<Rightarrow> Inl e | Inr qs \<Rightarrow> Inr (q # qs)))"

definition readQueries :: "FS \<Rightarrow> (string \<Rightarrow> bool) option \<Rightarrow> error + string list" where
  "readQueries f flt =
     (case listFiles f flt of
        Inl e \<Rightarrow> Inl (Wrapped ''couldn't list query files'' e)
      | Inr fs \<Rightarrow> read_query_files f fs)"

section \<open>Migrations\<close>

record MigrationFile =
  mf_Domain :: string
  mf_File :: string

record Embeds =
  AppID :: "32 word"
  DomainEmbeds :: "string \<rightharpoonup> FS"
  MigrationFiles :: "MigrationFile list"
  PrepareConnQueriesFS :: "FS option"

record Schema =
  sc_AppID :: "32 word"
  sc_Migrations :: "string list"

fun read_migration_files :: "string \<Rightarrow> Embeds \<Rightarrow> MigrationFile list \<Rightarrow> error + string list" where
  "read_migration_files fileExt e [] = Inr []"
| "read_migration_files fileExt e (m # ms) =
     (case DomainEmbeds e (mf_Domain m) of
        None \<Rightarrow> Inl (Errorf ''couldn't find migration domain %s'')
      | Some domainEmbed \<Rightarrow>
          (case readFile (mf_File m @ fileExt) domainEmbed of
             Inl err \<Rightarrow> Inl (Wrapped ''couldn't read migration file %s%s from domain %s'' err)
           | Inr raw \<Rightarrow>
               (case read_migration_files fileExt e ms of
                  Inl err \<Rightarrow> Inl err
                | Inr rest \<Rightarrow> Inr (TrimSpace raw # rest))))"

definition readMigrations :: "bool \<Rightarrow> Embeds \<Rightarrow> error + string list" where
  "readMigrations up e =
     read_migration_files (if up then ''.up.sql'' else ''.down.sql'') e (MigrationFiles e)"

definition ReadUpMigrations :: "Embeds \<Rightarrow> error + string list" where
  "ReadUpMigrations e = map_sum (Wrapped ''couldn't read up-migrations'') id (readMigrations True e)"

definition ReadDownMigrations :: "Embeds \<Rightarrow> error + string list" where
  "ReadDownMigrations e = map_sum (Wrapped ''couldn't read down-migrations'') id (readMigrations True e)"

definition NewSchema :: "Embeds \<Rightarrow> error + Schema" where
  "NewSchema e =
     (case ReadUpMigrations e of
        Inl err \<Rightarrow> Inl (Wrapped ''couldn't read migrations'' err)
      | Inr migrations \<Rightarrow> Inr \<lparr>sc_AppID = AppID e, sc_Migrations = migrations\<rparr>)"

section \<open>The SQLite library\<close>

type_synonym conn = nat
type_synonym pool = nat

text \<open>The values of named parameters, and a row as the columns that \<^verbatim>\<open>GetText\<close> and \<^verbatim>\<open>GetInt64\<close> read.\<close>

datatype val = TextVal string | IntVal int

record Stmt =
  GetText :: "string \<Rightarrow> string"
  GetInt64_of :: "string \<Rightarrow> int"

type_synonym params = "(string \<times> val) list"

record 'e sqlite =
  NewPool :: "string \<Rightarrow> OpenFlag set \<Rightarrow> 64 word \<Rightarrow> 'e \<Rightarrow> (error + pool) \<times> 'e"
  pool_Close :: "pool \<Rightarrow> 'e \<Rightarrow> error option \<times> 'e"
  Take :: "pool \<Rightarrow> ctx \<Rightarrow> 'e \<Rightarrow> (error + conn) \<times> 'e"
  Put :: "pool \<Rightarrow> conn \<Rightarrow> 'e \<Rightarrow> 'e"
  exec_rows :: "conn \<Rightarrow> string \<Rightarrow> params \<Rightarrow> 'e \<Rightarrow> (Stmt list \<times> error option) \<times> 'e"
  ExecuteTransient :: "conn \<Rightarrow> string \<Rightarrow> 'e \<Rightarrow> error option \<times> 'e"
  Savepoint :: "conn \<Rightarrow> 'e \<Rightarrow> 'e"
  EndSavepoint :: "conn \<Rightarrow> error option \<Rightarrow> 'e \<Rightarrow> error option \<times> 'e"
  sq_Migrate :: "ctx \<Rightarrow> conn \<Rightarrow> Schema \<Rightarrow> 'e \<Rightarrow> error option \<times> 'e"

text \<open>\<^verbatim>\<open>sqlitex.Execute\<close> gives each row to the result function until one is refused.\<close>

type_synonym 's ResultFunc = "Stmt \<Rightarrow> 's \<Rightarrow> error option \<times> 's"

fun step_rows :: "'s ResultFunc \<Rightarrow> Stmt list \<Rightarrow> error option \<Rightarrow> 's \<Rightarrow> error option \<times> 's" where
  "step_rows f [] err s = (err, s)"
| "step_rows f (row # rows) err s =
     (case f row s of (Some e, s) \<Rightarrow> (Some e, s) | (None, s) \<Rightarrow> step_rows f rows err s)"

definition Execute ::
  "'e sqlite \<Rightarrow> conn \<Rightarrow> string \<Rightarrow> params \<Rightarrow> 's ResultFunc \<Rightarrow> 's \<times> 'e \<Rightarrow> error option \<times> 's \<times> 'e" where
  "Execute S conn query ps f se =
     (let (s, e) = se;
          ((rows, err), e) = exec_rows S conn query ps e;
          (err, s) = step_rows f rows err s
      in (err, s, e))"

abbreviation no_result :: "unit ResultFunc" where
  "no_result \<equiv> (\<lambda>_ s. (None, s))"

section \<open>Statements on a connection\<close>

definition conn_ExecuteInsertion ::
  "'e sqlite \<Rightarrow> conn \<Rightarrow> string \<Rightarrow> params \<Rightarrow> 'e \<Rightarrow> error option \<times> 'e" where
  "conn_ExecuteInsertion S conn query ps e =
     (let (err, _, e) = Execute S conn query ps no_result ((), e)
      in (errors_Wrap err ''couldn't execute insertion statement'', e))"

definition selectLastInsertRowIDQuery :: string where
  "selectLastInsertRowIDQuery = ''select last_insert_rowid() as row_id;''"

text \<open>The deferred end of the savepoint sees the error about to be returned and may replace it.\<close>

definition conn_ExecuteInsertionForID ::
  "'e sqlite \<Rightarrow> conn \<Rightarrow> string \<Rightarrow> params \<Rightarrow> 'e \<Rightarrow> (int \<times> error option) \<times> 'e" where
  "conn_ExecuteInsertionForID S conn query ps e =
     (let e = Savepoint S conn e;
          (err, _, e) = Execute S conn query ps no_result ((), e);
          ((rowID, err), e) =
            (case err of
               Some x \<Rightarrow> ((0, Some (Wrapped ''couldn't execute insertion statement'' x)), e)
             | None \<Rightarrow>
                 (case Execute S conn selectLastInsertRowIDQuery [] (\<lambda>s _. (None, GetInt64_of s ''row_id'')) (0, e) of
                    (Some x, _, e) \<Rightarrow> ((0, Some (Wrapped ''couldn't look up id of inserted row'' x)), e)
                  | (None, rowID, e) \<Rightarrow> ((rowID, None), e)));
          (err, e) = EndSavepoint S conn err e
      in ((rowID, err), e))"

definition conn_ExecuteUpdate ::
  "'e sqlite \<Rightarrow> conn \<Rightarrow> string \<Rightarrow> params \<Rightarrow> 'e \<Rightarrow> error option \<times> 'e" where
  "conn_ExecuteUpdate S conn query ps e =
     (let (err, _, e) = Execute S conn query ps no_result ((), e)
      in (errors_Wrap err ''couldn't execute update statement'', e))"

definition conn_ExecuteDelete ::
  "'e sqlite \<Rightarrow> conn \<Rightarrow> string \<Rightarrow> params \<Rightarrow> 'e \<Rightarrow> error option \<times> 'e" where
  "conn_ExecuteDelete S conn query ps e =
     (let (err, _, e) = Execute S conn query ps no_result ((), e)
      in (errors_Wrap err ''couldn't execute delete statement'', e))"

definition conn_ExecuteSelection ::
  "'e sqlite \<Rightarrow> conn \<Rightarrow> string \<Rightarrow> params \<Rightarrow> 's ResultFunc \<Rightarrow> 's \<times> 'e \<Rightarrow> error option \<times> 's \<times> 'e" where
  "conn_ExecuteSelection S conn query ps resultFunc se =
     (let (err, se) = Execute S conn query ps resultFunc se
      in (errors_Wrap err ''couldn't execute selection statement'', se))"

section \<open>The database\<close>

text \<open>
  A nil pool is \<open>None\<close>. \<open>releases\<close> lists the goroutines that are about to put a connection back. The mutex
  around \<^verbatim>\<open>connPools\<close> guards single accesses and is left out.
\<close>

record 'e DB =
  db_Config :: DatabaseConfig
  prepareConnQueries :: "FS option"
  connPools :: "(conn \<times> pool) list"
  writePool :: "pool option"
  readPool :: "pool option"
  engine :: 'e
  releases :: "(pool option \<times> conn) list"

type_synonym 'e DBOption = "'e DB \<Rightarrow> 'e DB"

definition WithPrepareConnQueries :: "FS option \<Rightarrow> 'e DBOption" where
  "WithPrepareConnQueries queries db = db\<lparr>prepareConnQueries := queries\<rparr>"

definition NewDB :: "DatabaseConfig \<Rightarrow> 'e DBOption list \<Rightarrow> 'e \<Rightarrow> 'e DB" where
  "NewDB c opts e =
     fold (\<lambda>storeOption. storeOption) opts
       \<lparr>db_Config = c, prepareConnQueries = None, connPools = [], writePool = None, readPool = None,
        engine = e, releases = []\<rparr>"

definition db_Open :: "'e sqlite \<Rightarrow> 'e DB \<Rightarrow> error option \<times> 'e DB" where
  "db_Open S db =
     (let c = db_Config db
      in case NewPool S (db_URI c) (db_Flags c \<union> {OpenReadWrite, OpenCreate}) (WritePoolSize c) (engine db) of
           (Inl err, e) \<Rightarrow>
             (Some (Wrapped ''couldn't open writer pool'' err), db\<lparr>writePool := None, engine := e\<rparr>)
         | (Inr w, e) \<Rightarrow>
             (case NewPool S (db_URI c) (db_Flags c \<union> {OpenReadOnly}) (ReadPoolSize c) e of
                (Inl err, e) \<Rightarrow>
                  (Some (Wrapped ''couldn't open reader pool'' err),
                   db\<lparr>writePool := Some w, readPool := None, engine := e\<rparr>)
              | (Inr r, e) \<Rightarrow> (None, db\<lparr>writePool := Some w, readPool := Some r, engine := e\<rparr>)))"

definition db_Close :: "'e sqlite \<Rightarrow> 'e DB \<Rightarrow> (error option \<times> 'e DB) go" where
  "db_Close S db =
     (case writePool db of
        None \<Rightarrow> Some (Inl NilDereference)
      | Some w \<Rightarrow>
          (case pool_Close S w (engine db) of
             (Some err, e) \<Rightarrow> go_return (Some (Wrapped ''couldn't close writer pool'' err), db\<lparr>engine := e\<rparr>)
           | (None, e) \<Rightarrow>
               (case readPool db of
                  None \<Rightarrow> Some (Inl NilDereference)
                | Some r \<Rightarrow>
                    let (err, e) = pool_Close S r e
                    in go_return (errors_Wrap err ''couldn't close reader pool'', db\<lparr>engine := e\<rparr>))))"

section \<open>Acquiring connections\<close>

fun run_prepare_queries :: "'e sqlite \<Rightarrow> conn \<Rightarrow> string list \<Rightarrow> 'e \<Rightarrow> error option \<times> 'e" where
  "run_prepare_queries S conn [] e = (None, e)"
| "run_prepare_queries S conn (query # qs) e =
     (case ExecuteTransient S conn (TrimSpace query) e of
        (Some err, e) \<Rightarrow> (Some (Wrapped ''couldn't run connection preparation query'' err), e)
      | (None, e) \<Rightarrow> run_prepare_queries S conn qs e)"

definition db_prepare :: "'e sqlite \<Rightarrow> conn \<Rightarrow> pool \<Rightarrow> 'e DB \<Rightarrow> error option \<times> 'e DB" where
  "db_prepare S conn pool db =
     (case prepareConnQueries db of
        None \<Rightarrow> (None, db)
      | Some fs \<Rightarrow>
          if map_of (connPools db) conn \<noteq> None then (None, db)
          else
            (case readQueries fs (Some filterQuery) of
               Inl err \<Rightarrow> (Some (Wrapped ''couldn't read connection preparation queries'' err), db)
             | Inr queries \<Rightarrow>
                 (case run_prepare_queries S conn queries (engine db) of
                    (Some err, e) \<Rightarrow> (Some err, db\<lparr>engine := e\<rparr>)
                  | (None, e) \<Rightarrow>
                      (None, db\<lparr>engine := e, connPools := AList.update conn pool (connPools db)\<rparr>))))"

definition acquire :: "'e sqlite \<Rightarrow> ctx \<Rightarrow> bool \<Rightarrow> 'e DB \<Rightarrow> ((error + conn) \<times> 'e DB) go" where
  "acquire S ctx writable db =
     (case (if writable then writePool db else readPool db) of
        None \<Rightarrow> Some (Inl NilDereference)
      | Some pool \<Rightarrow>
          (case Take S pool ctx (engine db) of
             (Inl err, e) \<Rightarrow> go_return (Inl (Wrapped ''couldn't get connection from pool'' err), db\<lparr>engine := e\<rparr>)
           | (Inr conn, e) \<Rightarrow>
               (case db_prepare S conn pool (db\<lparr>engine := e\<rparr>) of
                  (Some err, db) \<Rightarrow>
                    go_return (Inl (Wrapped ''couldn't prepare connection'' err),
                      db\<lparr>engine := Put S pool conn (engine db)\<rparr>)
                | (None, db) \<Rightarrow> go_return (Inr conn, db))))"

definition AcquireReader :: "'e sqlite \<Rightarrow> ctx \<Rightarrow> 'e DB \<Rightarrow> ((error + conn) \<times> 'e DB) go" where
  "AcquireReader S ctx db =
     go_bind (acquire S ctx False db) (\<lambda>(r, db).
       go_return (map_sum (Wrapped ''couldn't acquire reader'') id r, db))"

definition AcquireWriter :: "'e sqlite \<Rightarrow> ctx \<Rightarrow> 'e DB \<Rightarrow> ((error + conn) \<times> 'e DB) go" where
  "AcquireWriter S ctx db =
     go_bind (acquire S ctx True db) (\<lambda>(r, db).
       go_return (map_sum (Wrapped ''couldn't acquire writer'') id r, db))"

definition ReleaseReader :: "conn \<Rightarrow> 'e DB \<Rightarrow> 'e DB" where
  "ReleaseReader conn db = db\<lparr>releases := releases db @ [(readPool db, conn)]\<rparr>"

definition ReleaseWriter :: "conn \<Rightarrow> 'e DB \<Rightarrow> 'e DB" where
  "ReleaseWriter conn db = db\<lparr>releases := releases db @ [(writePool db, conn)]\<rparr>"

text \<open>One of the goroutines that \<^verbatim>\<open>ReleaseReader\<close> and \<^verbatim>\<open>ReleaseWriter\<close> start.\<close>

definition run_release :: "'e sqlite \<Rightarrow> pool option \<times> conn \<Rightarrow> 'e DB \<Rightarrow> 'e DB go" where
  "run_release S r db =
     (case r of
        (None, conn) \<Rightarrow> Some (Inl NilDereference)
      | (Some pool, conn) \<Rightarrow>
          go_return (db\<lparr>engine := Put S pool conn (engine db), releases := remove1 r (releases db)\<rparr>))"

section \<open>Statements on the database\<close>

text \<open>
  The common shape of a call that acquires a writer, does something with it and releases it: \<open>msg\<close> is the
  message of a failed acquisition and \<open>body\<close> what the connection is used for.
\<close>

definition with_writer ::
  "'e sqlite \<Rightarrow> ctx \<Rightarrow> string \<Rightarrow> (conn \<Rightarrow> 'e \<Rightarrow> 'a \<times> 'e) \<Rightarrow> (error \<Rightarrow> 'a) \<Rightarrow> 'e DB \<Rightarrow> ('a \<times> 'e DB) go" where
  "with_writer S ctx msg body failed db =
     go_bind (AcquireWriter S ctx db) (\<lambda>(r, db).
       case r of
         Inl err \<Rightarrow> go_return (failed (Wrapped msg err), db)
       | Inr conn \<Rightarrow>
           let (x, e) = body conn (engine db)
           in go_return (x, ReleaseWriter conn (db\<lparr>engine := e\<rparr>)))"

definition db_Migrate :: "'e sqlite \<Rightarrow> ctx \<Rightarrow> Schema \<Rightarrow> 'e DB \<Rightarrow> (error option \<times> 'e DB) go" where
  "db_Migrate S ctx schema db =
     with_writer S ctx ''couldn't acquire connection to migrate schemas''
       (\<lambda>conn e. let (err, e) = sq_Migrate S ctx conn schema e in (errors_Wrap err ''couldn't migrate schemas'', e))
       Some db"

definition ExecuteInsertion ::
  "'e sqlite \<Rightarrow> ctx \<Rightarrow> string \<Rightarrow> params \<Rightarrow> 'e DB \<Rightarrow> (error option \<times> 'e DB) go" where
  "ExecuteInsertion S ctx query ps db =
     with_writer S ctx ''couldn't acquire writer to perform insertion''
       (\<lambda>conn. conn_ExecuteInsertion S conn query ps) Some db"

definition ExecuteInsertionForID ::
  "'e sqlite \<Rightarrow> ctx \<Rightarrow> string \<Rightarrow> params \<Rightarrow> 'e DB \<Rightarrow> ((int \<times> error option) \<times> 'e DB) go" where
  "ExecuteInsertionForID S ctx query ps db =
     with_writer S ctx ''couldn't acquire writer to perform insertion''
       (\<lambda>conn. conn_ExecuteInsertionForID S conn query ps) (\<lambda>err. (0, Some err)) db"

definition ExecuteUpdate ::
  "'e sqlite \<Rightarrow> ctx \<Rightarrow> string \<Rightarrow> params \<Rightarrow> 'e DB \<Rightarrow> (error option \<times> 'e DB) go" where
  "ExecuteUpdate S ctx query ps db =
     with_writer S ctx ''couldn't acquire writer to perform update''
       (\<lambda>conn. conn_ExecuteUpdate S conn query ps) Some db"

definition ExecuteDelete ::
  "'e sqlite \<Rightarrow> ctx \<Rightarrow> string \<Rightarrow> params \<Rightarrow> 'e DB \<Rightarrow> (error option \<times> 'e DB) go" where
  "ExecuteDelete S ctx query ps db =
     with_writer S ctx ''couldn't acquire writer to perform delete''
       (\<lambda>conn. conn_ExecuteDelete S conn query ps) Some db"

definition ExecuteSelection ::
  "'e sqlite \<Rightarrow> ctx \<Rightarrow> string \<Rightarrow> params \<Rightarrow> 's ResultFunc \<Rightarrow> 's \<Rightarrow> 'e DB \<Rightarrow> ((error option \<times> 's) \<times> 'e DB) go" where
  "ExecuteSelection S ctx query ps resultFunc s db =
     go_bind (AcquireReader S ctx db) (\<lambda>(r, db).
       case r of
         Inl err \<Rightarrow> go_return ((Some (Wrapped ''couldn't acquire reader to perform selection'' err), s), db)
       | Inr conn \<Rightarrow>
           let (err, s, e) = conn_ExecuteSelection S conn query ps resultFunc (s, engine db)
           in go_return ((err, s), ReleaseReader conn (db\<lparr>engine := e\<rparr>)))"

section \<open>Facts\<close>

text \<open>
  What the pools of the library promise, with \<open>out e\<close> the connections that are out of a pool: taking one
  adds it, putting one back removes it, statements leave the pools alone.
\<close>

definition pool_laws :: "'e sqlite \<Rightarrow> ('e \<Rightarrow> (pool \<times> conn) multiset) \<Rightarrow> bool" where
  "pool_laws S out \<longleftrightarrow>
     (\<forall>p ctx e. out (snd (Take S p ctx e)) =
        (case fst (Take S p ctx e) of Inl _ \<Rightarrow> out e | Inr c \<Rightarrow> add_mset (p, c) (out e))) \<and>
     (\<forall>p c e. out (Put S p c e) = out e - {#(p, c)#}) \<and>
     (\<forall>c q ps e. out (snd (exec_rows S c q ps e)) = out e) \<and>
     (\<forall>c q e. out (snd (ExecuteTransient S c q e)) = out e) \<and>
     (\<forall>c e. out (Savepoint S c e) = out e) \<and>
     (\<forall>c err e. out (snd (EndSavepoint S c err e)) = out e) \<and>
     (\<forall>ctx c sc e. out (snd (sq_Migrate S ctx c sc e)) = out e)"

lemma pool_lawsD:
  assumes "pool_laws S out"
  shows "Take S p ctx e = (Inl err, e') \<Longrightarrow> out e' = out e"
    and "Take S p ctx e = (Inr c, e') \<Longrightarrow> out e' = add_mset (p, c) (out e)"
    and "out (Put S p c e) = out e - {#(p, c)#}"
    and "exec_rows S c q ps e = (r, e') \<Longrightarrow> out e' = out e"
    and "ExecuteTransient S c q e = (er, e') \<Longrightarrow> out e' = out e"
    and "out (Savepoint S c e) = out e"
    and "EndSavepoint S c er e = (er', e') \<Longrightarrow> out e' = out e"
    and "sq_Migrate S ctx c sc e = (er, e') \<Longrightarrow> out e' = out e"
proof -
  note A = assms [unfolded pool_laws_def]
  show "Take S p ctx e = (Inl err, e') \<Longrightarrow> out e' = out e"
    using A [THEN conjunct1, rule_format, of p ctx e] by simp
  show "Take S p ctx e = (Inr c, e') \<Longrightarrow> out e' = add_mset (p, c) (out e)"
    using A [THEN conjunct1, rule_format, of p ctx e] by simp
qed (use assms in \<open>auto simp: pool_laws_def dest: arg_cong [of _ _ snd]; metis snd_conv\<close>)+

lemma run_prepare_queries_out:
  "pool_laws S out \<Longrightarrow> run_prepare_queries S conn qs e = (er, e') \<Longrightarrow> out e' = out e"
  by (induction qs arbitrary: e) (auto dest: pool_lawsD(5) split: prod.splits option.splits)

lemma db_prepare_cases:
  assumes "db_prepare S conn pool db = (er, db')"
  shows "\<exists>e cp. db' = db\<lparr>engine := e, connPools := cp\<rparr>"
  using assms
  by (auto simp: db_prepare_def split: option.splits sum.splits prod.splits if_splits)
     (metis DB.surjective DB.update_convs(3,6))+

lemma db_prepare_out:
  assumes "pool_laws S out" and "db_prepare S conn pool db = (er, db')"
  shows "out (engine db') = out (engine db)"
  using assms(2)
  by (auto simp: db_prepare_def split: option.splits sum.splits prod.splits if_splits
      dest!: run_prepare_queries_out [OF assms(1)])

lemma db_prepare_frame:
  assumes "db_prepare S conn pool db = (er, db')"
  shows "releases db' = releases db" "writePool db' = writePool db" "readPool db' = readPool db"
    "prepareConnQueries db' = prepareConnQueries db"
  using db_prepare_cases [OF assms] by auto

lemma acquire_frame:
  assumes "acquire S ctx w db = Some (Inr (r, db'))"
  shows "releases db' = releases db" "writePool db' = writePool db" "readPool db' = readPool db"
    "prepareConnQueries db' = prepareConnQueries db"
  using assms
  by (auto simp: acquire_def split: option.splits sum.splits prod.splits dest!: db_prepare_cases)

lemma acquire_out:
  assumes "pool_laws S out" and "acquire S ctx w db = Some (Inr (r, db'))"
  shows "case r of
      Inl err \<Rightarrow> out (engine db') = out (engine db)
    | Inr c \<Rightarrow> \<exists>p. (if w then writePool db else readPool db) = Some p \<and>
        out (engine db') = add_mset (p, c) (out (engine db))"
proof -
  obtain pool where pool: "(if w then writePool db else readPool db) = Some pool"
    using assms(2) by (cases "if w then writePool db else readPool db") (auto simp: acquire_def)
  note def = assms(2) [unfolded acquire_def pool option.case]
  show ?thesis
  proof (cases "fst (Take S pool ctx (engine db))")
    case (Inl err)
    then show ?thesis
      using def pool_lawsD(1) [OF assms(1), of pool ctx "engine db"]
      by (cases "Take S pool ctx (engine db)") auto
  next
    case (Inr c)
    then obtain e where take: "Take S pool ctx (engine db) = (Inr c, e)"
      by (cases "Take S pool ctx (engine db)") auto
    note e = pool_lawsD(2) [OF assms(1) take]
    obtain er db1 where prep: "db_prepare S c pool (db\<lparr>engine := e\<rparr>) = (er, db1)" by fastforce
    have "out (engine db1) = out e" using db_prepare_out [OF assms(1) prep] by simp
    then show ?thesis
      using def pool e by (cases er) (auto simp: take prep pool_lawsD(3) [OF assms(1)])
  qed
qed

text \<open>The connections on their way back to their pool.\<close>

definition in_transit :: "'e DB \<Rightarrow> (pool \<times> conn) multiset" where
  "in_transit db = image_mset (map_prod the id) (mset (releases db))"

definition balanced :: "('e \<Rightarrow> (pool \<times> conn) multiset) \<Rightarrow> 'e DB \<Rightarrow> bool" where
  "balanced out db \<longleftrightarrow> out (engine db) = in_transit db \<and> (\<forall>(p, c)\<in>set (releases db). p \<noteq> None)"

lemma balanced_acquire_fails:
  assumes "pool_laws S out" and "acquire S ctx w db = Some (Inr (Inl err, db'))" and "balanced out db"
  shows "balanced out db'"
  using assms(3) acquire_out [OF assms(1,2)] acquire_frame [OF assms(2)]
  by (simp add: balanced_def in_transit_def)

lemma balanced_release:
  assumes "pool_laws S out" and "acquire S ctx w db = Some (Inr (Inr c, db1))" and "balanced out db"
    and "out e = out (engine db1)"
  shows "balanced out ((if w then ReleaseWriter c else ReleaseReader c) (db1\<lparr>engine := e\<rparr>))"
  using assms(3,4) acquire_out [OF assms(1,2)] acquire_frame [OF assms(2)]
  by (auto simp: balanced_def in_transit_def ReleaseWriter_def ReleaseReader_def)

lemma with_writer_balanced:
  assumes "pool_laws S out" and "with_writer S ctx msg body failed db = Some (Inr (r, db'))" and "balanced out db"
    and "\<And>c e x e'. body c e = (x, e') \<Longrightarrow> out e' = out e"
  shows "balanced out db'"
proof -
  obtain r0 db1 where acq: "acquire S ctx True db = Some (Inr (r0, db1))"
    using assms(2) by (auto simp: with_writer_def AcquireWriter_def)
  show ?thesis
  proof (cases r0)
    case (Inl err)
    then show ?thesis
      using assms(2) balanced_acquire_fails [OF assms(1) _ assms(3)] acq
      by (auto simp: with_writer_def AcquireWriter_def)
  next
    case (Inr c)
    then show ?thesis
      using assms(2) balanced_release [OF assms(1) _ assms(3), of ctx True c db1] acq assms(4)
      by (auto simp: with_writer_def AcquireWriter_def split: prod.splits)
  qed
qed

lemma Execute_out:
  "pool_laws S out \<Longrightarrow> Execute S conn q ps f (s, e) = (er, s', e') \<Longrightarrow> out e' = out e"
  by (auto simp: Execute_def dest: pool_lawsD(4) split: prod.splits)

lemma conn_statement_out:
  assumes "pool_laws S out"
  shows "conn_ExecuteInsertion S c q ps e = (er, e') \<Longrightarrow> out e' = out e"
    and "conn_ExecuteUpdate S c q ps e = (er, e') \<Longrightarrow> out e' = out e"
    and "conn_ExecuteDelete S c q ps e = (er, e') \<Longrightarrow> out e' = out e"
    and "conn_ExecuteSelection S c q ps f (s, e) = (er, s', e') \<Longrightarrow> out e' = out e"
    and "conn_ExecuteInsertionForID S c q ps e = (x, e') \<Longrightarrow> out e' = out e"
  by (auto simp: conn_ExecuteInsertion_def conn_ExecuteUpdate_def conn_ExecuteDelete_def conn_ExecuteSelection_def
      conn_ExecuteInsertionForID_def Let_def pool_lawsD(6) [OF assms]
      dest!: Execute_out [OF assms] pool_lawsD(7) [OF assms] split: prod.splits option.splits)

section \<open>Runs\<close>

text \<open>
  The calls of the package's clients, and the goroutines that put connections back.
\<close>

inductive db_step :: "'e sqlite \<Rightarrow> 's itself \<Rightarrow> 'e DB \<Rightarrow> 'e DB \<Rightarrow> bool" for S where
  step_Migrate: "db_Migrate S ctx schema db = Some (Inr (r, db')) \<Longrightarrow> db_step S t db db'"
| step_Insertion: "ExecuteInsertion S ctx q ps db = Some (Inr (r, db')) \<Longrightarrow> db_step S t db db'"
| step_InsertionForID: "ExecuteInsertionForID S ctx q ps db = Some (Inr (x, db')) \<Longrightarrow> db_step S t db db'"
| step_Update: "ExecuteUpdate S ctx q ps db = Some (Inr (r, db')) \<Longrightarrow> db_step S t db db'"
| step_Delete: "ExecuteDelete S ctx q ps db = Some (Inr (r, db')) \<Longrightarrow> db_step S t db db'"
| step_Selection: "ExecuteSelection S ctx q ps f (s :: 's) db = Some (Inr (x, db')) \<Longrightarrow> db_step S TYPE('s) db db'"
| step_release: "rel \<in> set (releases db) \<Longrightarrow> run_release S rel db = Some (Inr db') \<Longrightarrow> db_step S t db db'"

lemma ExecuteSelection_balanced:
  assumes "pool_laws S out" and "ExecuteSelection S ctx q ps f s db = Some (Inr (x, db'))" and "balanced out db"
  shows "balanced out db'"
proof -
  obtain r0 db1 where acq: "acquire S ctx False db = Some (Inr (r0, db1))"
    using assms(2) by (auto simp: ExecuteSelection_def AcquireReader_def)
  show ?thesis
  proof (cases r0)
    case (Inl err)
    then show ?thesis
      using assms(2) balanced_acquire_fails [OF assms(1) _ assms(3)] acq
      by (auto simp: ExecuteSelection_def AcquireReader_def)
  next
    case (Inr c)
    then show ?thesis
      using assms(2) balanced_release [OF assms(1) _ assms(3), of ctx False c db1] acq
      by (auto simp: ExecuteSelection_def AcquireReader_def split: prod.splits
          dest!: conn_statement_out(4) [OF assms(1)])
  qed
qed

lemma run_release_balanced:
  assumes "pool_laws S out" and "run_release S rel db = Some (Inr db')" and "rel \<in> set (releases db)"
    and "balanced out db"
  shows "balanced out db'"
proof -
  obtain p c where rel: "rel = (Some p, c)" using assms(2) by (cases rel; cases "fst rel") (auto simp: run_release_def)
  have "in_transit db' = in_transit db - {#(p, c)#}"
    using assms(2,3) rel by (auto simp: run_release_def in_transit_def image_mset_Diff)
  then show ?thesis
    using assms(2,4) rel pool_lawsD(3) [OF assms(1)]
    by (auto simp: run_release_def balanced_def dest!: set_remove1_subset [THEN subsetD])
qed

lemma db_step_balanced:
  assumes "pool_laws S out" and "db_step S t db db'" and "balanced out db"
  shows "balanced out db'"
  using assms(2,3)
proof (induction rule: db_step.induct)
  case (step_Migrate ctx schema db r db')
  show ?case
    by (rule with_writer_balanced [OF assms(1) step_Migrate(1) [unfolded db_Migrate_def] step_Migrate(2)])
       (auto dest: pool_lawsD(8) [OF assms(1)] split: prod.splits)
next
  case (step_Selection ctx q ps f s db x db')
  then show ?case by (rule ExecuteSelection_balanced [OF assms(1)])
next
  case (step_release rel db db')
  show ?case by (rule run_release_balanced [OF assms(1) step_release(2,1,3)])
qed (auto simp: ExecuteInsertion_def ExecuteInsertionForID_def ExecuteUpdate_def ExecuteDelete_def
    elim!: with_writer_balanced [OF assms(1)] dest: conn_statement_out [OF assms(1)])

text \<open>Reading migrations succeeds with the trimmed contents of the files, in the order of the list.\<close>

lemma read_migration_files_Inr:
  "read_migration_files ext e ms = Inr ts \<Longrightarrow>
     list_all2 (\<lambda>m t. \<exists>f raw. DomainEmbeds e (mf_Domain m) = Some f \<and> readFile (mf_File m @ ext) f = Inr raw \<and>
       t = TrimSpace raw) ms ts"
  by (induction ms arbitrary: ts) (auto simp: list_all2_Cons1 split: option.splits sum.splits)

lemma list_walk_Inr:
  "list_walk flt ws fs = Inr gs \<longleftrightarrow>
     (\<forall>(p, d, err)\<in>set ws. err = None) \<and>
     gs = fs @ map fst (filter (\<lambda>(p, d, err). \<not> d \<and> (flt = None \<or> the flt p)) ws)"
  by (induction flt ws fs rule: list_walk.induct) (force split: option.splits)+

lemma read_query_files_Inr:
  "read_query_files f fs = Inr qs \<Longrightarrow> list_all2 (\<lambda>p q. readFile p f = Inr q) fs qs"
  by (induction fs arbitrary: qs) (auto simp: list_all2_Cons1 split: sum.splits)

section \<open>A library to run on\<close>

text \<open>Connections are numbered as they are made; every statement succeeds.\<close>

definition demo_sqlite :: "(nat \<times> (pool \<times> conn) multiset) sqlite" where
  "demo_sqlite =
     \<lparr>NewPool = \<lambda>uri flags n e. (Inr 0, e), pool_Close = \<lambda>p e. (None, e),
      Take = \<lambda>p ctx (n, m). (Inr n, Suc n, add_mset (p, n) m), Put = \<lambda>p c (n, m). (n, m - {#(p, c)#}),
      exec_rows = \<lambda>c q ps e. (([], None), e), ExecuteTransient = \<lambda>c q e. (None, e),
      Savepoint = \<lambda>c e. e, EndSavepoint = \<lambda>c err e. (err, e), sq_Migrate = \<lambda>ctx c sc e. (None, e)\<rparr>"

lemma demo_sqlite_laws: "pool_laws demo_sqlite snd"
  by (auto simp: pool_laws_def demo_sqlite_def split: prod.splits)

definition demo_fs :: FS where
  "demo_fs =
     \<lparr>fs_walk = [(''.'', True, None), (''a.sql'', False, None), (''readme'', False, None)],
      fs_Open = \<lambda>p. if p = ''a.sql'' then Inr \<lparr>f_read = Inr ''pragma '', f_close = None\<rparr> else Inl (ExternalError ''open'')\<rparr>"

definition demo_db :: "(nat \<times> (pool \<times> conn) multiset) DB" where
  "demo_db =
     \<lparr>db_Config = \<lparr>db_URI = ''file:db.sqlite3'', db_Flags = {}, WritePoolSize = 1, ReadPoolSize = 16\<rparr>,
      prepareConnQueries = Some demo_fs, connPools = [], writePool = Some 0, readPool = Some 1,
      engine = (0, {#}), releases = []\<rparr>"

section \<open>Properties\<close>

text \<open>
  (C22) No connection leaks: however statements, migrations and the goroutines that put connections back
  follow each other, on success and on error, the connections that are out of their pool are exactly those
  which a goroutine is about to put back, and each of these goroutines can run.
\<close>

theorem no_connection_leaks:
  assumes "pool_laws S out" and "out (engine db) = {#}" and "releases db = []"
    and "(db_step S TYPE('s))\<^sup>*\<^sup>* db db'"
  shows "out (engine db') = in_transit db' \<and>
    (\<forall>rel\<in>set (releases db'). \<exists>db''. run_release S rel db' = Some (Inr db''))"
proof -
  have "balanced out db" using assms(2,3) by (simp add: balanced_def in_transit_def)
  with assms(4) have "balanced out db'"
    by (induction rule: rtranclp_induct) (auto intro: db_step_balanced [OF assms(1)])
  then show ?thesis
    by (auto simp: balanced_def run_release_def)
qed

theorem no_connection_leaks_witness:
  "\<exists>db'. ExecuteDelete demo_sqlite Background ''delete from t'' [] demo_db = Some (Inr (None, db')) \<and>
     snd (engine db') = {#(0, 0)#} \<and> in_transit db' = {#(0, 0)#}"
proof -
  obtain db' where step: "ExecuteDelete demo_sqlite Background ''delete from t'' [] demo_db = Some (Inr (None, db'))"
    and rel: "releases db' = [(Some 0, 0)]"
    by (simp add: ExecuteDelete_def with_writer_def AcquireWriter_def acquire_def db_prepare_def readQueries_def
        listFiles_def readFile_def filterQuery_def HasSuffix_def conn_ExecuteDelete_def Execute_def ReleaseWriter_def
        demo_sqlite_def demo_db_def demo_fs_def suffix_def)
  from no_connection_leaks [OF demo_sqlite_laws, of demo_db db'] step_Delete [OF step, of "TYPE(nat)"]
  have "snd (engine db') = in_transit db'"
    by (auto simp: demo_db_def)
  then show ?thesis
    using step rel by (auto simp: in_transit_def)
qed

text \<open>
  A connection that \<^verbatim>\<open>acquire\<close> hands out is prepared: it was before, and then the call runs no statement
  on it, or the call runs every preparation query on it, all of them with success, in the order
  of the files that end in \<^verbatim>\<open>.sql\<close>.
\<close>

theorem acquired_connection_prepared:
  assumes "acquire S ctx w db = Some (Inr (Inr conn, db'))" and "prepareConnQueries db = Some f"
    and "(if w then writePool db else readPool db) = Some pool" and "Take S pool ctx (engine db) = (Inr conn, e)"
  shows "map_of (connPools db') conn \<noteq> None \<and>
    (map_of (connPools db) conn \<noteq> None \<and> engine db' = e \<or>
     (\<exists>qs. run_prepare_queries S conn qs e = (None, engine db') \<and>
       list_all2 (\<lambda>p q. readFile p f = Inr q)
         (map fst (filter (\<lambda>(p, d, err). \<not> d \<and> filterQuery p) (fs_walk f))) qs))"
  using assms
  by (auto simp: acquire_def db_prepare_def readQueries_def listFiles_def list_walk_Inr map_of_update
      dest: read_query_files_Inr split: option.splits sum.splits prod.splits if_splits)

theorem acquired_connection_prepared_witness:
  "\<exists>db' qs. acquire demo_sqlite Background True demo_db = Some (Inr (Inr 0, db')) \<and>
     map_of (connPools db') 0 \<noteq> None \<and> run_prepare_queries demo_sqlite 0 qs (1, {#(0, 0)#}) = (None, engine db') \<and>
     list_all2 (\<lambda>p q. readFile p demo_fs = Inr q) [''a.sql''] qs"
proof -
  have "\<exists>db'. acquire demo_sqlite Background True demo_db = Some (Inr (Inr 0, db'))"
    by (simp add: acquire_def db_prepare_def readQueries_def listFiles_def readFile_def filterQuery_def HasSuffix_def
        demo_sqlite_def demo_db_def demo_fs_def suffix_def)
  then obtain db' where db': "acquire demo_sqlite Background True demo_db = Some (Inr (Inr 0, db'))" ..
  from acquired_connection_prepared [OF db', of demo_fs 0 "(1, {#(0, 0)#})"]
  have "map_of (connPools db') 0 \<noteq> None \<and>
    (\<exists>qs. run_prepare_queries demo_sqlite 0 qs (1, {#(0, 0)#}) = (None, engine db') \<and>
       list_all2 (\<lambda>p q. readFile p demo_fs = Inr q)
         (map fst (filter (\<lambda>(p, d, err). \<not> d \<and> filterQuery p) (fs_walk demo_fs))) qs)"
    by (simp add: demo_db_def demo_sqlite_def)
  moreover have "map fst (filter (\<lambda>(p, d, err). \<not> d \<and> filterQuery p) (fs_walk demo_fs)) = [''a.sql'']"
    by (simp add: demo_fs_def filterQuery_def HasSuffix_def suffix_def)
  ultimately show ?thesis using db' by auto
qed

end
