(* ===== verification/SessionStore.thy ===== *)
theory SessionStore
  imports Database Handling
begin

text \<open>
  Sessions: the session helpers and the store (\<^verbatim>\<open>src/session/sessions.go\<close>, \<^verbatim>\<open>src/session/store.go\<close>) and the
  SQLite-backed store of \<^verbatim>\<open>src/session/sqlitestore\<close> on the database of the previous theory. Cookies are
  encoded and decoded by the \<open>securecookie\<close> library, a record of functions; an instant is a number of
  nanoseconds since the Unix epoch. An operation takes the readings of the clock it makes as a function \<open>T\<close>:
  \<open>T i\<close> is its reading number \<open>i\<close>, whether the code or the cookie library makes it.
\<close>

section \<open>Time\<close>

type_synonym time = int

definition UnixMilli :: "time \<Rightarrow> int" where
  "UnixMilli t = t div 1000000"

definition from_UnixMilli :: "int \<Rightarrow> time" where
  "from_UnixMilli ms = ms * 1000000"

definition time_Add :: "time \<Rightarrow> 64 word \<Rightarrow> time" where
  "time_Add t d = t + sint d"

text \<open>Go's division of integers truncates towards zero.\<close>

definition Milliseconds :: "64 word \<Rightarrow> int" where
  "Milliseconds d = (if sint d < 0 then - (- sint d div 1000000) else sint d div 1000000)"

text \<open>The zero \<^verbatim>\<open>time.Time\<close> is the start of year 1.\<close>

definition zero_time :: time where
  "zero_time = - 62135596800000000000"

section \<open>Base 32\<close>

text \<open>\<^verbatim>\<open>base32.StdEncoding\<close> without padding: groups of five bits, the last filled up with zeros.\<close>

definition byte_bits :: "char \<Rightarrow> bool list" where
  "byte_bits c = [digit7 c, digit6 c, digit5 c, digit4 c, digit3 c, digit2 c, digit1 c, digit0 c]"

definition bits_value :: "bool list \<Rightarrow> nat" where
  "bits_value bs = fold (\<lambda>b n. 2 * n + (if b then 1 else 0)) bs 0"

definition b32_char :: "nat \<Rightarrow> char" where
  "b32_char n = ''ABCDEFGHIJKLMNOPQRSTUVWXYZ234567'' ! n"

fun b32_groups :: "bool list \<Rightarrow> string" where
  "b32_groups [] = []"
| "b32_groups [a] = [b32_char (bits_value [a, False, False, False, False])]"
| "b32_groups [a, b] = [b32_char (bits_value [a, b, False, False, False])]"
| "b32_groups [a, b, c] = [b32_char (bits_value [a, b, c, False, False])]"
| "b32_groups [a, b, c, d] = [b32_char (bits_value [a, b, c, d, False])]"
| "b32_groups (a # b # c # d # e # bs) = b32_char (bits_value [a, b, c, d, e]) # b32_groups bs"

definition base32_EncodeToString :: "string \<Rightarrow> string" where
  "base32_EncodeToString bytes = b32_groups (concat (map byte_bits bytes))"

section \<open>Sessions and cookies\<close>

text \<open>The session of the \<^verbatim>\<open>gorilla/sessions\<close> library, with the name it is stored under.\<close>

type_synonym 'x svalues = "string \<rightharpoonup> 'x"

record 'x gsession =
  gs_ID :: string
  gs_Values :: "'x svalues"
  gs_Options :: CookieOptions
  gs_IsNew :: bool
  gs_name :: string

record Request =
  r_Cookies :: "(string \<times> string) list"
  r_Context :: ctx

record Cookie =
  ck_Name :: string
  ck_Value :: string
  ck_Options :: CookieOptions

text \<open>
  The library's encoding of session ids and of session values, with the instant at which it reads the
  clock; decoding gives an error and what it leaves in the destination. Only some codecs are of the type
  whose age and length can be limited.
\<close>

record ('k, 'x) securecookie =
  CodecsFromPairs :: "string list \<Rightarrow> 'k list"
  is_SecureCookie :: "'k \<Rightarrow> bool"
  codec_MaxAge :: "int \<Rightarrow> 'k \<Rightarrow> 'k"
  codec_MaxLength :: "int \<Rightarrow> 'k \<Rightarrow> 'k"
  EncodeID :: "'k list \<Rightarrow> time \<Rightarrow> string \<Rightarrow> string \<Rightarrow> error + string"
  DecodeID :: "'k list \<Rightarrow> time \<Rightarrow> string \<Rightarrow> string \<Rightarrow> error option \<times> string"
  EncodeValues :: "'k list \<Rightarrow> time \<Rightarrow> string \<Rightarrow> 'x svalues \<Rightarrow> error + string"
  DecodeValues :: "'k list \<Rightarrow> time \<Rightarrow> string \<Rightarrow> string \<Rightarrow> 'x svalues \<Rightarrow> error option \<times> 'x svalues"

text \<open>Session rotation and flash messages; \<open>flashes\<close> and \<open>addFlash\<close> stand for the methods of the session.\<close>

definition Regenerate :: "'x gsession \<Rightarrow> 'x gsession" where
  "Regenerate s = s\<lparr>gs_ID := [], gs_Values := Map.empty\<rparr>"

definition Invalidate :: "'x gsession \<Rightarrow> 'x gsession" where
  "Invalidate s = s\<lparr>gs_Options := (gs_Options s)\<lparr>o_MaxAge := -1\<rparr>, gs_Values := Map.empty\<rparr>"

definition FlashErrorsKey :: string where
  "FlashErrorsKey = ''_flash_errors''"

definition AddErrorMessage :: "('x \<Rightarrow> string \<Rightarrow> 'x gsession \<Rightarrow> 'x gsession) \<Rightarrow> (string \<Rightarrow> 'x) \<Rightarrow> string \<Rightarrow> 'x gsession \<Rightarrow> 'x gsession" where
  "AddErrorMessage addFlash of_string message s = addFlash (of_string message) FlashErrorsKey s"

fun collect_flashes :: "('x \<Rightarrow> string option) \<Rightarrow> 'x list \<Rightarrow> string list \<Rightarrow> error + string list" where
  "collect_flashes as_string [] fs = Inr fs"
| "collect_flashes as_string (raw # rest) fs =
     (case as_string raw of
        None \<Rightarrow> Inl (Errorf ''session error message is of unexpected non-string type %T'')
      | Some flash \<Rightarrow> collect_flashes as_string rest (fs @ [flash]))"

definition GetErrorMessages ::
  "(string \<Rightarrow> 'x gsession \<Rightarrow> 'x list \<times> 'x gsession) \<Rightarrow> ('x \<Rightarrow> string option) \<Rightarrow> 'x gsession \<Rightarrow>
   (error + string list) \<times> 'x gsession" where
  "GetErrorMessages flashes as_string s =
     (let (raw, s) = flashes FlashErrorsKey s in (collect_flashes as_string raw [], s))"

section \<open>Rows\<close>

record Session =
  s_ID :: string
  s_Data :: string
  CreationTime :: time
  ModificationTime :: time
  ExpirationTime :: time

definition zeroSession :: Session where
  "zeroSession = \<lparr>s_ID = [], s_Data = [], CreationTime = zero_time, ModificationTime = zero_time,
     ExpirationTime = zero_time\<rparr>"

definition newInsertion :: "Session \<Rightarrow> params" where
  "newInsertion s =
     [(''$id'', TextVal (s_ID s)), (''$data'', TextVal (s_Data s)),
      (''$creation_time'', IntVal (UnixMilli (CreationTime s))),
      (''$modification_time'', IntVal (UnixMilli (ModificationTime s))),
      (''$expiration_time'', IntVal (UnixMilli (ExpirationTime s)))]"

definition newUpdate :: "Session \<Rightarrow> params" where
  "newUpdate s =
     [(''$id'', TextVal (s_ID s)), (''$data'', TextVal (s_Data s)),
      (''$modification_time'', IntVal (UnixMilli (ModificationTime s)))]"

definition newDelete :: "Session \<Rightarrow> params" where
  "newDelete s = [(''$id'', TextVal (s_ID s))]"

definition newDeletePastCreationTimeout :: "64 word \<Rightarrow> Session \<Rightarrow> params" where
  "newDeletePastCreationTimeout timeout s =
     [(''$expiration_timeout'', IntVal (Milliseconds timeout)),
      (''$expiration_time_threshold'', IntVal (UnixMilli (ExpirationTime s)))]"

definition newDeletePastExpiration :: "Session \<Rightarrow> params" where
  "newDeletePastExpiration s = [(''$expiration_time_threshold'', IntVal (UnixMilli (ExpirationTime s)))]"

definition newSessionSelection :: "string \<Rightarrow> params" where
  "newSessionSelection i = [(''$id'', TextVal i)]"

record sessionsSelector =
  sel_ids :: "string list"
  sel_sessions :: "(string \<times> Session) list"

definition newSessionsSelector :: sessionsSelector where
  "newSessionsSelector = \<lparr>sel_ids = [], sel_sessions = []\<rparr>"

definition selector_Step :: "sessionsSelector ResultFunc" where
  "selector_Step s sel =
     (let i = GetText s ''id''
      in if map_of (sel_sessions sel) i = None then
           let sel = sel\<lparr>sel_sessions := AList.update i
                 \<lparr>s_ID = GetText s ''id'', s_Data = GetText s ''data'',
                  CreationTime = from_UnixMilli (GetInt64_of s ''creation_time''),
                  ModificationTime = from_UnixMilli (GetInt64_of s ''modification_time''),
                  ExpirationTime = from_UnixMilli (GetInt64_of s ''expiration_time'')\<rparr> (sel_sessions sel)\<rparr>
           in (None, if i \<noteq> [] then sel\<lparr>sel_ids := sel_ids sel @ [i]\<rparr> else sel)
         else (None, sel))"

definition selector_Sessions :: "sessionsSelector \<Rightarrow> Session list" where
  "selector_Sessions sel =
     map (\<lambda>i. case map_of (sel_sessions sel) i of None \<Rightarrow> zeroSession | Some s \<Rightarrow> s) (sel_ids sel)"

section \<open>Queries\<close>

text \<open>The embedded files \<^verbatim>\<open>queries/*.sql\<close>, line by line.\<close>

definition sql_text :: "string list \<Rightarrow> string" where
  "sql_text ls = TrimSpace (concat (map (\<lambda>l. l @ [CHR 0x0A]) ls))"

definition insertSessionQuery :: string where
  "insertSessionQuery = sql_text
     [''insert into sessions_session (id, data, creation_time, modification_time, expiration_time)'',
      ''values ($id, $data, $creation_time, $modification_time, $expiration_time);'']"

definition updateSessionQuery :: string where
  "updateSessionQuery = sql_text
     [''update sessions_session'', ''set'', ''  data = $data,'', ''  modification_time = $modification_time'',
      ''where sessions_session.id = $id'']"

definition deleteSessionQuery :: string where
  "deleteSessionQuery = sql_text [''delete from sessions_session'', ''where sessions_session.id = $id'']"

definition deleteOldCreatedSessionsQuery :: string where
  "deleteOldCreatedSessionsQuery = sql_text
     [''delete from sessions_session'',
      ''where sessions_session.creation_time + $expiration_timeout < $expiration_time_threshold'']"

definition deleteExpiredSessionsQuery :: string where
  "deleteExpiredSessionsQuery = sql_text
     [''delete from sessions_session'', ''where sessions_session.expiration_time < $expiration_time_threshold'']"

definition selectSessionQuery :: string where
  "selectSessionQuery = sql_text
     [''select'', ''  s.id                as id,'', ''  s.data              as data,'',
      ''  s.creation_time     as creation_time,'', ''  s.modification_time as modification_time,'',
      ''  s.expiration_time   as expiration_time'', ''from sessions_session as s'', ''where'', ''  s.id = $id'']"

section \<open>The store\<close>

record ('e, 'k) SqliteStore =
  Codecs :: "'k list"
  ss_Options :: CookieOptions
  AbsoluteTimeout :: "64 word"
  ss_db :: "'e DB"

definition set_db :: "('e, 'k) SqliteStore \<Rightarrow> 'e DB \<Rightarrow> ('e, 'k) SqliteStore" where
  "set_db ss db = ss\<lparr>ss_db := db\<rparr>"

definition ss_MaxLength :: "('k, 'x) securecookie \<Rightarrow> int \<Rightarrow> ('e, 'k) SqliteStore \<Rightarrow> ('e, 'k) SqliteStore" where
  "ss_MaxLength SC l ss =
     ss\<lparr>Codecs := map (\<lambda>c. if is_SecureCookie SC c then codec_MaxLength SC l c else c) (Codecs ss)\<rparr>"

definition ss_MaxAge :: "('k, 'x) securecookie \<Rightarrow> int \<Rightarrow> ('e, 'k) SqliteStore \<Rightarrow> ('e, 'k) SqliteStore" where
  "ss_MaxAge SC age ss =
     ss\<lparr>ss_Options := (ss_Options ss)\<lparr>o_MaxAge := age\<rparr>,
        Codecs := map (\<lambda>c. if is_SecureCookie SC c then codec_MaxAge SC age c else c) (Codecs ss)\<rparr>"

definition NewSqliteStore ::
  "('k, 'x) securecookie \<Rightarrow> 'e DB \<Rightarrow> 64 word \<Rightarrow> string list \<Rightarrow> ('e, 'k) SqliteStore" where
  "NewSqliteStore SC db absoluteTimeout keyPairs =
     (let maxAge = 86400 * 30
      in ss_MaxAge SC maxAge
           \<lparr>Codecs = CodecsFromPairs SC keyPairs,
            ss_Options = \<lparr>o_Path = ''/'', o_Domain = [], o_MaxAge = maxAge, o_Secure = False, o_HttpOnly = False,
              o_SameSite = SameSiteDefaultMode\<rparr>,
            AbsoluteTimeout = absoluteTimeout, ss_db = db\<rparr>)"

definition AddSession ::
  "'e sqlite \<Rightarrow> ctx \<Rightarrow> Session \<Rightarrow> ('e, 'k) SqliteStore \<Rightarrow> (error option \<times> ('e, 'k) SqliteStore) go" where
  "AddSession S ctx sess ss =
     go_bind (ExecuteInsertion S ctx insertSessionQuery (newInsertion sess) (ss_db ss)) (\<lambda>(err, db).
       go_return (errors_Wrap err ''couldn't add session'', set_db ss db))"

definition UpdateSession ::
  "'e sqlite \<Rightarrow> ctx \<Rightarrow> Session \<Rightarrow> ('e, 'k) SqliteStore \<Rightarrow> (error option \<times> ('e, 'k) SqliteStore) go" where
  "UpdateSession S ctx sess ss =
     go_bind (ExecuteUpdate S ctx updateSessionQuery (newUpdate sess) (ss_db ss)) (\<lambda>(err, db).
       go_return (errors_Wrap err ''couldn't update session with id %s'', set_db ss db))"

definition DeleteSession ::
  "'e sqlite \<Rightarrow> ctx \<Rightarrow> string \<Rightarrow> ('e, 'k) SqliteStore \<Rightarrow> (error option \<times> ('e, 'k) SqliteStore) go" where
  "DeleteSession S ctx i ss =
     go_bind (ExecuteDelete S ctx deleteSessionQuery (newDelete (zeroSession\<lparr>s_ID := i\<rparr>)) (ss_db ss)) (\<lambda>(err, db).
       go_return (errors_Wrap err ''couldn't delete session with id %s'', set_db ss db))"

definition DeleteOldCreatedSessions ::
  "'e sqlite \<Rightarrow> ctx \<Rightarrow> 64 word \<Rightarrow> time \<Rightarrow> ('e, 'k) SqliteStore \<Rightarrow> (error option \<times> ('e, 'k) SqliteStore) go" where
  "DeleteOldCreatedSessions S ctx timeout threshold ss =
     go_bind (ExecuteDelete S ctx deleteOldCreatedSessionsQuery
         (newDeletePastCreationTimeout timeout (zeroSession\<lparr>ExpirationTime := threshold\<rparr>)) (ss_db ss)) (\<lambda>(err, db).
       go_return (errors_Wrap err ''couldn't delete sessions which expired before %s'', set_db ss db))"

definition DeleteExpiredSessions ::
  "'e sqlite \<Rightarrow> ctx \<Rightarrow> time \<Rightarrow> ('e, 'k) SqliteStore \<Rightarrow> (error option \<times> ('e, 'k) SqliteStore) go" where
  "DeleteExpiredSessions S ctx threshold ss =
     go_bind (ExecuteDelete S ctx deleteExpiredSessionsQuery
         (newDeletePastExpiration (zeroSession\<lparr>ExpirationTime := threshold\<rparr>)) (ss_db ss)) (\<lambda>(err, db).
       go_return (errors_Wrap err ''couldn't delete sessions which expired before %s'', set_db ss db))"

definition Cleanup ::
  "'e sqlite \<Rightarrow> (nat \<Rightarrow> time) \<Rightarrow> ctx \<Rightarrow> ('e, 'k) SqliteStore \<Rightarrow> ((bool \<times> error option) \<times> ('e, 'k) SqliteStore) go" where
  "Cleanup S T ctx ss =
     go_bind (DeleteExpiredSessions S ctx (T 0) ss) (\<lambda>(err, ss).
       case err of
         Some e \<Rightarrow> go_return ((False, Some (Wrapped ''couldn't perform periodic deletion of expired sessions'' e)), ss)
       | None \<Rightarrow>
           go_bind (DeleteOldCreatedSessions S ctx (AbsoluteTimeout ss) (T 1) ss) (\<lambda>(err, ss).
             go_return ((False,
               errors_Wrap err ''couldn't perform periodic deletion of sessions created a long time ago''), ss)))"

definition GetSession ::
  "'e sqlite \<Rightarrow> ctx \<Rightarrow> string \<Rightarrow> ('e, 'k) SqliteStore \<Rightarrow> ((error + Session) \<times> ('e, 'k) SqliteStore) go" where
  "GetSession S ctx i ss =
     go_bind (ExecuteSelection S ctx selectSessionQuery (newSessionSelection i) selector_Step newSessionsSelector
         (ss_db ss)) (\<lambda>((err, sel), db).
       go_return
         (case err of
            Some e \<Rightarrow> Inl (Wrapped ''couldn't get session with id %s'' e)
          | None \<Rightarrow>
              (case selector_Sessions sel of
                 [] \<Rightarrow> Inl (Errorf ''couldn't get non-existent session with id %s'')
               | sess # _ \<Rightarrow> Inr sess),
          set_db ss db))"

definition ss_New ::
  "('k, 'x) securecookie \<Rightarrow> 'e sqlite \<Rightarrow> (nat \<Rightarrow> time) \<Rightarrow> Request \<Rightarrow> string \<Rightarrow> ('e, 'k) SqliteStore \<Rightarrow>
   (('x gsession \<times> error option) \<times> ('e, 'k) SqliteStore) go" where
  "ss_New SC S T r name ss =
     (let s = \<lparr>gs_ID = [], gs_Values = Map.empty, gs_Options = ss_Options ss, gs_IsNew = True, gs_name = name\<rparr>
      in case map_of (r_Cookies r) name of
           None \<Rightarrow> go_return ((s, None), ss)
         | Some cookie \<Rightarrow>
             let (err, i) = DecodeID SC (Codecs ss) (T 0) name cookie;
                 s = s\<lparr>gs_ID := i\<rparr>
             in case err of
                  Some e \<Rightarrow>
                    go_return ((s, Some (Wrapped ''couldn't decode cookie value %s into session id'' e)), ss)
                | None \<Rightarrow>
                    go_bind (GetSession S (r_Context r) (gs_ID s) ss) (\<lambda>(res, ss).
                      case res of
                        Inl _ \<Rightarrow> go_return ((s, None), ss)
                      | Inr sess \<Rightarrow>
                          if ExpirationTime sess - T 1 < 0
                          then go_return ((s, Some (Errorf ''Session expired on %s, but it is %s now'')), ss)
                          else
                            let (err, vs) = DecodeValues SC (Codecs ss) (T 2) name (s_Data sess) (gs_Values s);
                                s = s\<lparr>gs_Values := vs\<rparr>
                            in go_return ((if err \<noteq> None then s else s\<lparr>gs_IsNew := False\<rparr>, None), ss)))"

definition createdSession ::
  "('k, 'x) securecookie \<Rightarrow> (nat \<Rightarrow> time) \<Rightarrow> 'x gsession \<Rightarrow> ('e, 'k) SqliteStore \<Rightarrow> error + Session" where
  "createdSession SC T s ss =
     (case EncodeValues SC (Codecs ss) (T 0) (gs_name s) (gs_Values s) of
        Inl e \<Rightarrow> Inl (Wrapped ''couldn't encode session values'' e)
      | Inr data \<Rightarrow>
          Inr \<lparr>s_ID = gs_ID s, s_Data = data, CreationTime = T 1, ModificationTime = T 1,
            ExpirationTime = time_Add (T 1) (AbsoluteTimeout ss)\<rparr>)"

definition modifiedSession ::
  "('k, 'x) securecookie \<Rightarrow> (nat \<Rightarrow> time) \<Rightarrow> 'x gsession \<Rightarrow> ('e, 'k) SqliteStore \<Rightarrow> error + Session" where
  "modifiedSession SC T s ss =
     (case EncodeValues SC (Codecs ss) (T 0) (gs_name s) (gs_Values s) of
        Inl e \<Rightarrow> Inl (Wrapped ''couldn't encode session values'' e)
      | Inr data \<Rightarrow> Inr (zeroSession\<lparr>s_ID := gs_ID s, s_Data := data, ModificationTime := T 1\<rparr>))"

text \<open>A failed source of randomness gives a nil key, which encodes to the empty string.\<close>

definition new_session_id :: "'r os \<Rightarrow> string \<times> 'r os" where
  "new_session_id os =
     (let (key, os) = GenerateRandomKey 32 os
      in (base32_EncodeToString (case key of None \<Rightarrow> [] | Some k \<Rightarrow> k), os))"

text \<open>The end of \<^verbatim>\<open>Save\<close>, after the row is stored.\<close>

definition set_session_cookie ::
  "('k, 'x) securecookie \<Rightarrow> (nat \<Rightarrow> time) \<Rightarrow> 'x gsession \<Rightarrow> Cookie list \<Rightarrow> 'k list \<Rightarrow> error option \<times> Cookie list" where
  "set_session_cookie SC T s w ks =
     (case EncodeID SC ks (T 2) (gs_name s) (gs_ID s) of
        Inl e \<Rightarrow> (Some (Wrapped ''couldn't encode session id for cookie'' e), w)
      | Inr encoded \<Rightarrow> (None, w @ [\<lparr>ck_Name = gs_name s, ck_Value = encoded, ck_Options = gs_Options s\<rparr>]))"

definition ss_Save ::
  "('k, 'x) securecookie \<Rightarrow> 'e sqlite \<Rightarrow> (nat \<Rightarrow> time) \<Rightarrow> Request \<Rightarrow> Cookie list \<Rightarrow> 'x gsession \<Rightarrow>
   ('e, 'k) SqliteStore \<times> 'r os \<Rightarrow>
   ((error option \<times> 'x gsession \<times> Cookie list) \<times> ('e, 'k) SqliteStore \<times> 'r os) go" where
  "ss_Save SC S T r w s sso =
     (let (ss, os) = sso
      in if o_MaxAge (gs_Options s) < 0 then
           go_bind (DeleteSession S (r_Context r) (gs_ID s) ss) (\<lambda>(err, ss).
             go_return
               (case err of
                  Some e \<Rightarrow> (Some (Wrapped ''couldn't delete session with max-age <= 0'' e), s, w)
                | None \<Rightarrow> (None, s, w @ [\<lparr>ck_Name = gs_name s, ck_Value = [], ck_Options = gs_Options s\<rparr>]), ss, os))
         else if gs_ID s = [] \<or> gs_IsNew s then
           let (i, os) = new_session_id os;
               s = s\<lparr>gs_ID := i\<rparr>
           in case createdSession SC T s ss of
                Inl e \<Rightarrow>
                  go_return ((Some (Wrapped ''couldn't convert cookie session into record to insert into db'' e), s, w), ss, os)
              | Inr sess \<Rightarrow>
                  go_bind (AddSession S (r_Context r) sess ss) (\<lambda>(err, ss).
                    case err of
                      Some e \<Rightarrow> go_return ((Some e, s, w), ss, os)
                    | None \<Rightarrow>
                        let (err, w) = set_session_cookie SC T s w (Codecs ss) in go_return ((err, s, w), ss, os))
         else
           case modifiedSession SC T s ss of
             Inl e \<Rightarrow>
               go_return ((Some (Wrapped ''couldn't convert cookie session into record to update in db'' e), s, w), ss, os)
           | Inr sess \<Rightarrow>
               go_bind (UpdateSession S (r_Context r) sess ss) (\<lambda>(err, ss).
                 case err of
                   Some e \<Rightarrow> go_return ((Some e, s, w), ss, os)
                 | None \<Rightarrow>
                     let (err, w) = set_session_cookie SC T s w (Codecs ss) in go_return ((err, s, w), ss, os)))"

text \<open>
  \<^verbatim>\<open>GetRegistry(r).Get(ss, name)\<close> of the library: \<open>registry\<close> is given the store's \<^verbatim>\<open>New\<close> and calls it at most once.
\<close>

type_synonym ('st, 'x) opener = "Request \<Rightarrow> string \<Rightarrow> 'st \<Rightarrow> (('x gsession \<times> error option) \<times> 'st) go"

definition ss_Get ::
  "((('e, 'k) SqliteStore, 'x) opener \<Rightarrow> (('e, 'k) SqliteStore, 'x) opener) \<Rightarrow> ('k, 'x) securecookie \<Rightarrow> 'e sqlite \<Rightarrow>
   (nat \<Rightarrow> time) \<Rightarrow> (('e, 'k) SqliteStore, 'x) opener" where
  "ss_Get registry SC S T r name ss = registry (ss_New SC S T) r name ss"

text \<open>
  The worker that \<^verbatim>\<open>PeriodicallyCleanup\<close> repeats; \<open>Ts n\<close> are the clock readings of its turn \<open>n\<close>. A panic ends the
  loop.
\<close>

definition cleanup_worker ::
  "'e sqlite \<Rightarrow> (nat \<Rightarrow> nat \<Rightarrow> time) \<Rightarrow> ctx \<Rightarrow> (nat \<times> ('e, 'k) SqliteStore go) Worker" where
  "cleanup_worker S Ts ctx st =
     (let (n, m) = st; r = go_bind m (Cleanup S (Ts n) ctx)
      in case r of
           Some (Inr (res, ss)) \<Rightarrow> (res, Suc n, go_return ss)
         | Some (Inl p) \<Rightarrow> ((True, None), Suc n, Some (Inl p))
         | None \<Rightarrow> ((True, None), Suc n, None))"

definition PeriodicallyCleanup ::
  "'e sqlite \<Rightarrow> (nat \<Rightarrow> nat \<Rightarrow> time) \<Rightarrow> ctx \<Rightarrow> nat \<Rightarrow> (error option \<times> bool) list \<Rightarrow> ('e, 'k) SqliteStore \<Rightarrow>
   error option option \<times> nat \<times> ('e, 'k) SqliteStore go" where
  "PeriodicallyCleanup S Ts ctx interval turns ss =
     Repeat interval (cleanup_worker S Ts ctx) turns (0, go_return ss)"

section \<open>The session store of an application\<close>

text \<open>The backing store is an interface value: its two methods, on a state of type \<open>'st\<close>.\<close>

record ('st, 'x) BackingStore =
  bs_Get :: "(nat \<Rightarrow> time) \<Rightarrow> ('st, 'x) opener"
  bs_New :: "(nat \<Rightarrow> time) \<Rightarrow> ('st, 'x) opener"

record ('st, 'x, 'k) Store =
  st_Config :: SessionConfig
  st_BackingStore :: "('st, 'x) BackingStore"
  st_Codecs :: "'k list"

definition CSRFOptions_method :: "('st, 'x, 'k) Store \<Rightarrow> CSRFOptions" where
  "CSRFOptions_method store = CSRFOptions_of (st_Config store)"

definition store_New ::
  "(nat \<Rightarrow> time) \<Rightarrow> Request \<Rightarrow> ('st, 'x, 'k) Store \<Rightarrow> 'st \<Rightarrow> (('x gsession \<times> error option) \<times> 'st) go" where
  "store_New T r store st =
     go_bind (bs_New (st_BackingStore store) T r (CookieName (st_Config store)) st) (\<lambda>((sess, err), st).
       go_return ((sess, errors_Wrap err ''couldn't make session''), st))"

definition store_Get ::
  "(nat \<Rightarrow> time) \<Rightarrow> Request \<Rightarrow> ('st, 'x, 'k) Store \<Rightarrow> 'st \<Rightarrow> (('x gsession \<times> error option) \<times> 'st) go" where
  "store_Get T r store st =
     go_bind (bs_Get (st_BackingStore store) T r (CookieName (st_Config store)) st) (\<lambda>((sess, err), st).
       go_return ((sess, errors_Wrap err ''couldn't get session from request''), st))"

text \<open>The request \<^verbatim>\<open>GET /\<close> made by \<^verbatim>\<open>Lookup\<close> is well formed; a nil session is \<open>None\<close>.\<close>

definition store_Lookup ::
  "('k, 'x) securecookie \<Rightarrow> (nat \<Rightarrow> time) \<Rightarrow> time \<Rightarrow> string \<Rightarrow> ('st, 'x, 'k) Store \<Rightarrow> 'st \<Rightarrow>
   (('x gsession option \<times> error option) \<times> 'st) go" where
  "store_Lookup SC T t i store st =
     (case EncodeID SC (st_Codecs store) t (CookieName (st_Config store)) i of
        Inl e \<Rightarrow> go_return ((None, Some (Wrapped ''couldn't generate encoded HTTP cookie to get session'' e)), st)
      | Inr encrypted \<Rightarrow>
          go_bind (bs_Get (st_BackingStore store) T
              \<lparr>r_Cookies = [(CookieName (st_Config store), encrypted)], r_Context = Background\<rparr>
              (CookieName (st_Config store)) st) (\<lambda>((sess, err), st).
            go_return ((Some sess, errors_Wrap err ''couldn't get session without request''), st)))"

definition NewStore ::
  "((('e, 'k) SqliteStore, 'x) opener \<Rightarrow> (('e, 'k) SqliteStore, 'x) opener) \<Rightarrow> ('k, 'x) securecookie \<Rightarrow> 'e sqlite \<Rightarrow>
   'e DB \<Rightarrow> SessionConfig \<Rightarrow> (('e, 'k) SqliteStore, 'x, 'k) Store \<times> ('e, 'k) SqliteStore" where
  "NewStore registry SC S db c =
     (let ss = NewSqliteStore SC db (Absolute (Timeouts_of c)) [AuthKey c, EncryptionKey c];
          ss = ss\<lparr>ss_Options := CookieOptions_of c\<rparr>;
          ss = ss_MaxAge SC (o_MaxAge (ss_Options ss)) ss
      in (\<lparr>st_Config = c, st_BackingStore = \<lparr>bs_Get = ss_Get registry SC S, bs_New = ss_New SC S\<rparr>,
           st_Codecs = Codecs ss\<rparr>, ss))"

section \<open>The migrations of the session table\<close>

definition sessions_MigrationFiles :: "string list" where
  "sessions_MigrationFiles = [''1-initialize-schema-v0.3.0'']"

text \<open>The embedded directory \<^verbatim>\<open>migrations\<close>.\<close>

definition migrationsFS :: FS where
  "migrationsFS =
     (let up = concat (map (\<lambda>l. l @ [CHR 0x0A])
            [''-- Session'', [], ''create table sessions_session ('', ''  id                text    primary key,'',
             ''  data              text    not null,'', ''  creation_time     integer not null,'',
             ''  modification_time integer not null,'', ''  expiration_time   integer not null'', '') strict;'', [],
             ''create index sessions_session_idx_id'', ''on sessions_session (id);'']);
          down = concat (map (\<lambda>l. l @ [CHR 0x0A])
            [''drop table sessions_session;'', ''drop index sessions_session_idx_id;'']);
          fs = [(''1-initialize-schema-v0.3.0.down.sql'', down), (''1-initialize-schema-v0.3.0.up.sql'', up)]
      in \<lparr>fs_walk = (''.'', True, None) # map (\<lambda>(p, _). (p, False, None)) fs,
          fs_Open = \<lambda>p. case map_of fs p of
            None \<Rightarrow> Inl (ExternalError ''open'')
          | Some c \<Rightarrow> Inr \<lparr>f_read = Inr c, f_close = None\<rparr>\<rparr>)"

definition NewDomainEmbeds :: FS where
  "NewDomainEmbeds = migrationsFS"

definition sessions_embeds :: Embeds where
  "sessions_embeds =
     \<lparr>AppID = 0, DomainEmbeds = [''sessions'' \<mapsto> NewDomainEmbeds],
      MigrationFiles = map (\<lambda>f. \<lparr>mf_Domain = ''sessions'', mf_File = f\<rparr>) sessions_MigrationFiles,
      PrepareConnQueriesFS = None\<rparr>"

section \<open>Facts on base 32\<close>

lemma byte_bits_inj: "byte_bits c = byte_bits d \<Longrightarrow> c = d"
  by (cases c; cases d) (simp add: byte_bits_def)

lemma byte_bits_concat_inj:
  "length xs = length ys \<Longrightarrow> concat (map byte_bits xs) = concat (map byte_bits ys) \<Longrightarrow> xs = ys"
proof (induction xs ys rule: list_induct2)
  case (Cons x xs y ys)
  then have "byte_bits x @ concat (map byte_bits xs) = byte_bits y @ concat (map byte_bits ys)" by simp
  moreover have "length (byte_bits x) = length (byte_bits y)" by (simp add: byte_bits_def)
  ultimately show ?case using Cons.IH byte_bits_inj by simp
qed simp

lemma bits_value_snoc: "bits_value (bs @ [b]) = 2 * bits_value bs + (if b then 1 else 0)"
  by (simp add: bits_value_def)

lemma bits_value_bound: "bits_value bs < 2 ^ length bs"
  by (induction bs rule: rev_induct) (simp_all add: bits_value_snoc, simp add: bits_value_def)

lemma bits_value_inj: "length xs = length ys \<Longrightarrow> bits_value xs = bits_value ys \<Longrightarrow> xs = ys"
proof (induction xs arbitrary: ys rule: rev_induct)
  case (snoc b bs)
  then obtain c cs where ys: "ys = cs @ [c]" "length cs = length bs" by (cases ys rule: rev_cases) auto
  with snoc.prems(2) have "b = c \<and> bits_value bs = bits_value cs"
    by (simp add: bits_value_snoc split: if_splits; presburger)
  then show ?case using snoc.IH [of cs] ys by simp
qed simp

lemma b32_char_inj: "m < 32 \<Longrightarrow> n < 32 \<Longrightarrow> b32_char m = b32_char n \<Longrightarrow> m = n"
proof -
  have "distinct ''ABCDEFGHIJKLMNOPQRSTUVWXYZ234567''" by code_simp
  then show "m < 32 \<Longrightarrow> n < 32 \<Longrightarrow> b32_char m = b32_char n \<Longrightarrow> m = n"
    unfolding b32_char_def by (subst (asm) nth_eq_iff_index_eq) simp_all
qed

lemma b32_group_inj:
  assumes "b32_char (bits_value [a, b, c, d, e]) = b32_char (bits_value [a', b', c', d', e'])"
  shows "[a, b, c, d, e] = [a', b', c', d', e']"
proof (rule bits_value_inj)
  show "bits_value [a, b, c, d, e] = bits_value [a', b', c', d', e']"
    using b32_char_inj [OF _ _ assms] bits_value_bound [of "[a, b, c, d, e]"] bits_value_bound [of "[a', b', c', d', e']"]
    by simp
qed simp

lemma b32_groups_inj: "length xs = length ys \<Longrightarrow> b32_groups xs = b32_groups ys \<Longrightarrow> xs = ys"
proof (induction xs arbitrary: ys rule: b32_groups.induct)
  case (6 a b c d e bs)
  then obtain a' b' c' d' e' bs' where ys: "ys = a' # b' # c' # d' # e' # bs'" "length bs = length bs'"
    by (cases ys rule: b32_groups.cases) auto
  then show ?case
    using 6 b32_group_inj [of a b c d e a' b' c' d' e'] by auto
qed (auto simp: length_Suc_conv numeral_eq_Suc dest!: b32_group_inj sym [of "Suc _"])

lemma b32_groups_length: "length (b32_groups bs) = (length bs + 4) div 5"
  by (induction bs rule: b32_groups.induct) simp_all

section \<open>Properties\<close>

text \<open>
  Session ids are as unpredictable as the keys they are drawn from: the ids of two different 32-byte keys are
  different, and each has 52 characters.
\<close>

theorem session_ids_distinct:
  assumes "length k = 32" and "length k' = 32"
  shows "length (base32_EncodeToString k) = 52 \<and> (base32_EncodeToString k = base32_EncodeToString k' \<longleftrightarrow> k = k')"
proof -
  have bits: "length (concat (map byte_bits x)) = 8 * length x" for x
    by (induction x) (simp_all add: byte_bits_def)
  show ?thesis
    using assms byte_bits_concat_inj [of k k'] b32_groups_inj [of "concat (map byte_bits k)" "concat (map byte_bits k')"]
    by (auto simp: base32_EncodeToString_def b32_groups_length bits)
qed

theorem session_ids_distinct_witness:
  "base32_EncodeToString (replicate 32 CHR ''a'') \<noteq> base32_EncodeToString (replicate 32 CHR ''b'')"
  using session_ids_distinct [of "replicate 32 CHR ''a''" "replicate 32 CHR ''b''"] by (simp add: numeral_eq_Suc)

text \<open>
  \<^verbatim>\<open>ReadDownMigrations\<close> returns the up-migrations: on the files of the session table, which have both, the
  result is the script that creates the table and not the one that drops it.
\<close>

theorem ReadDownMigrations_reads_up:
  "\<exists>up down. readMigrations True sessions_embeds = Inr up \<and> readMigrations False sessions_embeds = Inr down \<and>
     up \<noteq> down \<and> ReadDownMigrations sessions_embeds = Inr up"
  by (simp add: ReadDownMigrations_def readMigrations_def sessions_embeds_def sessions_MigrationFiles_def NewDomainEmbeds_def
      migrationsFS_def readFile_def TrimSpace_def is_space_def)

end
