(* ===== verification/SessionTable.thy ===== *)
theory SessionTable
  imports SessionStore
begin

text \<open>
  The session store as operations on one table. The six queries are given their meaning as functions on a
  table with the id as primary key (\<^verbatim>\<open>src/session/sqlitestore/queries\<close>, \<^verbatim>\<open>migrations\<close>); \<open>sessions_sql\<close> says that
  the SQLite library runs them so. Under it every operation of the store acts on the table, and the
  properties of sessions over arbitrary runs follow.
\<close>

section \<open>The meaning of the queries\<close>

record row =
  row_data :: string
  row_created :: int
  row_modified :: int
  row_expires :: int

type_synonym "table" = "string \<rightharpoonup> row"

definition sql_insert :: "string \<Rightarrow> row \<Rightarrow> table \<Rightarrow> table option" where
  "sql_insert i r t = (if t i \<noteq> None then None else Some (t(i \<mapsto> r)))"

definition sql_update :: "string \<Rightarrow> string \<Rightarrow> int \<Rightarrow> table \<Rightarrow> table" where
  "sql_update i data modified t =
     (case t i of None \<Rightarrow> t | Some r \<Rightarrow> t(i \<mapsto> r\<lparr>row_data := data, row_modified := modified\<rparr>))"

definition sql_delete :: "string \<Rightarrow> table \<Rightarrow> table" where
  "sql_delete i t = t(i := None)"

definition delete_where :: "(row \<Rightarrow> bool) \<Rightarrow> table \<Rightarrow> table" where
  "delete_where P t i = (case t i of None \<Rightarrow> None | Some r \<Rightarrow> if P r then None else Some r)"

definition sql_delete_old :: "int \<Rightarrow> int \<Rightarrow> table \<Rightarrow> table" where
  "sql_delete_old timeout threshold = delete_where (\<lambda>r. row_created r + timeout < threshold)"

definition sql_delete_expired :: "int \<Rightarrow> table \<Rightarrow> table" where
  "sql_delete_expired threshold = delete_where (\<lambda>r. row_expires r < threshold)"

definition row_stmt :: "string \<Rightarrow> row \<Rightarrow> Stmt" where
  "row_stmt i r =
     \<lparr>GetText = \<lambda>c. if c = ''id'' then i else if c = ''data'' then row_data r else [],
      GetInt64_of = \<lambda>c. if c = ''creation_time'' then row_created r
        else if c = ''modification_time'' then row_modified r
        else if c = ''expiration_time'' then row_expires r else 0\<rparr>"

definition sql_select :: "string \<Rightarrow> table \<Rightarrow> Stmt list" where
  "sql_select i t = (case t i of None \<Rightarrow> [] | Some r \<Rightarrow> [row_stmt i r])"

text \<open>A statement that fails changes nothing; one that succeeds acts as \<open>f\<close>, which may forbid success.\<close>

definition runs_query ::
  "'e sqlite \<Rightarrow> ('e \<Rightarrow> table) \<Rightarrow> string \<Rightarrow> params \<Rightarrow> (table \<Rightarrow> table option) \<Rightarrow> bool" where
  "runs_query S tbl query ps f \<longleftrightarrow>
     (\<forall>conn e. case exec_rows S conn query ps e of ((rows, err), e') \<Rightarrow>
        err \<noteq> None \<and> tbl e' = tbl e \<or> err = None \<and> f (tbl e) = Some (tbl e'))"

definition sessions_sql :: "'e sqlite \<Rightarrow> ('e \<Rightarrow> table) \<Rightarrow> bool" where
  "sessions_sql S tbl \<longleftrightarrow>
     (\<forall>i d c m x. runs_query S tbl insertSessionQuery
        [(''$id'', TextVal i), (''$data'', TextVal d), (''$creation_time'', IntVal c),
         (''$modification_time'', IntVal m), (''$expiration_time'', IntVal x)]
        (sql_insert i \<lparr>row_data = d, row_created = c, row_modified = m, row_expires = x\<rparr>)) \<and>
     (\<forall>i d m. runs_query S tbl updateSessionQuery
        [(''$id'', TextVal i), (''$data'', TextVal d), (''$modification_time'', IntVal m)]
        (\<lambda>t. Some (sql_update i d m t))) \<and>
     (\<forall>i. runs_query S tbl deleteSessionQuery [(''$id'', TextVal i)] (\<lambda>t. Some (sql_delete i t))) \<and>
     (\<forall>a b. runs_query S tbl deleteOldCreatedSessionsQuery
        [(''$expiration_timeout'', IntVal a), (''$expiration_time_threshold'', IntVal b)]
        (\<lambda>t. Some (sql_delete_old a b t))) \<and>
     (\<forall>a. runs_query S tbl deleteExpiredSessionsQuery [(''$expiration_time_threshold'', IntVal a)]
        (\<lambda>t. Some (sql_delete_expired a t))) \<and>
     (\<forall>i conn e. case exec_rows S conn selectSessionQuery [(''$id'', TextVal i)] e of ((rows, err), e') \<Rightarrow>
        tbl e' = tbl e \<and> (err = None \<longrightarrow> rows = sql_select i (tbl e))) \<and>
     (\<forall>p ctx e. tbl (snd (Take S p ctx e)) = tbl e) \<and> (\<forall>p c e. tbl (Put S p c e) = tbl e) \<and>
     (\<forall>c q e. tbl (snd (ExecuteTransient S c q e)) = tbl e)"

section \<open>The operations on the table\<close>

definition tb :: "('e \<Rightarrow> table) \<Rightarrow> ('e, 'k) SqliteStore \<Rightarrow> table" where
  "tb tbl ss = tbl (engine (ss_db ss))"

definition opened :: "('e, 'k) SqliteStore \<Rightarrow> bool" where
  "opened ss \<longleftrightarrow> writePool (ss_db ss) \<noteq> None \<and> readPool (ss_db ss) \<noteq> None"

text \<open>What an operation may change of a store: the database, whose pools stay.\<close>

definition same_store :: "('e, 'k) SqliteStore \<Rightarrow> ('e, 'k) SqliteStore \<Rightarrow> bool" where
  "same_store ss ss' \<longleftrightarrow> Codecs ss' = Codecs ss \<and> ss_Options ss' = ss_Options ss \<and>
     AbsoluteTimeout ss' = AbsoluteTimeout ss \<and> (opened ss \<longrightarrow> opened ss')"

lemma same_store_refl [simp]: "same_store ss ss"
  by (simp add: same_store_def)

lemma same_store_trans: "same_store a b \<Longrightarrow> same_store b c \<Longrightarrow> same_store a c"
  by (simp add: same_store_def)

lemma sessions_sqlD:
  assumes "sessions_sql S tbl"
  shows "tbl (snd (Take S p ctx e)) = tbl e" "tbl (Put S p c e) = tbl e"
    "tbl (snd (ExecuteTransient S c q e)) = tbl e"
  using assms by (auto simp: sessions_sql_def)

lemma sessions_sql_select:
  assumes "sessions_sql S tbl" and "exec_rows S conn selectSessionQuery [(''$id'', TextVal i)] e = ((rows, err), e')"
  shows "tbl e' = tbl e" and "err = None \<Longrightarrow> rows = sql_select i (tbl e)"
proof -
  have "case exec_rows S conn selectSessionQuery [(''$id'', TextVal i)] e of ((rows, err), e') \<Rightarrow>
      tbl e' = tbl e \<and> (err = None \<longrightarrow> rows = sql_select i (tbl e))"
    by (rule assms(1) [unfolded sessions_sql_def, THEN conjunct2, THEN conjunct2, THEN conjunct2, THEN conjunct2,
        THEN conjunct2, THEN conjunct1, rule_format])
  then show "tbl e' = tbl e" and "err = None \<Longrightarrow> rows = sql_select i (tbl e)" by (simp_all add: assms(2))
qed

lemma run_prepare_queries_tbl:
  "sessions_sql S tbl \<Longrightarrow> tbl (snd (run_prepare_queries S conn qs e)) = tbl e"
proof (induction qs arbitrary: e)
  case (Cons q qs)
  then show ?case
    using sessions_sqlD(3) [OF Cons.prems, of conn "TrimSpace q" e]
    by (auto split: prod.splits option.splits)
qed simp

lemma db_prepare_tbl:
  assumes "sessions_sql S tbl" and "db_prepare S conn pool db = (er, db')"
  shows "tbl (engine db') = tbl (engine db)"
  using assms(2) run_prepare_queries_tbl [OF assms(1), of conn _ "engine db"]
  by (auto simp: db_prepare_def split: option.splits sum.splits prod.splits if_splits) (metis snd_conv)+

lemma acquire_tbl:
  assumes "sessions_sql S tbl" and "(if w then writePool db else readPool db) = Some pool"
  shows "\<exists>r db'. acquire S ctx w db = Some (Inr (r, db')) \<and> tbl (engine db') = tbl (engine db) \<and>
    writePool db' = writePool db \<and> readPool db' = readPool db"
proof -
  obtain x e where take: "Take S pool ctx (engine db) = (x, e)" by fastforce
  then have e: "tbl e = tbl (engine db)" using sessions_sqlD(1) [OF assms(1), of pool ctx "engine db"] by simp
  show ?thesis
  proof (cases x)
    case (Inl err)
    then show ?thesis using take assms(2) e by (auto simp: acquire_def go_return_def)
  next
    case (Inr conn)
    obtain er db1 where prep: "db_prepare S conn pool (db\<lparr>engine := e\<rparr>) = (er, db1)" by fastforce
    have "tbl (engine db1) = tbl (engine db)" using db_prepare_tbl [OF assms(1) prep] e by simp
    then show ?thesis
      using take assms(2) Inr prep db_prepare_frame [OF prep]
      by (cases er) (auto simp: acquire_def go_return_def sessions_sqlD(2) [OF assms(1)])
  qed
qed

lemma with_writer_tbl:
  assumes "sessions_sql S tbl" and "writePool db \<noteq> None"
  shows "\<exists>r db'. with_writer S ctx msg body failed db = Some (Inr (r, db')) \<and>
    writePool db' = writePool db \<and> readPool db' = readPool db \<and>
    ((\<exists>err. r = failed err \<and> tbl (engine db') = tbl (engine db)) \<or>
     (\<exists>conn e. tbl e = tbl (engine db) \<and> r = fst (body conn e) \<and> tbl (engine db') = tbl (snd (body conn e))))"
proof -
  obtain pool where "writePool db = Some pool" using assms(2) by auto
  then obtain x db1 where acq: "acquire S ctx True db = Some (Inr (x, db1))"
    and db1: "tbl (engine db1) = tbl (engine db)" "writePool db1 = writePool db" "readPool db1 = readPool db"
    using acquire_tbl [OF assms(1), of True db] by fastforce
  show ?thesis
  proof (cases x)
    case (Inl err)
    then show ?thesis
      using db1 acq by (auto simp: with_writer_def AcquireWriter_def go_return_def)
  next
    case (Inr conn)
    then show ?thesis
      using db1 acq
      by (auto simp: with_writer_def AcquireWriter_def go_return_def ReleaseWriter_def split: prod.splits
          intro!: disjI2 exI [of _ conn] exI [of _ "engine db1"])
  qed
qed

text \<open>An operation returns, and applies \<open>f\<close> to the table or reports an error and leaves the table.\<close>

definition applies ::
  "('e \<Rightarrow> table) \<Rightarrow> (table \<Rightarrow> table option) \<Rightarrow> ('e, 'k) SqliteStore \<Rightarrow> (error option \<times> ('e, 'k) SqliteStore) go \<Rightarrow> bool" where
  "applies tbl f ss res \<longleftrightarrow>
     (\<exists>err ss'. res = Some (Inr (err, ss')) \<and> same_store ss ss' \<and>
        (err \<noteq> None \<and> tb tbl ss' = tb tbl ss \<or> err = None \<and> f (tb tbl ss) = Some (tb tbl ss')))"

lemma appliesE:
  assumes "applies tbl f ss res"
  obtains e ss' where "res = Some (Inr (Some e, ss'))" "same_store ss ss'" "tb tbl ss' = tb tbl ss"
  | ss' where "res = Some (Inr (None, ss'))" "same_store ss ss'" "f (tb tbl ss) = Some (tb tbl ss')"
  using assms by (auto simp: applies_def)

lemma writer_applies:
  assumes "sessions_sql S tbl" and "opened ss" and "runs_query S tbl q ps f"
    and "\<And>conn e. body conn e =
      (let (err, _, e) = Execute S conn q ps no_result ((), e) in (errors_Wrap err m, e))"
  shows "applies tbl f ss
    (go_bind (with_writer S ctx msg body Some (ss_db ss)) (\<lambda>(err, db). go_return (errors_Wrap err m', set_db ss db)))"
proof -
  have stmt: "fst (body conn e) \<noteq> None \<and> tbl (snd (body conn e)) = tbl e \<or>
      fst (body conn e) = None \<and> f (tbl e) = Some (tbl (snd (body conn e)))" for conn e
  proof -
    obtain rows err e' where x: "exec_rows S conn q ps e = ((rows, err), e')" by (metis prod.exhaust)
    have "step_rows no_result rows err () = (err, ())" by (induction rows) simp_all
    then show ?thesis
      using assms(3) x unfolding runs_query_def assms(4)
      by (auto simp: Execute_def dest!: spec [of _ conn] spec [of _ e])
  qed
  have "writePool (ss_db ss) \<noteq> None" using assms(2) by (simp add: opened_def)
  from with_writer_tbl [OF assms(1) this, of ctx msg body Some] obtain r db' where
    w: "with_writer S ctx msg body Some (ss_db ss) = Some (Inr (r, db'))"
    and pools: "writePool db' = writePool (ss_db ss)" "readPool db' = readPool (ss_db ss)"
    and res: "(\<exists>err. r = Some err) \<and> tbl (engine db') = tbl (engine (ss_db ss)) \<or>
      r = None \<and> f (tbl (engine (ss_db ss))) = Some (tbl (engine db'))"
    using stmt by (metis option.exhaust)
  then show ?thesis
    by (auto simp: applies_def same_store_def opened_def set_db_def tb_def go_return_def)
qed

lemma queries_run:
  assumes "sessions_sql S tbl"
  shows "runs_query S tbl insertSessionQuery (newInsertion s) (sql_insert (s_ID s)
      \<lparr>row_data = s_Data s, row_created = UnixMilli (CreationTime s), row_modified = UnixMilli (ModificationTime s),
       row_expires = UnixMilli (ExpirationTime s)\<rparr>)"
    and "runs_query S tbl updateSessionQuery (newUpdate s)
      (\<lambda>t. Some (sql_update (s_ID s) (s_Data s) (UnixMilli (ModificationTime s)) t))"
    and "runs_query S tbl deleteSessionQuery (newDelete s) (\<lambda>t. Some (sql_delete (s_ID s) t))"
    and "runs_query S tbl deleteOldCreatedSessionsQuery (newDeletePastCreationTimeout d s)
      (\<lambda>t. Some (sql_delete_old (Milliseconds d) (UnixMilli (ExpirationTime s)) t))"
    and "runs_query S tbl deleteExpiredSessionsQuery (newDeletePastExpiration s)
      (\<lambda>t. Some (sql_delete_expired (UnixMilli (ExpirationTime s)) t))"
  using assms
  by (simp_all add: sessions_sql_def newInsertion_def newUpdate_def newDelete_def newDeletePastCreationTimeout_def
      newDeletePastExpiration_def)

lemma store_statements:
  assumes "sessions_sql S tbl" and "opened ss"
  shows "applies tbl (sql_insert (s_ID s) \<lparr>row_data = s_Data s, row_created = UnixMilli (CreationTime s),
       row_modified = UnixMilli (ModificationTime s), row_expires = UnixMilli (ExpirationTime s)\<rparr>) ss
      (AddSession S ctx s ss)"
    and "applies tbl (\<lambda>t. Some (sql_update (s_ID s) (s_Data s) (UnixMilli (ModificationTime s)) t)) ss
      (UpdateSession S ctx s ss)"
    and "applies tbl (\<lambda>t. Some (sql_delete i t)) ss (DeleteSession S ctx i ss)"
    and "applies tbl (\<lambda>t. Some (sql_delete_old (Milliseconds d) (UnixMilli now) t)) ss
      (DeleteOldCreatedSessions S ctx d now ss)"
    and "applies tbl (\<lambda>t. Some (sql_delete_expired (UnixMilli now) t)) ss (DeleteExpiredSessions S ctx now ss)"
  using writer_applies [OF assms queries_run(1) [OF assms(1)]] writer_applies [OF assms queries_run(2) [OF assms(1)]]
    writer_applies [OF assms queries_run(3) [OF assms(1), of "zeroSession\<lparr>s_ID := i\<rparr>"]]
    writer_applies [OF assms queries_run(4) [OF assms(1), of d "zeroSession\<lparr>ExpirationTime := now\<rparr>"]]
    writer_applies [OF assms queries_run(5) [OF assms(1), of "zeroSession\<lparr>ExpirationTime := now\<rparr>"]]
  by (simp_all add: AddSession_def ExecuteInsertion_def conn_ExecuteInsertion_def
      UpdateSession_def ExecuteUpdate_def conn_ExecuteUpdate_def DeleteSession_def DeleteOldCreatedSessions_def
      DeleteExpiredSessions_def ExecuteDelete_def conn_ExecuteDelete_def)

text \<open>Reading a session leaves the table and finds what the table holds under the id.\<close>

definition row_session :: "string \<Rightarrow> row \<Rightarrow> Session" where
  "row_session i r =
     \<lparr>s_ID = i, s_Data = row_data r, CreationTime = from_UnixMilli (row_created r),
      ModificationTime = from_UnixMilli (row_modified r), ExpirationTime = from_UnixMilli (row_expires r)\<rparr>"

lemma selector_result:
  "\<exists>sel. step_rows selector_Step (sql_select i t) None newSessionsSelector = (None, sel) \<and>
     selector_Sessions sel = (if i = [] then [] else case t i of None \<Rightarrow> [] | Some r \<Rightarrow> [row_session i r])"
  by (auto simp: sql_select_def selector_Step_def newSessionsSelector_def selector_Sessions_def row_stmt_def
      row_session_def Let_def split: option.splits)

lemma step_rows_error: "\<exists>er s'. step_rows f rows (Some err) s = (Some er, s')"
  by (induction rows arbitrary: s) (auto split: prod.splits option.splits)

lemma GetSession_result:
  assumes "sessions_sql S tbl" and "opened ss"
  shows "\<exists>res ss'. GetSession S ctx i ss = Some (Inr (res, ss')) \<and> same_store ss ss' \<and> tb tbl ss' = tb tbl ss \<and>
    (\<forall>sess. res = Inr sess \<longrightarrow> i \<noteq> [] \<and> (\<exists>r. tb tbl ss i = Some r \<and> sess = row_session i r))"
proof -
  obtain pool where "readPool (ss_db ss) = Some pool" using assms(2) by (auto simp: opened_def)
  then obtain x db1 where acq: "acquire S ctx False (ss_db ss) = Some (Inr (x, db1))"
    and db1: "tbl (engine db1) = tb tbl ss" "writePool db1 = writePool (ss_db ss)" "readPool db1 = readPool (ss_db ss)"
    using acquire_tbl [OF assms(1), of False "ss_db ss"] unfolding tb_def by fastforce
  show ?thesis
  proof (cases x)
    case (Inl err)
    then show ?thesis
      using db1 acq assms(2)
      by (auto simp: GetSession_def ExecuteSelection_def AcquireReader_def go_return_def same_store_def set_db_def
          opened_def tb_def)
  next
    case (Inr conn)
    obtain rows err e where x: "exec_rows S conn selectSessionQuery [(''$id'', TextVal i)] (engine db1) = ((rows, err), e)"
      by (metis prod.exhaust)
    have e: "tbl e = tb tbl ss" and rows: "err = None \<Longrightarrow> rows = sql_select i (tb tbl ss)"
      using sessions_sql_select [OF assms(1) x] db1(1) by simp_all
    obtain er sel where sel: "step_rows selector_Step rows err newSessionsSelector = (er, sel)" by fastforce
    have ok: "er = None \<Longrightarrow> selector_Sessions sel =
        (if i = [] then [] else case tb tbl ss i of None \<Rightarrow> [] | Some r \<Rightarrow> [row_session i r])"
    proof (cases err)
      case None
      then show ?thesis using sel rows selector_result [of i "tb tbl ss"] by auto
    next
      case (Some a)
      then show "er = None \<Longrightarrow> ?thesis" using sel step_rows_error [of selector_Step rows a newSessionsSelector] by auto
    qed
    show ?thesis
      using db1 acq Inr x sel e ok assms(2)
      by (auto simp: GetSession_def ExecuteSelection_def AcquireReader_def conn_ExecuteSelection_def Execute_def
          newSessionSelection_def go_return_def same_store_def set_db_def ReleaseReader_def
          opened_def tb_def split: option.splits if_splits)
  qed
qed

text \<open>
  When reading can be expected to work: the library hands out connections and runs the preparation queries and the
  selection without errors, and the files of the preparation queries can be listed and read.
\<close>

definition reads_work :: "'e sqlite \<Rightarrow> ctx \<Rightarrow> bool" where
  "reads_work S ctx \<longleftrightarrow>
     (\<forall>p e. \<exists>conn. fst (Take S p ctx e) = Inr conn) \<and> (\<forall>conn q e. fst (ExecuteTransient S conn q e) = None) \<and>
     (\<forall>conn i e. snd (fst (exec_rows S conn selectSessionQuery [(''$id'', TextVal i)] e)) = None)"

definition files_readable :: "FS \<Rightarrow> bool" where
  "files_readable fs \<longleftrightarrow>
     (\<forall>(path, isDir, err)\<in>set (fs_walk fs). err = None \<and>
        (\<not> isDir \<longrightarrow> (\<exists>f text. fs_Open fs path = Inr f \<and> f_read f = Inr text)))"

lemma list_walk_readable:
  "\<forall>(path, isDir, err)\<in>set ws. err = None \<and> (\<not> isDir \<longrightarrow> P path) \<Longrightarrow> \<forall>path\<in>set fs. P path \<Longrightarrow>
     \<exists>fs'. list_walk flt ws fs = Inr fs' \<and> (\<forall>path\<in>set fs'. P path)"
  by (induction flt ws fs rule: list_walk.induct) auto

lemma read_query_files_readable:
  "\<forall>path\<in>set fs. \<exists>f text. fs_Open F path = Inr f \<and> f_read f = Inr text \<Longrightarrow> \<exists>qs. read_query_files F fs = Inr qs"
  by (induction fs) (auto simp: readFile_def)

lemma readQueries_readable: "files_readable fs \<Longrightarrow> \<exists>qs. readQueries fs flt = Inr qs"
  using list_walk_readable [of "fs_walk fs" "\<lambda>path. \<exists>f text. fs_Open fs path = Inr f \<and> f_read f = Inr text" "[]" flt]
    read_query_files_readable [of _ fs]
  by (fastforce simp: files_readable_def readQueries_def listFiles_def)

lemma run_prepare_queries_works: "reads_work S ctx \<Longrightarrow> fst (run_prepare_queries S conn qs e) = None"
  by (induction qs arbitrary: e) (auto simp: reads_work_def split: prod.splits option.splits, metis fst_conv option.distinct(1))

lemma acquire_reader_works:
  assumes "reads_work S ctx" and "readPool db = Some pool"
    and "\<forall>fs. prepareConnQueries db = Some fs \<longrightarrow> files_readable fs"
  shows "\<exists>conn db'. acquire S ctx False db = Some (Inr (Inr conn, db'))"
proof -
  obtain conn e where t: "Take S pool ctx (engine db) = (Inr conn, e)"
    using assms(1) by (metis reads_work_def prod.collapse)
  have "fst (db_prepare S conn pool (db\<lparr>engine := e\<rparr>)) = None"
  proof (cases "prepareConnQueries db")
    case (Some fs)
    then obtain qs where "readQueries fs (Some filterQuery) = Inr qs" using assms(3) readQueries_readable by blast
    then show ?thesis
      using Some run_prepare_queries_works [OF assms(1), of conn qs e]
      by (auto simp: db_prepare_def split: prod.splits option.splits)
  qed (simp add: db_prepare_def)
  then obtain db' where "db_prepare S conn pool (db\<lparr>engine := e\<rparr>) = (None, db')" by (metis prod.collapse)
  then show ?thesis using t assms(2) by (simp add: acquire_def go_return_def)
qed

lemma GetSession_works:
  assumes "sessions_sql S tbl" and "opened ss" and "reads_work S ctx"
    and "\<forall>fs. prepareConnQueries (ss_db ss) = Some fs \<longrightarrow> files_readable fs"
    and "i \<noteq> []" and "tb tbl ss i = Some row"
  shows "\<exists>ss'. GetSession S ctx i ss = Some (Inr (Inr (row_session i row), ss')) \<and> same_store ss ss'"
proof -
  obtain pool where pool: "readPool (ss_db ss) = Some pool" using assms(2) by (auto simp: opened_def)
  obtain conn db1 where acq: "acquire S ctx False (ss_db ss) = Some (Inr (Inr conn, db1))"
    using acquire_reader_works [OF assms(3) pool assms(4)] by blast
  have db1: "tbl (engine db1) = tb tbl ss"
    using acquire_tbl [OF assms(1), of False "ss_db ss" pool ctx] pool acq by (auto simp: tb_def)
  obtain rows e where x: "exec_rows S conn selectSessionQuery [(''$id'', TextVal i)] (engine db1) = ((rows, None), e)"
    using assms(3) by (metis reads_work_def prod.collapse)
  have rows: "rows = sql_select i (tb tbl ss)" using sessions_sql_select [OF assms(1) x] db1 by simp
  obtain sel where sel: "step_rows selector_Step rows None newSessionsSelector = (None, sel)"
      "selector_Sessions sel = [row_session i row]"
    using selector_result [of i "tb tbl ss"] assms(5,6) rows by auto
  have "\<exists>sess ss'. GetSession S ctx i ss = Some (Inr (Inr sess, ss'))"
    using acq x sel
    by (auto simp: GetSession_def ExecuteSelection_def AcquireReader_def conn_ExecuteSelection_def Execute_def
        newSessionSelection_def go_return_def)
  then show ?thesis using GetSession_result [OF assms(1,2), of ctx i] assms(6) by auto
qed

lemma ss_New_result:
  assumes "sessions_sql S tbl" and "opened ss"
  shows "\<exists>s err ss'. ss_New SC S T r name ss = Some (Inr ((s, err), ss')) \<and> same_store ss ss' \<and>
    tb tbl ss' = tb tbl ss \<and>
    (\<not> gs_IsNew s \<longrightarrow> err = None \<and> (\<exists>cookie row.
      map_of (r_Cookies r) name = Some cookie \<and> DecodeID SC (Codecs ss) (T 0) name cookie = (None, gs_ID s) \<and>
      gs_ID s \<noteq> [] \<and> tb tbl ss (gs_ID s) = Some row \<and> T 1 \<le> from_UnixMilli (row_expires row) \<and>
      DecodeValues SC (Codecs ss) (T 2) name (row_data row) Map.empty = (None, gs_Values s)))"
proof (cases "map_of (r_Cookies r) name")
  case None
  then show ?thesis by (simp add: ss_New_def go_return_def)
next
  case (Some cookie)
  obtain er i where dec: "DecodeID SC (Codecs ss) (T 0) name cookie = (er, i)" by fastforce
  show ?thesis
  proof (cases er)
    case (Some e)
    then show ?thesis using \<open>map_of _ _ = _\<close> dec by (simp add: ss_New_def go_return_def)
  next
    case None
    obtain res ss' where get: "GetSession S (r_Context r) i ss = Some (Inr (res, ss'))" "same_store ss ss'"
        "tb tbl ss' = tb tbl ss"
      and found: "\<And>sess. res = Inr sess \<Longrightarrow> i \<noteq> [] \<and> (\<exists>row. tb tbl ss i = Some row \<and> sess = row_session i row)"
      using GetSession_result [OF assms, of "r_Context r" i] by auto
    then have codecs: "Codecs ss' = Codecs ss" by (simp add: same_store_def)
    show ?thesis
    proof (cases res)
      case (Inl e)
      then show ?thesis using \<open>map_of _ _ = _\<close> dec None get by (simp add: ss_New_def go_return_def)
    next
      case (Inr sess)
      then obtain row where row: "i \<noteq> []" "tb tbl ss i = Some row" "sess = row_session i row" using found by auto
      obtain er vs where "DecodeValues SC (Codecs ss) (T 2) name (row_data row) Map.empty = (er, vs)" by fastforce
      then show ?thesis
        using \<open>map_of _ _ = _\<close> dec None get Inr row codecs
        by (cases "ExpirationTime sess - T 1 < 0"; cases er)
           (simp_all add: ss_New_def go_return_def row_session_def Let_def)
    qed
  qed
qed

text \<open>The row that \<^verbatim>\<open>Save\<close> inserts for a new session.\<close>

definition created_row :: "string \<Rightarrow> time \<Rightarrow> 64 word \<Rightarrow> row" where
  "created_row data t timeout =
     \<lparr>row_data = data, row_created = UnixMilli t, row_modified = UnixMilli t,
      row_expires = UnixMilli (time_Add t timeout)\<rparr>"

definition inserts_new :: "'x gsession \<Rightarrow> bool" where
  "inserts_new s \<longleftrightarrow> 0 \<le> o_MaxAge (gs_Options s) \<and> (gs_ID s = [] \<or> gs_IsNew s)"

lemma Save_deletes:
  assumes "sessions_sql S tbl" and "opened ss" and "o_MaxAge (gs_Options s) < 0"
  shows "\<exists>err w' ss'. ss_Save SC S T r w s (ss, os) = Some (Inr ((err, s, w'), ss', os)) \<and> same_store ss ss' \<and>
    (err \<noteq> None \<and> w' = w \<and> tb tbl ss' = tb tbl ss \<or>
     err = None \<and> w' = w @ [\<lparr>ck_Name = gs_name s, ck_Value = [], ck_Options = gs_Options s\<rparr>] \<and>
     tb tbl ss' = (tb tbl ss)(gs_ID s := None))"
  using store_statements(3) [OF assms(1,2), of "gs_ID s" "r_Context r"] assms(3)
  by (elim appliesE) (auto simp: ss_Save_def go_return_def sql_delete_def)

lemma Save_inserts:
  assumes "sessions_sql S tbl" and "opened ss" and "inserts_new s" and "new_session_id os = (i, os')"
  shows "\<exists>err w' ss'. ss_Save SC S T r w s (ss, os) = Some (Inr ((err, s\<lparr>gs_ID := i\<rparr>, w'), ss', os')) \<and>
    same_store ss ss' \<and>
    (err \<noteq> None \<and> w' = w \<and> tb tbl ss' = tb tbl ss \<or>
     (\<exists>data. EncodeValues SC (Codecs ss) (T 0) (gs_name s) (gs_Values s) = Inr data \<and> tb tbl ss i = None \<and>
        tb tbl ss' = (tb tbl ss)(i \<mapsto> created_row data (T 1) (AbsoluteTimeout ss)) \<and>
        (err, w') = set_session_cookie SC T (s\<lparr>gs_ID := i\<rparr>) w (Codecs ss)))"
proof (cases "EncodeValues SC (Codecs ss) (T 0) (gs_name s) (gs_Values s)")
  case (Inl e)
  then show ?thesis
    using assms(3,4) by (auto simp: ss_Save_def go_return_def inserts_new_def createdSession_def)
next
  case (Inr data)
  obtain er w2 where "set_session_cookie SC T (s\<lparr>gs_ID := i\<rparr>) w (Codecs ss) = (er, w2)" by fastforce
  then show ?thesis
    using Inr store_statements(1) [OF assms(1,2), of "\<lparr>s_ID = i, s_Data = data, CreationTime = T 1,
        ModificationTime = T 1, ExpirationTime = time_Add (T 1) (AbsoluteTimeout ss)\<rparr>" "r_Context r"] assms(3,4)
    by (elim appliesE) (simp_all add: ss_Save_def go_return_def inserts_new_def createdSession_def sql_insert_def
        created_row_def same_store_def not_less split: if_splits)
qed

lemma Save_updates:
  assumes "sessions_sql S tbl" and "opened ss" and "0 \<le> o_MaxAge (gs_Options s)" and "\<not> inserts_new s"
  shows "\<exists>err w' ss'. ss_Save SC S T r w s (ss, os) = Some (Inr ((err, s, w'), ss', os)) \<and> same_store ss ss' \<and>
    (err \<noteq> None \<and> w' = w \<and> tb tbl ss' = tb tbl ss \<or>
     (\<exists>data. EncodeValues SC (Codecs ss) (T 0) (gs_name s) (gs_Values s) = Inr data \<and>
        tb tbl ss' = sql_update (gs_ID s) data (UnixMilli (T 1)) (tb tbl ss) \<and>
        (err, w') = set_session_cookie SC T s w (Codecs ss)))"
proof (cases "EncodeValues SC (Codecs ss) (T 0) (gs_name s) (gs_Values s)")
  case (Inl e)
  then show ?thesis
    using assms(3,4) by (auto simp: ss_Save_def go_return_def inserts_new_def modifiedSession_def)
next
  case (Inr data)
  obtain er w2 where "set_session_cookie SC T s w (Codecs ss) = (er, w2)" by fastforce
  then show ?thesis
    using Inr store_statements(2) [OF assms(1,2), of
        "zeroSession\<lparr>s_ID := gs_ID s, s_Data := data, ModificationTime := T 1\<rparr>" "r_Context r"] assms(3,4)
    by (elim appliesE) (simp_all add: ss_Save_def go_return_def inserts_new_def modifiedSession_def
        same_store_def not_less)
qed

lemma Cleanup_result:
  assumes "sessions_sql S tbl" and "opened ss"
  shows "\<exists>err ss'. Cleanup S T ctx ss = Some (Inr ((False, err), ss')) \<and> same_store ss ss' \<and>
    (tb tbl ss' = tb tbl ss \<and> err \<noteq> None \<or>
     tb tbl ss' = sql_delete_expired (UnixMilli (T 0)) (tb tbl ss) \<and> err \<noteq> None \<or>
     tb tbl ss' = sql_delete_old (Milliseconds (AbsoluteTimeout ss)) (UnixMilli (T 1))
       (sql_delete_expired (UnixMilli (T 0)) (tb tbl ss)) \<and> err = None)"
  using store_statements(5) [OF assms, of "T 0" ctx]
proof (elim appliesE)
  fix e ss1
  assume "DeleteExpiredSessions S ctx (T 0) ss = Some (Inr (Some e, ss1))" "same_store ss ss1"
    "tb tbl ss1 = tb tbl ss"
  then show ?thesis by (auto simp: Cleanup_def go_return_def)
next
  fix ss1
  assume d: "DeleteExpiredSessions S ctx (T 0) ss = Some (Inr (None, ss1))" "same_store ss ss1"
    "Some (sql_delete_expired (UnixMilli (T 0)) (tb tbl ss)) = Some (tb tbl ss1)"
  then have o: "opened ss1" "AbsoluteTimeout ss1 = AbsoluteTimeout ss" using assms(2) by (simp_all add: same_store_def)
  show ?thesis
    using store_statements(4) [OF assms(1) o(1), of "AbsoluteTimeout ss1" "T 1" ctx] d o(2)
    by (elim appliesE) (auto simp: Cleanup_def go_return_def elim: same_store_trans)
qed

section \<open>Runs of the store\<close>

text \<open>
  Any sequence of calls of the store's operations, by any number of requests; a step is labelled with the id
  it may insert: the one that \<^verbatim>\<open>Save\<close> draws at random for a new session, or the one given to \<^verbatim>\<open>AddSession\<close>.
\<close>

inductive ss_step ::
  "('k, 'x) securecookie \<Rightarrow> 'e sqlite \<Rightarrow> string option \<Rightarrow> ('e, 'k) SqliteStore \<times> 'r os \<Rightarrow> ('e, 'k) SqliteStore \<times> 'r os \<Rightarrow> bool"
  for SC S where
  "ss_New SC S T r name ss = Some (Inr (x, ss')) \<Longrightarrow> ss_step SC S None (ss, os) (ss', os)"
| "ss_Save SC S T r w s (ss, os) = Some (Inr (y, ss', os')) \<Longrightarrow>
     ss_step SC S (if inserts_new s then Some (fst (new_session_id os)) else None) (ss, os) (ss', os')"
| "Cleanup S T ctx ss = Some (Inr (z, ss')) \<Longrightarrow> ss_step SC S None (ss, os) (ss', os)"
| "DeleteSession S ctx i ss = Some (Inr (err, ss')) \<Longrightarrow> ss_step SC S None (ss, os) (ss', os)"
| "UpdateSession S ctx sess ss = Some (Inr (err, ss')) \<Longrightarrow> ss_step SC S None (ss, os) (ss', os)"
| "AddSession S ctx sess ss = Some (Inr (err, ss')) \<Longrightarrow> ss_step SC S (Some (s_ID sess)) (ss, os) (ss', os)"
| "GetSession S ctx i ss = Some (Inr (res, ss')) \<Longrightarrow> ss_step SC S None (ss, os) (ss', os)"

inductive ss_run ::
  "('k, 'x) securecookie \<Rightarrow> 'e sqlite \<Rightarrow> string set \<Rightarrow> ('e, 'k) SqliteStore \<times> 'r os \<Rightarrow> ('e, 'k) SqliteStore \<times> 'r os \<Rightarrow> bool"
  for SC S where
  "ss_run SC S {} st st"
| "ss_run SC S G st st' \<Longrightarrow> ss_step SC S g st' st'' \<Longrightarrow> ss_run SC S (G \<union> set_option g) st st''"

text \<open>Between two tables: no row appears, except under the ids of \<open>G\<close>, and no row gets other times of creation and expiration.\<close>

definition rows_kept :: "string set \<Rightarrow> table \<Rightarrow> table \<Rightarrow> bool" where
  "rows_kept G t t' \<longleftrightarrow>
     (\<forall>i r'. i \<notin> G \<longrightarrow> t' i = Some r' \<longrightarrow>
        (\<exists>r. t i = Some r \<and> row_created r' = row_created r \<and> row_expires r' = row_expires r))"

lemma rows_keptI:
  "rows_kept G t t"
  "rows_kept G t (sql_update i data m t)"
  "rows_kept G t (t(i := None))"
  "rows_kept G t (delete_where P t)"
  "rows_kept (insert i G) t (t(i \<mapsto> r))"
  by (auto simp: rows_kept_def sql_update_def delete_where_def split: option.splits if_splits)

lemma sql_update_data: "sql_update i d m t i = Some r \<Longrightarrow> row_data r = d"
  by (auto simp: sql_update_def split: option.splits)

lemma sql_insert_rows_kept: "sql_insert i r t = Some t' \<Longrightarrow> rows_kept {i} t t'"
  by (auto simp: sql_insert_def rows_keptI split: if_splits)

lemma delete_where_delete_where: "delete_where P (delete_where Q t) = delete_where (\<lambda>r. P r \<or> Q r) t"
  by (auto simp: delete_where_def fun_eq_iff split: option.splits)

lemma rows_kept_trans: "rows_kept G t t' \<Longrightarrow> rows_kept H t' t'' \<Longrightarrow> rows_kept (G \<union> H) t t''"
  unfolding rows_kept_def by (metis Un_iff)

lemma Save_rows_kept:
  assumes "sessions_sql S tbl" and "opened ss" and "ss_Save SC S T r w s (ss, os) = Some (Inr (y, ss', os'))"
  shows "opened ss' \<and> rows_kept (set_option (if inserts_new s then Some (fst (new_session_id os)) else None))
    (tb tbl ss) (tb tbl ss')"
proof -
  consider "o_MaxAge (gs_Options s) < 0" | "inserts_new s" | "0 \<le> o_MaxAge (gs_Options s)" "\<not> inserts_new s" by linarith
  then show ?thesis
  proof cases
    case 1
    then show ?thesis
      using Save_deletes [OF assms(1,2) 1, of SC T r w os] assms(2,3)
      by (auto simp: same_store_def intro: rows_keptI)
  next
    case 2
    then show ?thesis
      using Save_inserts [OF assms(1,2) 2 prod.collapse [symmetric], of SC T r w os] assms(2,3)
      by (auto simp: same_store_def intro: rows_keptI)
  next
    case 3
    then show ?thesis
      using Save_updates [OF assms(1,2) 3, of SC T r w os] assms(2,3)
      by (auto simp: same_store_def intro: rows_keptI)
  qed
qed

lemma applies_rows_kept:
  assumes "applies tbl f ss (Some (Inr (err, ss')))" and "opened ss"
    and "\<And>t'. f (tb tbl ss) = Some t' \<Longrightarrow> rows_kept G (tb tbl ss) t'"
  shows "opened ss' \<and> rows_kept G (tb tbl ss) (tb tbl ss')"
  using assms by (auto simp: applies_def same_store_def intro: rows_keptI)

lemma ss_step_rows_kept:
  assumes "sessions_sql S tbl" and "ss_step SC S g st st'" and "opened (fst st)"
  shows "opened (fst st') \<and> rows_kept (set_option g) (tb tbl (fst st)) (tb tbl (fst st'))"
  using assms(2,3)
proof (cases rule: ss_step.cases)
  case (1 T r name ss x ss' os)
  then show ?thesis
    using ss_New_result [OF assms(1), of ss SC T r name] assms(3) by (auto simp: same_store_def intro: rows_keptI)
next
  case (2 T r w s ss os y ss' os')
  show ?thesis
    unfolding 2(1-3) fst_conv by (rule Save_rows_kept [OF assms(1) _ 2(4)]) (use assms(3) 2(2) in simp)
next
  case (3 T ctx ss z ss' os)
  then show ?thesis
    using Cleanup_result [OF assms(1), of ss T ctx] assms(3)
    by (auto simp: same_store_def sql_delete_expired_def sql_delete_old_def delete_where_delete_where
        intro: rows_keptI)
next
  case (4 ctx i ss err ss' os)
  then show ?thesis
    using applies_rows_kept [OF store_statements(3) [OF assms(1), of ss i ctx, unfolded 4]] assms(3)
    by (simp add: sql_delete_def rows_keptI)
next
  case (5 ctx sess ss err ss' os)
  then show ?thesis
    using applies_rows_kept [OF store_statements(2) [OF assms(1), of ss sess ctx, unfolded 5]] assms(3)
    by (simp add: rows_keptI)
next
  case (6 ctx sess ss err ss' os)
  then show ?thesis
    using applies_rows_kept [OF store_statements(1) [OF assms(1), of ss sess ctx, unfolded 6], of "{s_ID sess}"]
      sql_insert_rows_kept assms(3)
    by simp
next
  case (7 ctx i ss res ss' os)
  then show ?thesis
    using GetSession_result [OF assms(1), of ss ctx i] assms(3) by (auto simp: same_store_def intro: rows_keptI)
qed

lemma ss_run_rows_kept:
  assumes "ss_run SC S G st st'" and "sessions_sql S tbl" and "opened (fst st)"
  shows "opened (fst st') \<and> rows_kept G (tb tbl (fst st)) (tb tbl (fst st'))"
  using assms(1,3)
  by induction (auto intro: rows_keptI rows_kept_trans dest: ss_step_rows_kept [OF assms(2)])

section \<open>An engine to run on\<close>

lemma queries_distinct:
  "distinct [insertSessionQuery, updateSessionQuery, deleteSessionQuery, deleteOldCreatedSessionsQuery,
     deleteExpiredSessionsQuery, selectSessionQuery]"
  by code_simp

lemma queries_neq:
  shows
    "insertSessionQuery \<noteq> updateSessionQuery"
    "insertSessionQuery \<noteq> deleteSessionQuery"
    "insertSessionQuery \<noteq> deleteOldCreatedSessionsQuery"
    "insertSessionQuery \<noteq> deleteExpiredSessionsQuery"
    "insertSessionQuery \<noteq> selectSessionQuery"
    "updateSessionQuery \<noteq> deleteSessionQuery"
    "updateSessionQuery \<noteq> deleteOldCreatedSessionsQuery"
    "updateSessionQuery \<noteq> deleteExpiredSessionsQuery"
    "updateSessionQuery \<noteq> selectSessionQuery"
    "deleteSessionQuery \<noteq> deleteOldCreatedSessionsQuery"
    "deleteSessionQuery \<noteq> deleteExpiredSessionsQuery"
    "deleteSessionQuery \<noteq> selectSessionQuery"
    "deleteOldCreatedSessionsQuery \<noteq> deleteExpiredSessionsQuery"
    "deleteOldCreatedSessionsQuery \<noteq> selectSessionQuery"
    "deleteExpiredSessionsQuery \<noteq> selectSessionQuery"
  using queries_distinct by simp_all

fun param_values :: "params \<Rightarrow> string list \<times> int list" where
  "param_values [] = ([], [])"
| "param_values ((_, TextVal x) # ps) = map_prod ((#) x) id (param_values ps)"
| "param_values ((_, IntVal n) # ps) = map_prod id ((#) n) (param_values ps)"

definition demo_exec :: "string \<Rightarrow> params \<Rightarrow> table \<Rightarrow> (Stmt list \<times> error option) \<times> table" where
  "demo_exec q ps t =
     (let (xs, ns) = param_values ps
      in if q = insertSessionQuery then
           (case sql_insert (xs ! 0) \<lparr>row_data = xs ! 1, row_created = ns ! 0, row_modified = ns ! 1, row_expires = ns ! 2\<rparr> t of
              None \<Rightarrow> (([], Some (ExternalError ''UNIQUE constraint failed'')), t)
            | Some t \<Rightarrow> (([], None), t))
         else if q = updateSessionQuery then (([], None), sql_update (xs ! 0) (xs ! 1) (ns ! 0) t)
         else if q = deleteSessionQuery then (([], None), sql_delete (xs ! 0) t)
         else if q = deleteOldCreatedSessionsQuery then (([], None), sql_delete_old (ns ! 0) (ns ! 1) t)
         else if q = deleteExpiredSessionsQuery then (([], None), sql_delete_expired (ns ! 0) t)
         else if q = selectSessionQuery then ((sql_select (xs ! 0) t, None), t)
         else (([], None), t))"

definition demo_engine :: "table sqlite" where
  "demo_engine =
     \<lparr>NewPool = \<lambda>uri flags n e. (Inr 0, e), pool_Close = \<lambda>p e. (None, e), Take = \<lambda>p ctx e. (Inr 0, e), Put = \<lambda>p c e. e,
      exec_rows = \<lambda>c. demo_exec, ExecuteTransient = \<lambda>c q e. (None, e), Savepoint = \<lambda>c e. e,
      EndSavepoint = \<lambda>c err e. (err, e), sq_Migrate = \<lambda>ctx c sc e. (None, e)\<rparr>"

lemma demo_engine_sql: "sessions_sql demo_engine id"
  using queries_neq queries_neq [THEN not_sym]
  by (simp add: sessions_sql_def runs_query_def demo_engine_def demo_exec_def sql_insert_def)

text \<open>A cookie library that encodes the user only, and a store on the engine.\<close>

definition demo_cookies :: "(nat, string) securecookie" where
  "demo_cookies =
     \<lparr>CodecsFromPairs = map length, is_SecureCookie = \<lambda>k. True, codec_MaxAge = \<lambda>a k. k, codec_MaxLength = \<lambda>l k. k,
      EncodeID = \<lambda>ks t n i. Inr i, DecodeID = \<lambda>ks t n y. (None, y),
      EncodeValues = \<lambda>ks t n v.
        case v ''user'' of
          None \<Rightarrow> Inl (ExternalError ''gob'')
        | Some u \<Rightarrow> if v = [''user'' \<mapsto> u] then Inr u else Inl (ExternalError ''gob''),
      DecodeValues = \<lambda>ks t n y d. (None, [''user'' \<mapsto> y])\<rparr>"

definition demo_options :: CookieOptions where
  "demo_options = \<lparr>o_Path = ''/'', o_Domain = [], o_MaxAge = 0, o_Secure = True, o_HttpOnly = True,
     o_SameSite = SameSiteLaxMode\<rparr>"

definition demo_store :: "table \<Rightarrow> (table, nat) SqliteStore" where
  "demo_store t =
     \<lparr>Codecs = [32], ss_Options = demo_options, AbsoluteTimeout = 60000000000,
      ss_db = \<lparr>db_Config = \<lparr>db_URI = ''file:db.sqlite3'', db_Flags = {}, WritePoolSize = 1, ReadPoolSize = 16\<rparr>,
        prepareConnQueries = None, connPools = [], writePool = Some 0, readPool = Some 1, engine = t, releases = []\<rparr>\<rparr>"

lemma demo_store_simps [simp]: "opened (demo_store t)" "tb id (demo_store t) = t" "AbsoluteTimeout (demo_store t) = 60000000000"
  "Codecs (demo_store t) = [32]"
  by (simp_all add: opened_def demo_store_def tb_def)

definition demo_session :: "string gsession" where
  "demo_session = \<lparr>gs_ID = ''A'', gs_Values = [''user'' \<mapsto> ''admin''], gs_Options = demo_options, gs_IsNew = False,
     gs_name = ''session''\<rparr>"

definition demo_row :: row where
  "demo_row = \<lparr>row_data = ''admin'', row_created = 0, row_modified = 0, row_expires = 60000\<rparr>"

text \<open>Saving the session of the demonstration, at seven milliseconds, succeeds.\<close>

definition demo_request :: "(string \<times> string) list \<Rightarrow> Request" where
  "demo_request cs = \<lparr>r_Cookies = cs, r_Context = Background\<rparr>"

lemma demo_Save:
  "\<exists>ss'. ss_Save demo_cookies demo_engine (\<lambda>i. 7000000) (demo_request []) [] demo_session
      (demo_store [''A'' \<mapsto> demo_row], demo_os None) =
      Some (Inr ((None, demo_session, [\<lparr>ck_Name = ''session'', ck_Value = ''A'', ck_Options = demo_options\<rparr>]), ss', demo_os None)) \<and>
    opened ss' \<and> tb id ss' = [''A'' \<mapsto> demo_row\<lparr>row_modified := 7\<rparr>] \<and> prepareConnQueries (ss_db ss') = None"
  using queries_neq [THEN not_sym]
  by (simp add: ss_Save_def demo_session_def demo_options_def modifiedSession_def demo_cookies_def UpdateSession_def
      ExecuteUpdate_def with_writer_def AcquireWriter_def acquire_def db_prepare_def conn_ExecuteUpdate_def Execute_def
      demo_engine_def demo_exec_def demo_store_def set_session_cookie_def newUpdate_def zeroSession_def go_return_def
      ReleaseWriter_def set_db_def opened_def tb_def sql_update_def demo_row_def UnixMilli_def)

lemma demo_GetSession:
  assumes "opened ss" and "prepareConnQueries (ss_db ss) = None" and "i \<noteq> []" and "tb id ss i = Some row"
  shows "\<exists>ss'. GetSession demo_engine ctx i ss = Some (Inr (Inr (row_session i row), ss'))"
  using assms queries_neq [THEN not_sym]
  by (auto simp: GetSession_def ExecuteSelection_def AcquireReader_def acquire_def
        db_prepare_def conn_ExecuteSelection_def Execute_def demo_engine_def demo_exec_def newSessionSelection_def
        sql_select_def selector_Step_def newSessionsSelector_def selector_Sessions_def row_stmt_def row_session_def
        ReleaseReader_def set_db_def opened_def tb_def go_return_def Let_def)

section \<open>Properties\<close>

text \<open>
  A session is accepted only on authentic, live data: when \<^verbatim>\<open>New\<close> returns a session that is not new, the
  request carries a cookie that decodes to its id, the table has a row under that id which has not expired
  at the instant of the call, and the values are the decoded data of that row. \<^verbatim>\<open>New\<close> always returns.
\<close>

theorem New_accepts_live_sessions:
  assumes "sessions_sql S tbl" and "opened ss"
  shows "\<exists>s err ss'. ss_New SC S T r name ss = Some (Inr ((s, err), ss')) \<and>
    (gs_IsNew s \<or> err = None \<and> (\<exists>cookie row.
      map_of (r_Cookies r) name = Some cookie \<and> DecodeID SC (Codecs ss) (T 0) name cookie = (None, gs_ID s) \<and>
      tb tbl ss (gs_ID s) = Some row \<and> T 1 \<le> from_UnixMilli (row_expires row) \<and>
      DecodeValues SC (Codecs ss) (T 2) name (row_data row) Map.empty = (None, gs_Values s)))"
  using ss_New_result [OF assms, of SC T r name] by blast

theorem New_accepts_live_sessions_witness:
  "\<exists>s ss'. ss_New demo_cookies demo_engine (\<lambda>i. 5) \<lparr>r_Cookies = [(''session'', ''A'')], r_Context = Background\<rparr> ''session''
      (demo_store [''A'' \<mapsto> demo_row]) = Some (Inr ((s, None), ss')) \<and> \<not> gs_IsNew s \<and>
    [''A'' \<mapsto> demo_row] (gs_ID s) = Some demo_row"
proof -
  let ?r = "\<lparr>r_Cookies = [(''session'', ''A'')], r_Context = Background\<rparr>"
  obtain s err ss' where n: "ss_New demo_cookies demo_engine (\<lambda>i. 5) ?r ''session'' (demo_store [''A'' \<mapsto> demo_row]) =
      Some (Inr ((s, err), ss'))"
    and acc: "gs_IsNew s \<or> err = None \<and> (\<exists>row. [''A'' \<mapsto> demo_row] (gs_ID s) = Some row)"
    using New_accepts_live_sessions [OF demo_engine_sql, of "demo_store [''A'' \<mapsto> demo_row]" demo_cookies "\<lambda>i. 5" ?r
        "''session''"] by auto
  obtain ss2 where "GetSession demo_engine Background ''A'' (demo_store [''A'' \<mapsto> demo_row]) =
      Some (Inr (Inr (row_session ''A'' demo_row), ss2))"
    using demo_GetSession [of "demo_store [''A'' \<mapsto> demo_row]" "''A''" demo_row Background] by (auto simp: demo_store_def opened_def tb_def)
  then have "\<not> gs_IsNew s"
    using n by (auto simp: ss_New_def demo_cookies_def row_session_def demo_row_def from_UnixMilli_def)
  with n acc show ?thesis by (auto split: if_splits)
qed

text \<open>
  (C7) A session that is gone stays gone, and no session outlives its absolute timeout: over any sequence of
  operations of any requests, stale copies of sessions being saved included, an id that is neither drawn as a new one
  nor given to \<^verbatim>\<open>AddSession\<close> during the run has a row at the end only if it had one at the start, and with the same times of creation and expiration.
\<close>

theorem sessions_not_revived:
  assumes "sessions_sql S tbl" and "opened ss" and "ss_run SC S G (ss, os) (ss', os')"
    and "i \<notin> G" and "tb tbl ss' i = Some row'"
  shows "\<exists>row. tb tbl ss i = Some row \<and> row_created row' = row_created row \<and> row_expires row' = row_expires row"
  using ss_run_rows_kept [OF assms(3,1)] assms(2,4,5) by (simp add: rows_kept_def)

theorem sessions_not_revived_witness:
  "\<exists>ss' os' row'. ss_run demo_cookies demo_engine {} (demo_store [''A'' \<mapsto> demo_row], demo_os None) (ss', os') \<and>
     tb id ss' ''A'' = Some row' \<and> row_modified row' = 7 \<and> row_expires row' = row_expires demo_row"
proof -
  obtain x ss' where save: "ss_Save demo_cookies demo_engine (\<lambda>i. 7000000) (demo_request []) [] demo_session
      (demo_store [''A'' \<mapsto> demo_row], demo_os None) = Some (Inr (x, ss', demo_os None))"
    and row: "tb id ss' ''A'' = Some (demo_row\<lparr>row_modified := 7\<rparr>)"
    using demo_Save by auto
  have "\<not> inserts_new demo_session" by (simp add: inserts_new_def demo_session_def)
  then have run: "ss_run demo_cookies demo_engine {} (demo_store [''A'' \<mapsto> demo_row], demo_os None) (ss', demo_os None)"
    using ss_run.intros(2) [OF ss_run.intros(1) ss_step.intros(2) [OF save]] by simp
  from sessions_not_revived [OF demo_engine_sql demo_store_simps(1) run _ row] run row show ?thesis
    by (fastforce simp: demo_row_def)
qed

text \<open>
  (C33) Invalidation is final: once \<^verbatim>\<open>Invalidate\<close> and \<^verbatim>\<open>Save\<close> of a session have succeeded, no request gets that session
  again, whatever happens in between, as long as its id is neither drawn once more at random nor given to
  \<^verbatim>\<open>AddSession\<close>.
\<close>

theorem invalidated_session_refused:
  assumes "sessions_sql S tbl" and "opened ss"
    and "ss_Save SC S T r w (Invalidate s) (ss, os) = Some (Inr ((None, s', w'), ss1, os1))"
    and "ss_run SC S G (ss1, os1) (ss2, os2)" and "gs_ID s \<notin> G"
  shows "\<exists>s2 err ss3. ss_New SC S T' r' name ss2 = Some (Inr ((s2, err), ss3)) \<and>
    (gs_IsNew s2 \<or> gs_ID s2 \<noteq> gs_ID s)"
proof -
  have "o_MaxAge (gs_Options (Invalidate s)) < 0" by (simp add: Invalidate_def)
  from Save_deletes [OF assms(1,2) this, of SC T r w os] have ss1: "opened ss1" "tb tbl ss1 (gs_ID s) = None"
    using assms(2,3) by (auto simp: same_store_def Invalidate_def)
  then have ss2: "opened ss2" "rows_kept G (tb tbl ss1) (tb tbl ss2)"
    using ss_run_rows_kept [OF assms(4,1)] by simp_all
  with ss1(2) assms(5) have "tb tbl ss2 (gs_ID s) = None"
    by (cases "tb tbl ss2 (gs_ID s)") (auto simp: rows_kept_def)
  then show ?thesis
    using ss_New_result [OF assms(1) ss2(1), of SC T' r' name] by fastforce
qed

theorem invalidated_session_refused_witness:
  "\<exists>ss1 s2 err ss3. ss_Save demo_cookies demo_engine (\<lambda>i. 7000000) (demo_request []) [] (Invalidate demo_session)
      (demo_store [''A'' \<mapsto> demo_row], demo_os None) = Some (Inr ((None, Invalidate demo_session,
        [\<lparr>ck_Name = ''session'', ck_Value = [], ck_Options = gs_Options (Invalidate demo_session)\<rparr>]), ss1, demo_os None)) \<and>
    ss_New demo_cookies demo_engine (\<lambda>i. 8000000) (demo_request [(''session'', ''A'')]) ''session'' ss1 =
      Some (Inr ((s2, err), ss3)) \<and> (gs_IsNew s2 \<or> gs_ID s2 \<noteq> ''A'')"
proof -
  have "\<exists>ss1. ss_Save demo_cookies demo_engine (\<lambda>i. 7000000) (demo_request []) [] (Invalidate demo_session)
      (demo_store [''A'' \<mapsto> demo_row], demo_os None) = Some (Inr ((None, Invalidate demo_session,
        [\<lparr>ck_Name = ''session'', ck_Value = [], ck_Options = gs_Options (Invalidate demo_session)\<rparr>]), ss1, demo_os None))"
    using queries_neq [THEN not_sym]
    by (simp add: ss_Save_def Invalidate_def demo_session_def DeleteSession_def ExecuteDelete_def with_writer_def
        AcquireWriter_def acquire_def db_prepare_def conn_ExecuteDelete_def Execute_def demo_engine_def demo_exec_def
        demo_store_def newDelete_def go_return_def ReleaseWriter_def)
  then obtain ss1 where save: "ss_Save demo_cookies demo_engine (\<lambda>i. 7000000) (demo_request []) [] (Invalidate demo_session)
      (demo_store [''A'' \<mapsto> demo_row], demo_os None) = Some (Inr ((None, Invalidate demo_session,
        [\<lparr>ck_Name = ''session'', ck_Value = [], ck_Options = gs_Options (Invalidate demo_session)\<rparr>]), ss1, demo_os None))" ..
  from invalidated_session_refused [OF demo_engine_sql demo_store_simps(1) save ss_run.intros(1), of "\<lambda>i. 8000000"
      "demo_request [(''session'', ''A'')]" "''session''"] save
  show ?thesis by (auto simp: demo_session_def)
qed

text \<open>What a cookie library promises that decodes at later readings \<open>T'\<close> of the clock what it encoded at \<open>T\<close>.\<close>

definition decodes :: "('k, 'x) securecookie \<Rightarrow> 'k list \<Rightarrow> string \<Rightarrow> (nat \<Rightarrow> time) \<Rightarrow> (nat \<Rightarrow> time) \<Rightarrow> bool" where
  "decodes SC ks name T T' \<longleftrightarrow>
     (\<forall>i y. EncodeID SC ks (T 2) name i = Inr y \<longrightarrow> DecodeID SC ks (T' 0) name y = (None, i)) \<and>
     (\<forall>v y. EncodeValues SC ks (T 0) name v = Inr y \<longrightarrow> DecodeValues SC ks (T' 2) name y Map.empty = (None, v))"

lemma new_session_id_not_empty:
  assumes "GenerateRandomKey 32 os = (Some k, os1)" and "k \<noteq> []"
  shows "new_session_id os = (base32_EncodeToString k, os1)" "base32_EncodeToString k \<noteq> []"
proof -
  show "new_session_id os = (base32_EncodeToString k, os1)" using assms(1) by (simp add: new_session_id_def)
  have "concat (map byte_bits k) \<noteq> []" using assms(2) by (cases k) (simp_all add: byte_bits_def)
  moreover have "b32_groups bs \<noteq> []" if "bs \<noteq> []" for bs using that by (cases bs rule: b32_groups.cases) auto
  ultimately show "base32_EncodeToString k \<noteq> []" by (simp add: base32_EncodeToString_def del: concat_eq_Nil_conv)
qed



text \<open>
  \<^verbatim>\<open>Cleanup\<close> removes exactly the dead sessions: when it succeeds, a row is left if and only if it has not reached its
  expiration and its age is within the store's absolute timeout, all counted in milliseconds. It always
  returns, and an error leaves no row that was not there and removes no live one.
\<close>

theorem Cleanup_removes_dead_sessions:
  assumes "sessions_sql S tbl" and "opened ss"
  shows "\<exists>err ss'. Cleanup S T ctx ss = Some (Inr ((False, err), ss')) \<and>
    (\<forall>i row. tb tbl ss' i = Some row \<longrightarrow> tb tbl ss i = Some row) \<and>
    (\<forall>i row. tb tbl ss i = Some row \<and> UnixMilli (T 0) \<le> row_expires row \<and>
       UnixMilli (T 1) \<le> row_created row + Milliseconds (AbsoluteTimeout ss) \<longrightarrow> tb tbl ss' i = Some row) \<and>
    (err = None \<longrightarrow> (\<forall>i row. tb tbl ss' i = Some row \<longrightarrow> UnixMilli (T 0) \<le> row_expires row \<and>
       UnixMilli (T 1) \<le> row_created row + Milliseconds (AbsoluteTimeout ss)))"
  using Cleanup_result [OF assms, of T ctx]
  by (auto simp: sql_delete_expired_def sql_delete_old_def delete_where_delete_where)
     (auto simp: delete_where_def split: option.splits if_splits)

theorem Cleanup_removes_dead_sessions_witness:
  "\<exists>err ss'. Cleanup demo_engine (\<lambda>i. 8000000) Background (demo_store [''A'' \<mapsto> demo_row]) = Some (Inr ((False, err), ss')) \<and>
     tb id ss' ''A'' = Some demo_row"
proof -
  have "Milliseconds 60000000000 = 60000" by (simp add: Milliseconds_def)
  moreover obtain err ss' where "Cleanup demo_engine (\<lambda>i. 8000000) Background (demo_store [''A'' \<mapsto> demo_row]) =
      Some (Inr ((False, err), ss'))"
    and keep: "\<forall>i row. tb id (demo_store [''A'' \<mapsto> demo_row]) i = Some row \<and> UnixMilli 8000000 \<le> row_expires row \<and>
      UnixMilli 8000000 \<le> row_created row + Milliseconds (AbsoluteTimeout (demo_store [''A'' \<mapsto> demo_row])) \<longrightarrow>
      tb id ss' i = Some row"
    using Cleanup_removes_dead_sessions [OF demo_engine_sql demo_store_simps(1), of "\<lambda>i. 8000000" Background "[''A'' \<mapsto> demo_row]"]
    by blast
  ultimately show ?thesis
    using keep [rule_format, of "''A''" demo_row] by (simp add: demo_row_def UnixMilli_def)
qed

text \<open>
  Only a negative age deletes: a session whose \<^verbatim>\<open>MaxAge\<close> is 0, the value of \<^verbatim>\<open>GetConfig\<close>, keeps its row when it is saved,
  where the comment of \<^verbatim>\<open>Save\<close> says that it is deleted.
\<close>

theorem Save_zero_MaxAge_keeps_row:
  assumes "sessions_sql S tbl" and "opened ss" and "o_MaxAge (gs_Options s) = 0" and "\<not> gs_IsNew s" and "gs_ID s \<noteq> []"
    and "tb tbl ss (gs_ID s) \<noteq> None"
  shows "\<exists>y ss' os'. ss_Save SC S T r w s (ss, os) = Some (Inr (y, ss', os')) \<and> tb tbl ss' (gs_ID s) \<noteq> None"
proof -
  have "0 \<le> o_MaxAge (gs_Options s)" "\<not> inserts_new s" using assms(3-5) by (simp_all add: inserts_new_def)
  from Save_updates [OF assms(1,2) this, of SC T r w os] show ?thesis
    using assms(6) by (auto simp: sql_update_def split: option.splits)
qed

theorem Save_zero_MaxAge_keeps_row_witness:
  "\<exists>y ss' os'. ss_Save demo_cookies demo_engine (\<lambda>i. 7000000) (demo_request []) [] demo_session
     (demo_store [''A'' \<mapsto> demo_row], demo_os None) = Some (Inr (y, ss', os')) \<and> tb id ss' (gs_ID demo_session) \<noteq> None"
  by (rule Save_zero_MaxAge_keeps_row [OF demo_engine_sql demo_store_simps(1)]) (simp_all add: demo_session_def demo_options_def)

text \<open>
  When the source of randomness fails, \<^verbatim>\<open>Save\<close> does not report it: the new session gets the empty id, and if \<^verbatim>\<open>Save\<close>
  succeeds, its row is stored under that id, where no request ever finds it: a cookie with the empty id
  always gives a new session.
\<close>

theorem session_lost_without_randomness:
  assumes "sessions_sql S tbl" and "opened ss" and "inserts_new s" and "GenerateRandomKey 32 os = (None, os1)"
    and "ss_Save SC S T r w s (ss, os) = Some (Inr ((None, s', w'), ss', os'))"
    and "map_of (r_Cookies r') name = Some cookie" and "DecodeID SC (Codecs ss') (T' 0) name cookie = (None, gs_ID s')"
  shows "tb tbl ss' (gs_ID s') \<noteq> None \<and>
    (\<exists>s2 err ss2. ss_New SC S T' r' name ss' = Some (Inr ((s2, err), ss2)) \<and> gs_IsNew s2)"
proof -
  have i: "new_session_id os = ([], os1)"
    using assms(4) by (simp add: new_session_id_def base32_EncodeToString_def)
  from Save_inserts [OF assms(1-3) i, of SC T r w] have ss': "opened ss'" "gs_ID s' = []" "tb tbl ss' [] \<noteq> None"
    using assms(2,5) by (auto simp: same_store_def)
  then show ?thesis
    using ss_New_result [OF assms(1) ss'(1), of SC T' r' name] assms(6,7) by fastforce
qed

theorem session_lost_without_randomness_witness:
  "\<exists>s' w' ss' os'. ss_Save demo_cookies demo_engine (\<lambda>i. 7000000) (demo_request []) [] (demo_session\<lparr>gs_IsNew := True\<rparr>)
      (demo_store Map.empty, (demo_os None)\<lparr>read_random := \<lambda>n r. (None, r)\<rparr>) = Some (Inr ((None, s', w'), ss', os')) \<and>
    tb id ss' (gs_ID s') \<noteq> None \<and>
    (\<exists>s2 err ss2. ss_New demo_cookies demo_engine (\<lambda>i. 8000000) (demo_request [(''session'', [])]) ''session'' ss' =
       Some (Inr ((s2, err), ss2)) \<and> gs_IsNew s2)"
proof -
  let ?os = "(demo_os None)\<lparr>read_random := \<lambda>n r. (None, r)\<rparr> :: nat os"
  have "\<exists>w' ss'. ss_Save demo_cookies demo_engine (\<lambda>i. 7000000) (demo_request []) [] (demo_session\<lparr>gs_IsNew := True\<rparr>)
      (demo_store Map.empty, ?os) = Some (Inr ((None, demo_session\<lparr>gs_IsNew := True, gs_ID := []\<rparr>, w'), ss', ?os))"
    using queries_neq [THEN not_sym]
    by (simp add: ss_Save_def demo_session_def demo_options_def createdSession_def demo_cookies_def AddSession_def
      ExecuteInsertion_def with_writer_def AcquireWriter_def acquire_def db_prepare_def conn_ExecuteInsertion_def Execute_def
      demo_engine_def demo_exec_def demo_store_def set_session_cookie_def newInsertion_def go_return_def
      ReleaseWriter_def set_db_def sql_insert_def new_session_id_def GenerateRandomKey_def base32_EncodeToString_def demo_os_def)
  then obtain w' ss' where save: "ss_Save demo_cookies demo_engine (\<lambda>i. 7000000) (demo_request []) []
      (demo_session\<lparr>gs_IsNew := True\<rparr>) (demo_store Map.empty, ?os) =
      Some (Inr ((None, demo_session\<lparr>gs_IsNew := True, gs_ID := []\<rparr>, w'), ss', ?os))" by blast
  have "tb id ss' (gs_ID (demo_session\<lparr>gs_IsNew := True, gs_ID := []\<rparr>)) \<noteq> None \<and>
    (\<exists>s2 err ss2. ss_New demo_cookies demo_engine (\<lambda>i. 8000000) (demo_request [(''session'', [])]) ''session'' ss' =
       Some (Inr ((s2, err), ss2)) \<and> gs_IsNew s2)"
    by (rule session_lost_without_randomness [OF demo_engine_sql demo_store_simps(1) _ _ save, where cookie = "[]"])
       (simp_all add: inserts_new_def demo_session_def demo_options_def GenerateRandomKey_def demo_os_def demo_cookies_def
        demo_request_def)
  with save show ?thesis by blast
qed

end
