(* ===== verification/SessionClient.thy ===== *)
theory SessionClient
  imports SessionTable
begin

text \<open>
  The session store of an application (\<^verbatim>\<open>src/session/store.go\<close>) relies on the interface of its backing store
  only: a locale states what opening a session promises, the SQLite store provides it.
\<close>

locale session_backing =
  fixes opn :: "(nat \<Rightarrow> time) \<Rightarrow> ('st, 'x) opener"
    and ok :: "'st \<Rightarrow> bool"
    and names :: "'st \<Rightarrow> time \<Rightarrow> string \<Rightarrow> string \<Rightarrow> string \<Rightarrow> bool"
    and live :: "'st \<Rightarrow> time \<Rightarrow> string \<Rightarrow> bool"
  assumes opens: "ok st \<Longrightarrow> \<exists>s err st'. opn T r name st = Some (Inr ((s, err), st')) \<and> ok st'"
    and accepted: "ok st \<Longrightarrow> opn T r name st = Some (Inr ((s, err), st')) \<Longrightarrow> \<not> gs_IsNew s \<Longrightarrow>
      err = None \<and> live st (T 1) (gs_ID s) \<and>
      (\<exists>cookie. map_of (r_Cookies r) name = Some cookie \<and> names st (T 0) name cookie (gs_ID s))"
begin

lemma store_New_returns:
  assumes "ok st" and "bs_New (st_BackingStore store) = opn"
  shows "\<exists>s err st'. store_New T r store st = Some (Inr ((s, err), st')) \<and> ok st' \<and>
    (gs_IsNew s \<or> err = None \<and> live st (T 1) (gs_ID s))"
proof -
  obtain s err st' where o: "opn T r (CookieName (st_Config store)) st = Some (Inr ((s, err), st'))" "ok st'"
    using opens [OF assms(1)] by blast
  then have "gs_IsNew s \<or> err = None \<and> live st (T 1) (gs_ID s)"
    using accepted [OF assms(1)] by blast
  then show ?thesis
    using o assms(2) by (auto simp: store_New_def go_return_def)
qed

lemma store_Lookup_sound:
  assumes "ok st" and "bs_Get (st_BackingStore store) = opn"
    and "\<And>y j. EncodeID SC (st_Codecs store) t (CookieName (st_Config store)) i = Inr y \<Longrightarrow>
      names st (T 0) (CookieName (st_Config store)) y j \<Longrightarrow> j = i"
  shows "\<exists>s err st'. store_Lookup SC T t i store st = Some (Inr ((s, err), st')) \<and> ok st' \<and>
    (\<forall>x. s = Some x \<and> \<not> gs_IsNew x \<longrightarrow> err = None \<and> gs_ID x = i \<and> live st (T 1) i)"
proof (cases "EncodeID SC (st_Codecs store) t (CookieName (st_Config store)) i")
  case (Inl e)
  then show ?thesis using assms(1) by (simp add: store_Lookup_def go_return_def)
next
  case (Inr y)
  let ?r = "\<lparr>r_Cookies = [(CookieName (st_Config store), y)], r_Context = Background\<rparr>"
  obtain s err st' where o: "opn T ?r (CookieName (st_Config store)) st = Some (Inr ((s, err), st'))" "ok st'"
    using opens [OF assms(1)] by blast
  have "err = None \<and> gs_ID s = i \<and> live st (T 1) i" if new: "\<not> gs_IsNew s"
  proof -
    from accepted [OF assms(1) o(1) new] have "err = None" "live st (T 1) (gs_ID s)"
        "names st (T 0) (CookieName (st_Config store)) y (gs_ID s)" by auto
    with assms(3) [OF Inr] show ?thesis by auto
  qed
  then show ?thesis
    using o assms(2) Inr by (auto simp: store_Lookup_def go_return_def)
qed

end

section \<open>The store in memory\<close>

text \<open>
  \<^verbatim>\<open>src/session/memstore/store.go\<close> fills a store from the memory store of a library, of which this is what it uses.
\<close>

record ('st, 'x, 'k) memstore_lib =
  NewMemStore :: "string list \<Rightarrow> 'st"
  set_Options :: "CookieOptions \<Rightarrow> 'st \<Rightarrow> 'st"
  mem_MaxAge :: "int \<Rightarrow> 'st \<Rightarrow> 'st"
  mem_Codecs :: "'st \<Rightarrow> 'k list"
  mem_Store :: "('st, 'x) BackingStore"

definition memstore_NewStore ::
  "('st, 'x, 'k) memstore_lib \<Rightarrow> SessionConfig \<Rightarrow> ('st, 'x, 'k) Store \<times> 'st" where
  "memstore_NewStore M c =
     (let backing = NewMemStore M [AuthKey c, EncryptionKey c];
          backing = set_Options M (CookieOptions_of c) backing;
          backing = mem_MaxAge M (o_MaxAge (CookieOptions_of c)) backing
      in (\<lparr>st_Config = c, st_BackingStore = mem_Store M, st_Codecs = mem_Codecs M backing\<rparr>, backing))"

section \<open>The store in SQLite\<close>

text \<open>The SQLite store, under the library's promise to run its queries.\<close>

definition cookie_names ::
  "('k, 'x) securecookie \<Rightarrow> ('e, 'k) SqliteStore \<Rightarrow> time \<Rightarrow> string \<Rightarrow> string \<Rightarrow> string \<Rightarrow> bool" where
  "cookie_names SC ss t name cookie i \<longleftrightarrow> DecodeID SC (Codecs ss) t name cookie = (None, i)"

definition live_row :: "('e \<Rightarrow> table) \<Rightarrow> ('e, 'k) SqliteStore \<Rightarrow> time \<Rightarrow> string \<Rightarrow> bool" where
  "live_row tbl ss t i \<longleftrightarrow> (\<exists>row. tb tbl ss i = Some row \<and> t \<le> from_UnixMilli (row_expires row))"

definition sound_store :: "'e sqlite \<Rightarrow> ('e \<Rightarrow> table) \<Rightarrow> ('e, 'k) SqliteStore \<Rightarrow> bool" where
  "sound_store S tbl ss \<longleftrightarrow> sessions_sql S tbl \<and> opened ss"

interpretation sq: session_backing "ss_New SC S" "sound_store S tbl" "cookie_names SC" "live_row tbl" 
  for SC :: "('k, 'x) securecookie" and S :: "'e sqlite" and tbl :: "'e \<Rightarrow> table"
proof
  fix st :: "('e, 'k) SqliteStore" and T r name
  assume "sound_store S tbl st"
  then have s: "sessions_sql S tbl" "opened st" by (simp_all add: sound_store_def)
  from ss_New_result [OF this, where SC = SC and T = T and r = r and name = name] show
    "\<exists>s err st'. ss_New SC S T r name st = Some (Inr ((s, err), st')) \<and> sound_store S tbl st'"
    using s by (auto simp: sound_store_def same_store_def)
  fix x err st'
  assume "ss_New SC S T r name st = Some (Inr ((x, err), st'))" "\<not> gs_IsNew x"
  with ss_New_result [OF s, where SC = SC and T = T and r = r and name = name] show "err = None \<and> live_row tbl st (T 1) (gs_ID x) \<and>
      (\<exists>cookie. map_of (r_Cookies r) name = Some cookie \<and> cookie_names SC st (T 0) name cookie (gs_ID x))"
    by (auto simp: live_row_def cookie_names_def)
qed

text \<open>
  (C20) \<^verbatim>\<open>Lookup\<close> finds the session asked for or none: on a store made by \<^verbatim>\<open>NewStore\<close>, it always returns, and a session it
  returns that is not new has the given id, is in the table and has not expired, if the registry of a fresh
  request opens the session by \<^verbatim>\<open>New\<close> and cookies decode to the id they encode.
\<close>

theorem Lookup_finds_live_session:
  assumes "sessions_sql S tbl" and "opened ss" and "\<forall>f r name st. registry f r name st = f r name st"
    and "NewStore registry SC S db c = (store, ss0)"
    and "\<forall>y j. EncodeID SC (st_Codecs store) t (CookieName c) i = Inr y \<and>
      DecodeID SC (Codecs ss) (T 0) (CookieName c) y = (None, j) \<longrightarrow> j = i"
  shows "\<exists>s err ss'. store_Lookup SC T t i store ss = Some (Inr ((s, err), ss')) \<and>
    (\<forall>x. s = Some x \<and> \<not> gs_IsNew x \<longrightarrow> err = None \<and> gs_ID x = i \<and>
       (\<exists>row. tb tbl ss i = Some row \<and> T 1 \<le> from_UnixMilli (row_expires row)))"
proof -
  have "bs_Get (st_BackingStore store) = ss_Get registry SC S" "st_Config store = c"
    using assms(4) by (auto simp: NewStore_def Let_def)
  moreover have "ss_Get registry SC S = ss_New SC S"
    using assms(3) by (simp add: fun_eq_iff ss_Get_def)
  moreover have "sound_store S tbl ss" using assms(1,2) by (simp add: sound_store_def)
  ultimately show ?thesis
    using sq.store_Lookup_sound [where st = ss and store = store and t = t and i = i and T = T and SC = SC and SCa = SC and S = S and tbl = tbl] assms(5)
    by (auto simp: cookie_names_def live_row_def)
qed

definition demo_session_config :: SessionConfig where
  "demo_session_config =
     \<lparr>AuthKey = ''k'', EncryptionKey = ''k'', Timeouts_of = \<lparr>Absolute = 60000000000\<rparr>, CookieOptions_of = demo_options,
      CookieName = ''session'', CSRFOptions_of = \<lparr>HeaderName = [], FieldName = []\<rparr>\<rparr>"

theorem Lookup_finds_live_session_witness:
  "\<exists>s err ss'. store_Lookup demo_cookies (\<lambda>i. 5) 5 ''A''
      (fst (NewStore (\<lambda>f. f) demo_cookies demo_engine (ss_db (demo_store Map.empty)) demo_session_config))
      (demo_store [''A'' \<mapsto> demo_row]) = Some (Inr ((s, err), ss')) \<and>
    (case s of None \<Rightarrow> True | Some x \<Rightarrow> gs_IsNew x \<or> gs_ID x = ''A'')"
  using Lookup_finds_live_session [OF demo_engine_sql, of "demo_store [''A'' \<mapsto> demo_row]" "\<lambda>f. f" demo_cookies
      "ss_db (demo_store Map.empty)" demo_session_config _ _ 5 "''A''" "\<lambda>i. 5", OF _ _ prod.collapse [symmetric]]
  by (fastforce simp: demo_cookies_def split: option.splits)

end
