(* ===== verification/OpaSql.thy ===== *)
theory OpaSql
  imports Prelude
begin

text \<open>
  The translation of Rego queries to SQLite statements (\<^verbatim>\<open>src/opa/sql.go\<close>). Constants of a query are values of
  type \<open>'v\<close>; the expressions of the Open Policy Agent library are given by what the code asks of them.
\<close>

section \<open>Strings\<close>

text \<open>\<^verbatim>\<open>strings.Split\<close> at a separator that is not empty.\<close>

function split_at :: "string \<Rightarrow> string \<Rightarrow> string \<Rightarrow> string list" where
  "split_at sep [] acc = [acc]"
| "split_at sep (c # cs) acc =
     (if sep \<noteq> [] \<and> prefix sep (c # cs) then acc # split_at sep (drop (length sep) (c # cs)) []
      else split_at sep cs (acc @ [c]))"
  by pat_completeness auto
termination
  by (relation "measure (\<lambda>(sep, s, acc). length s)") auto

definition Split :: "string \<Rightarrow> string \<Rightarrow> string list" where
  "Split s sep = split_at sep s []"

fun Join :: "string list \<Rightarrow> string \<Rightarrow> string" where
  "Join [] sep = []"
| "Join [s] sep = s"
| "Join (s # t # ts) sep = s @ sep @ Join (t # ts) sep"

section \<open>Statements\<close>

record 'v WhereClause =
  w_ID :: string
  w_Column :: string
  w_Operator :: string
  w_Value :: "'v option"

definition ParamName :: "'v WhereClause \<Rightarrow> string" where
  "ParamName c = (if w_ID c = [] then w_Column c else ''$'' @ w_ID c @ ''__'' @ w_Column c)"

definition where_String :: "'v WhereClause \<Rightarrow> string" where
  "where_String c = ''('' @ w_Column c @ '' '' @ w_Operator c @ '' '' @ ParamName c @ '')''"

text \<open>A nil value is \<open>None\<close>; the parameters are a map to possibly nil values.\<close>

type_synonym 'v namedParams = "string \<rightharpoonup> 'v option"

definition where_NamedParams :: "'v WhereClause \<Rightarrow> 'v namedParams" where
  "where_NamedParams c = [ParamName c \<mapsto> w_Value c]"

record 'v SelectionStatement =
  sel_Table :: string
  sel_Columns :: string
  WhereConjunction :: "'v WhereClause list"

definition selection_String :: "'v SelectionStatement \<Rightarrow> string" where
  "selection_String s =
     ''select '' @ sel_Columns s @ '' from '' @ sel_Table s @ '' where '' @
     Join (map where_String (WhereConjunction s)) '' and ''"

definition selection_NamedParams :: "'v SelectionStatement \<Rightarrow> 'v namedParams" where
  "selection_NamedParams s = foldl (\<lambda>m c. m ++ where_NamedParams c) Map.empty (WhereConjunction s)"

record 'v ExistsExpression =
  Selection :: "'v SelectionStatement"

definition exists_String :: "'v ExistsExpression \<Rightarrow> string" where
  "exists_String e = ''exists('' @ selection_String (Selection e) @ '')''"

definition exists_NamedParams :: "'v ExistsExpression \<Rightarrow> 'v namedParams" where
  "exists_NamedParams e = selection_NamedParams (Selection e)"

type_synonym 'v ExistsConjunction = "'v ExistsExpression list"

definition conjunction_String :: "'v ExistsConjunction \<Rightarrow> string" where
  "conjunction_String c = Join (map exists_String c) '' and ''"

definition conjunction_NamedParams :: "'v ExistsConjunction \<Rightarrow> 'v namedParams" where
  "conjunction_NamedParams c = foldl (\<lambda>m e. m ++ exists_NamedParams e) Map.empty c"

type_synonym 'v ExistsConjunctionDisjunction = "'v ExistsConjunction list"

definition disjunction_String :: "'v ExistsConjunctionDisjunction \<Rightarrow> string" where
  "disjunction_String d =
     Join (map (\<lambda>e. if length e = 1 then conjunction_String e else ''('' @ conjunction_String e @ '')'') d) '' or ''"

definition disjunction_NamedParams :: "'v ExistsConjunctionDisjunction \<Rightarrow> 'v namedParams" where
  "disjunction_NamedParams d = foldl (\<lambda>m e. m ++ conjunction_NamedParams e) Map.empty d"

record 'v ExistsDNFStatement =
  Disjunction :: "'v ExistsConjunctionDisjunction"
  ResultName :: string

definition statement_String :: "'v ExistsDNFStatement \<Rightarrow> string" where
  "statement_String s = ''select '' @ disjunction_String (Disjunction s) @ '' as '' @ ResultName s"

definition statement_NamedParams :: "'v ExistsDNFStatement \<Rightarrow> 'v namedParams" where
  "statement_NamedParams s = disjunction_NamedParams (Disjunction s)"

section \<open>Parsing\<close>

text \<open>
  An operand is a constant, with what \<^verbatim>\<open>ast.JSON\<close> makes of it, or another term, with its text. \<open>e_Negated\<close> is the
  field of the library's expression that the code does not read.
\<close>

datatype 'v operand = Constant "error + 'v" | Term string

record 'v Expr =
  e_IsCall :: bool
  e_Negated :: bool
  e_Operator :: string
  e_Operands :: "'v operand list"

record selectionTerm =
  SelectionID :: string
  t_Table :: string
  t_Column :: string

record 'v selectionExpression =
  se_Term :: selectionTerm
  se_Where :: "'v WhereClause"

definition operators :: "string \<rightharpoonup> string" where
  "operators = map_of [(''eq'', ''=''), (''equal'', ''=''), (''neq'', ''!=''), (''lt'', ''<''), (''lte'', ''<=''),
     (''gt'', ''>''), (''gte'', ''>='')]"

definition operatorFlips :: "string \<rightharpoonup> string" where
  "operatorFlips = map_of [(''='', ''=''), (''!='', ''!=''), (''<'', ''>''), (''<='', ''>=''), (''>'', ''<''), (''>='', ''<='')]"

definition parseSelectionOperator :: "string \<Rightarrow> error + string" where
  "parseSelectionOperator op =
     (case operators op of None \<Rightarrow> Inl (Errorf ''can't recognize operator: %s'') | Some operator \<Rightarrow> Inr operator)"

definition TrimPrefix :: "string \<Rightarrow> string \<Rightarrow> string" where
  "TrimPrefix s p = (if prefix p s then drop (length p) s else s)"

definition parseSelectionTerm :: "string \<Rightarrow> string \<Rightarrow> error + selectionTerm" where
  "parseSelectionTerm termString dbName =
     (if \<not> prefix (dbName @ ''.'') termString
      then Inl (Errorf ''can't handle termString which is not a database reference: %s'')
      else
        let trimmed = TrimPrefix termString (dbName @ ''.'');
            parts = Split trimmed ''].''
        in if length parts \<noteq> 2 then Inl (Errorf ''can't parse term: %s'')
           else
             let tableParts = Split (parts ! 0) ''[''
             in if length tableParts \<noteq> 2 then Inl (Errorf ''can't parse table reference: %s'')
                else Inr \<lparr>SelectionID = tableParts ! 1, t_Table = tableParts ! 0, t_Column = parts ! 1\<rparr>)"

definition zeroSelection :: "'v selectionExpression" where
  "zeroSelection =
     \<lparr>se_Term = \<lparr>SelectionID = [], t_Table = [], t_Column = []\<rparr>,
      se_Where = \<lparr>w_ID = [], w_Column = [], w_Operator = [], w_Value = None\<rparr>\<rparr>"

text \<open>The loop over the operands; the flag is \<^verbatim>\<open>valueOnLeft\<close>.\<close>

fun parse_operands ::
  "string \<Rightarrow> nat \<Rightarrow> 'v operand list \<Rightarrow> bool \<times> 'v selectionExpression \<Rightarrow> error + bool \<times> 'v selectionExpression" where
  "parse_operands dbName i [] st = Inr st"
| "parse_operands dbName i (Constant v # ts) (valueOnLeft, selection) =
     (case v of
        Inl e \<Rightarrow> Inl (Wrapped ''error converting constant to JSON: %s'' e)
      | Inr v \<Rightarrow>
          parse_operands dbName (Suc i) ts
            (i = 0, selection\<lparr>se_Where := (se_Where selection)\<lparr>w_Value := Some v\<rparr>\<rparr>))"
| "parse_operands dbName i (Term s # ts) (valueOnLeft, selection) =
     (case parseSelectionTerm s dbName of
        Inl e \<Rightarrow> Inl (Wrapped ''can't parse term %f'' e)
      | Inr term \<Rightarrow>
          parse_operands dbName (Suc i) ts
            (valueOnLeft, selection\<lparr>se_Term := term,
               se_Where := (se_Where selection)\<lparr>w_ID := SelectionID term @ ''_'' @ t_Table term, w_Column := t_Column term\<rparr>\<rparr>))"

definition ParseExpression :: "'v Expr \<Rightarrow> string \<Rightarrow> error + 'v selectionExpression" where
  "ParseExpression expr dbName =
     (if length (e_Operands expr) \<noteq> 2 then Inl (Errorf ''can't handle expression with %d operands: %s'')
      else
        (case parseSelectionOperator (e_Operator expr) of
           Inl e \<Rightarrow> Inl (Wrapped ''can't parse expression operator: %s'' e)
         | Inr operator \<Rightarrow>
             (case parse_operands dbName 0 (e_Operands expr)
                 (False, zeroSelection\<lparr>se_Where := (se_Where zeroSelection)\<lparr>w_Operator := operator\<rparr>\<rparr>) of
                Inl e \<Rightarrow> Inl e
              | Inr (valueOnLeft, selection) \<Rightarrow>
                  Inr (case operatorFlips (w_Operator (se_Where selection)) of
                         None \<Rightarrow> selection
                       | Some flipped \<Rightarrow>
                           if valueOnLeft
                           then selection\<lparr>se_Where := (se_Where selection)\<lparr>w_Operator := flipped\<rparr>\<rparr>
                           else selection))))"

text \<open>The map \<^verbatim>\<open>expressions\<close> of \<^verbatim>\<open>ParseQuery\<close>, as a list of its entries.\<close>

definition add_expression ::
  "'v selectionExpression \<Rightarrow> (string \<times> 'v ExistsExpression) list \<Rightarrow> (string \<times> 'v ExistsExpression) list" where
  "add_expression se expressions =
     (let key = w_ID (se_Where se);
          old = (case map_of expressions key of None \<Rightarrow> [] | Some e \<Rightarrow> WhereConjunction (Selection e))
      in AList.update key
           \<lparr>Selection = \<lparr>sel_Table = t_Table (se_Term se), sel_Columns = ''1'', WhereConjunction = old @ [se_Where se]\<rparr>\<rparr>
           expressions)"

fun parse_body ::
  "string \<Rightarrow> 'v Expr list \<Rightarrow> (string \<times> 'v ExistsExpression) list \<Rightarrow> error + (string \<times> 'v ExistsExpression) list" where
  "parse_body dbName [] expressions = Inr expressions"
| "parse_body dbName (expr # exprs) expressions =
     (if \<not> e_IsCall expr then parse_body dbName exprs expressions
      else
        (case ParseExpression expr dbName of
           Inl e \<Rightarrow> Inl (Wrapped ''can't parse expression'' e)
         | Inr se \<Rightarrow> parse_body dbName exprs (add_expression se expressions)))"

text \<open>\<open>ord\<close> is the order in which \<^verbatim>\<open>range\<close> visits the map, which the language leaves open.\<close>

definition ParseQuery ::
  "('v ExistsExpression list \<Rightarrow> 'v ExistsExpression list) \<Rightarrow> 'v Expr list \<Rightarrow> string \<Rightarrow> error + 'v ExistsConjunction" where
  "ParseQuery ord query dbName =
     (case parse_body dbName query [] of
        Inl e \<Rightarrow> Inl e
      | Inr expressions \<Rightarrow> Inr (ord (map snd expressions)))"

fun ParseQueries ::
  "('v ExistsExpression list \<Rightarrow> 'v ExistsExpression list) \<Rightarrow> 'v Expr list list \<Rightarrow> string \<Rightarrow>
   error + 'v ExistsConjunctionDisjunction" where
  "ParseQueries ord [] dbName = Inr []"
| "ParseQueries ord (query # queries) dbName =
     (case ParseQuery ord query dbName of
        Inl e \<Rightarrow> Inl (Wrapped ''can't parse query'' e)
      | Inr conjunction \<Rightarrow>
          (case ParseQueries ord queries dbName of
             Inl e \<Rightarrow> Inl e
           | Inr disjunction \<Rightarrow> Inr (conjunction # disjunction)))"

record SQLiteTranspiler =
  DBName :: string

definition NewSQLiteTranspiler :: "string \<Rightarrow> SQLiteTranspiler" where
  "NewSQLiteTranspiler dbName = \<lparr>DBName = dbName\<rparr>"

definition transpiler_Parse ::
  "('v ExistsExpression list \<Rightarrow> 'v ExistsExpression list) \<Rightarrow> SQLiteTranspiler \<Rightarrow> 'v Expr list list \<Rightarrow>
   error + 'v ExistsDNFStatement" where
  "transpiler_Parse ord t queries =
     (case ParseQueries ord queries (DBName t) of
        Inl e \<Rightarrow> Inl (Wrapped ''can't parse rego queries'' e)
      | Inr d \<Rightarrow> Inr \<lparr>Disjunction = d, ResultName = ''result''\<rparr>)"

section \<open>What statements and queries mean\<close>

text \<open>
  A database maps a table to its rows, and \<open>cmp\<close> compares two values by an operator of SQL. A parameter that
  is missing or nil makes a comparison fail. The meaning is that of the statement as a data structure, which
  \<^verbatim>\<open>String\<close> prints: a disjunction of conjunctions of \<^verbatim>\<open>exists\<close>. The printed text is SQL only if the disjunction is not empty
  and no conjunction in it is, since an empty one prints as nothing or as \<^verbatim>\<open>()\<close>; here they mean false and true.
\<close>

type_synonym 'v relational = "string \<Rightarrow> (string \<Rightarrow> 'v) list"

definition where_holds :: "(string \<Rightarrow> 'v \<Rightarrow> 'v \<Rightarrow> bool) \<Rightarrow> 'v namedParams \<Rightarrow> (string \<Rightarrow> 'v) \<Rightarrow> 'v WhereClause \<Rightarrow> bool" where
  "where_holds cmp params row c =
     (case params (ParamName c) of
        Some (Some v) \<Rightarrow> cmp (w_Operator c) (row (w_Column c)) v
      | _ \<Rightarrow> False)"

definition exists_holds ::
  "(string \<Rightarrow> 'v \<Rightarrow> 'v \<Rightarrow> bool) \<Rightarrow> 'v relational \<Rightarrow> 'v namedParams \<Rightarrow> 'v ExistsExpression \<Rightarrow> bool" where
  "exists_holds cmp db params e =
     (\<exists>row\<in>set (db (sel_Table (Selection e))). \<forall>c\<in>set (WhereConjunction (Selection e)). where_holds cmp params row c)"

definition statement_holds :: "(string \<Rightarrow> 'v \<Rightarrow> 'v \<Rightarrow> bool) \<Rightarrow> 'v relational \<Rightarrow> 'v ExistsDNFStatement \<Rightarrow> bool" where
  "statement_holds cmp db s =
     (\<exists>c\<in>set (Disjunction s). \<forall>e\<in>set c. exists_holds cmp db (statement_NamedParams s) e)"

text \<open>
  The comparisons that the translation is made for: a column of \<open>db.table[x]\<close> with a constant on its right or its
  left. In Rego the variable \<open>x\<close> stands for an index of the table.
\<close>

record 'v comparison =
  co_term :: selectionTerm
  co_op :: string
  co_value :: 'v
  co_left :: bool

definition term_text :: "string \<Rightarrow> selectionTerm \<Rightarrow> string" where
  "term_text dbName t = dbName @ ''.'' @ t_Table t @ ''['' @ SelectionID t @ ''].'' @ t_Column t"

definition expr_of :: "string \<Rightarrow> 'v comparison \<Rightarrow> 'v Expr" where
  "expr_of dbName c =
     \<lparr>e_IsCall = True, e_Negated = False, e_Operator = co_op c,
      e_Operands =
        (if co_left c then [Constant (Inr (co_value c)), Term (term_text dbName (co_term c))]
         else [Term (term_text dbName (co_term c)), Constant (Inr (co_value c))])\<rparr>"

definition comparison_holds :: "(string \<Rightarrow> 'v \<Rightarrow> 'v \<Rightarrow> bool) \<Rightarrow> (string \<Rightarrow> 'v) \<Rightarrow> 'v comparison \<Rightarrow> bool" where
  "comparison_holds cmp row c =
     (let op = the (operators (co_op c)); x = row (t_Column (co_term c))
      in if co_left c then cmp op (co_value c) x else cmp op x (co_value c))"

definition body_holds :: "(string \<Rightarrow> 'v \<Rightarrow> 'v \<Rightarrow> bool) \<Rightarrow> 'v relational \<Rightarrow> 'v comparison list \<Rightarrow> bool" where
  "body_holds cmp db body =
     (\<exists>\<sigma> :: string \<Rightarrow> nat. \<forall>c\<in>set body.
        let rows = db (t_Table (co_term c)); i = \<sigma> (SelectionID (co_term c))
        in i < length rows \<and> comparison_holds cmp (rows ! i) c)"

definition comparison_ok :: "'v comparison \<Rightarrow> bool" where
  "comparison_ok c \<longleftrightarrow>
     operators (co_op c) \<noteq> None \<and> SelectionID (co_term c) \<noteq> [] \<and>
     {CHR ''['', CHR '']''} \<inter> (set (t_Table (co_term c)) \<union> set (SelectionID (co_term c))) = {} \<and>
     CHR '']'' \<notin> set (t_Column (co_term c))"

definition key_of :: "'v comparison \<Rightarrow> string" where
  "key_of c = SelectionID (co_term c) @ ''_'' @ t_Table (co_term c)"

definition clause_of :: "'v comparison \<Rightarrow> 'v WhereClause" where
  "clause_of c =
     \<lparr>w_ID = key_of c, w_Column = t_Column (co_term c),
      w_Operator = (let op = the (operators (co_op c)) in if co_left c then the (operatorFlips op) else op),
      w_Value = Some (co_value c)\<rparr>"

text \<open>
  Each variable indexes one table, and different variables have different keys; no two comparisons of the
  queries share a parameter name with different values.
\<close>

definition variables_separate :: "'v comparison list \<Rightarrow> bool" where
  "variables_separate body \<longleftrightarrow>
     (\<forall>c\<in>set body. \<forall>d\<in>set body.
        (key_of c = key_of d \<longleftrightarrow> SelectionID (co_term c) = SelectionID (co_term d)) \<and>
        (SelectionID (co_term c) = SelectionID (co_term d) \<longrightarrow> t_Table (co_term c) = t_Table (co_term d)))"

definition parameters_agree :: "'v comparison list list \<Rightarrow> bool" where
  "parameters_agree bodies \<longleftrightarrow>
     (\<forall>c\<in>set (concat bodies). \<forall>d\<in>set (concat bodies).
        ParamName (clause_of c) = ParamName (clause_of d) \<longrightarrow> co_value c = co_value d)"

definition cmp_flips :: "(string \<Rightarrow> 'v \<Rightarrow> 'v \<Rightarrow> bool) \<Rightarrow> bool" where
  "cmp_flips cmp \<longleftrightarrow> (\<forall>op op' x y. operatorFlips op = Some op' \<longrightarrow> cmp op' y x = cmp op x y)"

section \<open>Facts\<close>

lemma split_at_skip: "sep \<noteq> [] \<Longrightarrow> hd sep \<notin> set xs \<Longrightarrow> split_at sep (xs @ ys) acc = split_at sep ys (acc @ xs)"
proof (induction xs arbitrary: acc)
  case (Cons x xs)
  then have "\<not> prefix sep (x # xs @ ys)" by (cases sep) auto
  with Cons show ?case by simp
qed simp

lemma split_at_sep: "sep \<noteq> [] \<Longrightarrow> split_at sep (sep @ ys) acc = acc # split_at sep ys []"
  by (cases sep) auto

lemma Split_two:
  assumes "sep \<noteq> []" and "hd sep \<notin> set xs" and "hd sep \<notin> set ys"
  shows "Split (xs @ sep @ ys) sep = [xs, ys]"
  using split_at_skip [OF assms(1,2), of "sep @ ys" "[]"] split_at_sep [OF assms(1)]
    split_at_skip [OF assms(1,3), of "[]" "[]"]
  by (simp add: Split_def)

lemma parse_term_text:
  assumes "comparison_ok c"
  shows "parseSelectionTerm (term_text dbName (co_term c)) dbName = Inr (co_term c)"
proof -
  let ?t = "co_term c"
  have 1: "Split ((t_Table ?t @ ''['' @ SelectionID ?t) @ ''].'' @ t_Column ?t) ''].'' =
      [t_Table ?t @ ''['' @ SelectionID ?t, t_Column ?t]"
    by (rule Split_two) (use assms in \<open>auto simp: comparison_ok_def\<close>)
  have 2: "Split (t_Table ?t @ ''['' @ SelectionID ?t) ''['' = [t_Table ?t, SelectionID ?t]"
    by (rule Split_two) (use assms in \<open>auto simp: comparison_ok_def\<close>)
  show ?thesis
    using 1 2 by (simp add: parseSelectionTerm_def term_text_def TrimPrefix_def)
qed

lemma flips_operators: "operators op = Some o' \<Longrightarrow> operatorFlips o' \<noteq> None"
  by (auto simp: operators_def operatorFlips_def split: if_splits)

lemma ParseExpression_expr_of:
  assumes "comparison_ok c"
  shows "ParseExpression (expr_of dbName c) dbName = Inr \<lparr>se_Term = co_term c, se_Where = clause_of c\<rparr>"
proof -
  obtain op where op: "operators (co_op c) = Some op" using assms by (auto simp: comparison_ok_def)
  then obtain fl where "operatorFlips op = Some fl" using flips_operators by blast
  with op show ?thesis
    by (simp add: ParseExpression_def expr_of_def parseSelectionOperator_def parse_term_text [OF assms] zeroSelection_def
        clause_of_def key_of_def)
qed

definition se_of :: "'v comparison \<Rightarrow> 'v selectionExpression" where
  "se_of c = \<lparr>se_Term = co_term c, se_Where = clause_of c\<rparr>"

lemma parse_body_exprs:
  "\<forall>c\<in>set body. comparison_ok c \<Longrightarrow>
   parse_body dbName (map (expr_of dbName) body) es = Inr (fold (\<lambda>c. add_expression (se_of c)) body es)"
proof (induction body arbitrary: es)
  case (Cons c body)
  have "e_IsCall (expr_of dbName c)" by (simp add: expr_of_def)
  then show ?case using Cons ParseExpression_expr_of [of c dbName] by (simp add: se_of_def)
qed simp

text \<open>The entry of a key: the clauses of the comparisons with that key, in their order.\<close>

definition entry :: "'v comparison list \<Rightarrow> 'v ExistsExpression" where
  "entry cs =
     \<lparr>Selection = \<lparr>sel_Table = t_Table (co_term (last cs)), sel_Columns = ''1'', WhereConjunction = map clause_of cs\<rparr>\<rparr>"

lemma fold_add_expression:
  "map_of (fold (\<lambda>c. add_expression (se_of c)) body []) k =
     (let cs = filter (\<lambda>c. key_of c = k) body in if cs = [] then None else Some (entry cs)) \<and>
   distinct (map fst (fold (\<lambda>c. add_expression (se_of c)) body []))"
proof (induction body arbitrary: k rule: rev_induct)
  case (snoc c body)
  have "w_ID (clause_of c) = key_of c" by (simp add: clause_of_def)
  then show ?case
    using snoc
    by (auto simp: add_expression_def se_of_def Let_def update_conv' entry_def distinct_keys_update)
qed simp

text \<open>A parameter map has the names of a set of clauses, each with the value of one of them.\<close>

definition from_clauses :: "'v namedParams \<Rightarrow> 'v WhereClause set \<Rightarrow> bool" where
  "from_clauses m C \<longleftrightarrow> dom m = ParamName ` C \<and> (\<forall>k v. m k = Some v \<longrightarrow> (\<exists>c\<in>C. ParamName c = k \<and> w_Value c = v))"

lemma from_clauses_add: "from_clauses m C \<Longrightarrow> from_clauses m' C' \<Longrightarrow> from_clauses (m ++ m') (C \<union> C')"
  by (force simp: from_clauses_def map_add_Some_iff)

lemma from_clauses_foldl:
  assumes "from_clauses m C" and "\<And>x. from_clauses (f x) (g x)"
  shows "from_clauses (foldl (\<lambda>m x. m ++ f x) m xs) (C \<union> (\<Union>x\<in>set xs. g x))"
  using assms(1)
proof (induction xs arbitrary: m C)
  case (Cons x xs)
  from Cons.IH [OF from_clauses_add [OF Cons.prems assms(2)]] show ?case by (simp add: Un_assoc)
qed simp

definition clauses_of :: "'v ExistsExpression \<Rightarrow> 'v WhereClause set" where
  "clauses_of e = set (WhereConjunction (Selection e))"

lemma statement_params: "from_clauses (statement_NamedParams s) (\<Union>c\<in>set (Disjunction s). \<Union>e\<in>set c. clauses_of e)"
proof -
  have empty: "from_clauses Map.empty {}" by (simp add: from_clauses_def)
  have "from_clauses (where_NamedParams c) {c}" for c :: "'a WhereClause"
    by (auto simp: from_clauses_def where_NamedParams_def)
  from from_clauses_foldl [OF empty, where f = where_NamedParams and g = "\<lambda>c. {c}", OF this] have "from_clauses (exists_NamedParams e) (clauses_of e)" for e :: "'a ExistsExpression"
    by (simp add: exists_NamedParams_def selection_NamedParams_def clauses_of_def)
  from from_clauses_foldl [OF empty, where f = exists_NamedParams and g = clauses_of, OF this] have "from_clauses (conjunction_NamedParams c) (\<Union>e\<in>set c. clauses_of e)"
    for c :: "'a ExistsConjunction"
    by (simp add: conjunction_NamedParams_def)
  from from_clauses_foldl [OF empty, where f = conjunction_NamedParams and g = "\<lambda>c. \<Union>e\<in>set c. clauses_of e", OF this]
  show ?thesis
    by (simp add: statement_NamedParams_def disjunction_NamedParams_def)
qed

lemma clause_holds_iff:
  assumes "comparison_ok c" and "cmp_flips cmp" and "params (ParamName (clause_of c)) = Some (Some (co_value c))"
  shows "where_holds cmp params row (clause_of c) \<longleftrightarrow> comparison_holds cmp row c"
proof -
  obtain op where "operators (co_op c) = Some op" using assms(1) by (auto simp: comparison_ok_def)
  with flips_operators obtain fl where op: "operators (co_op c) = Some op" "operatorFlips op = Some fl" by blast
  then have "cmp fl y x = cmp op x y" for x y using assms(2) by (auto simp: cmp_flips_def)
  then show ?thesis
    using op assms(3) by (simp add: where_holds_def comparison_holds_def) (simp add: clause_of_def)
qed

text \<open>The expressions of one query: one for each key.\<close>

definition entries :: "'v comparison list \<Rightarrow> 'v ExistsExpression set" where
  "entries body = {entry (filter (\<lambda>d. key_of d = key_of c) body) | c. c \<in> set body}"

lemma parsed_entries: "snd ` set (fold (\<lambda>c. add_expression (se_of c)) body []) = entries body"
proof -
  let ?es = "fold (\<lambda>c. add_expression (se_of c)) body []"
  have keys: "distinct (map fst ?es)" using fold_add_expression by blast
  have look: "map_of ?es k = (if \<exists>c\<in>set body. key_of c = k then Some (entry (filter (\<lambda>c. key_of c = k) body)) else None)" for k
    using fold_add_expression [of body k] by (simp add: Let_def filter_empty_conv)
  have "e \<in> snd ` set ?es \<longleftrightarrow> (\<exists>k. map_of ?es k = Some e)" for e
    using map_of_eq_Some_iff [OF keys] by force
  then have "e \<in> snd ` set ?es \<longleftrightarrow> (\<exists>k. (\<exists>c\<in>set body. key_of c = k) \<and> e = entry (filter (\<lambda>c. key_of c = k) body))" for e
    unfolding look by (simp split: if_splits) metis
  then show ?thesis
    unfolding entries_def by blast
qed

lemma entry_holds_iff:
  assumes "variables_separate body" and c: "c \<in> set body"
    and clause: "\<And>c row. c \<in> set body \<Longrightarrow> where_holds cmp params row (clause_of c) \<longleftrightarrow> comparison_holds cmp row c"
  shows "exists_holds cmp db params (entry (filter (\<lambda>d. key_of d = key_of c) body)) \<longleftrightarrow>
      (\<exists>i < length (db (t_Table (co_term c))). \<forall>d\<in>set body. SelectionID (co_term d) = SelectionID (co_term c) \<longrightarrow>
         comparison_holds cmp (db (t_Table (co_term c)) ! i) d)"
proof -
  let ?cs = "filter (\<lambda>d. key_of d = key_of c) body"
  have "?cs \<noteq> []" using c by (auto simp: filter_empty_conv)
  then have "last ?cs \<in> set ?cs" by (rule last_in_set)
  then have last: "last ?cs \<in> set body" "key_of (last ?cs) = key_of c" by simp_all
  have key: "key_of d = key_of c \<longleftrightarrow> SelectionID (co_term d) = SelectionID (co_term c)" if "d \<in> set body" for d
    using assms(1) c that unfolding variables_separate_def by blast
  then have tab: "t_Table (co_term (last ?cs)) = t_Table (co_term c)"
    using assms(1) c last unfolding variables_separate_def by metis
  let ?rows = "db (t_Table (co_term c))"
  have "exists_holds cmp db params (entry ?cs) \<longleftrightarrow>
      (\<exists>row\<in>set ?rows. \<forall>d\<in>set body. SelectionID (co_term d) = SelectionID (co_term c) \<longrightarrow> comparison_holds cmp row d)"
    unfolding exists_holds_def entry_def by (simp add: tab key clause cong: conj_cong) blast
  also have "\<dots> \<longleftrightarrow> (\<exists>i < length ?rows. \<forall>d\<in>set body. SelectionID (co_term d) = SelectionID (co_term c) \<longrightarrow>
      comparison_holds cmp (?rows ! i) d)"
    by (metis in_set_conv_nth)
  finally show ?thesis .
qed

lemma entries_hold_iff:
  assumes "variables_separate body"
    and clause: "\<And>c row. c \<in> set body \<Longrightarrow> where_holds cmp params row (clause_of c) \<longleftrightarrow> comparison_holds cmp row c"
  shows "(\<forall>e\<in>entries body. exists_holds cmp db params e) \<longleftrightarrow> body_holds cmp db body"
proof -
  have entry_holds: "exists_holds cmp db params (entry (filter (\<lambda>d. key_of d = key_of c) body)) \<longleftrightarrow>
      (\<exists>i < length (db (t_Table (co_term c))). \<forall>d\<in>set body. SelectionID (co_term d) = SelectionID (co_term c) \<longrightarrow>
         comparison_holds cmp (db (t_Table (co_term c)) ! i) d)" if "c \<in> set body" for c
    by (rule entry_holds_iff [OF assms(1) that clause])
  have table: "t_Table (co_term d) = t_Table (co_term c)"
    if "c \<in> set body" "d \<in> set body" "SelectionID (co_term d) = SelectionID (co_term c)" for c d
    using assms(1) that unfolding variables_separate_def by blast
  show ?thesis
  proof
    assume all: "\<forall>e\<in>entries body. exists_holds cmp db params e"
    have "\<exists>i. \<forall>c\<in>set body. SelectionID (co_term c) = x \<longrightarrow>
        i < length (db (t_Table (co_term c))) \<and> comparison_holds cmp (db (t_Table (co_term c)) ! i) c" for x
    proof (cases "\<exists>c\<in>set body. SelectionID (co_term c) = x")
      case True
      then obtain c where c: "c \<in> set body" "SelectionID (co_term c) = x" by auto
      with all have "exists_holds cmp db params (entry (filter (\<lambda>d. key_of d = key_of c) body))" by (auto simp: entries_def)
      with entry_holds [OF c(1)] obtain i where i: "i < length (db (t_Table (co_term c)))"
          "\<And>d. d \<in> set body \<Longrightarrow> SelectionID (co_term d) = SelectionID (co_term c) \<Longrightarrow>
             comparison_holds cmp (db (t_Table (co_term c)) ! i) d"
        by blast
      show ?thesis by (rule exI [of _ i]) (use i c table in metis)
    qed auto
    then show "body_holds cmp db body" unfolding body_holds_def Let_def by metis
  next
    assume "body_holds cmp db body"
    then obtain \<sigma> where s: "\<And>c. c \<in> set body \<Longrightarrow> \<sigma> (SelectionID (co_term c)) < length (db (t_Table (co_term c))) \<and>
        comparison_holds cmp (db (t_Table (co_term c)) ! \<sigma> (SelectionID (co_term c))) c"
      unfolding body_holds_def Let_def by blast
    have "exists_holds cmp db params (entry (filter (\<lambda>d. key_of d = key_of c) body))" if c: "c \<in> set body" for c
      unfolding entry_holds [OF c]
    proof (intro exI [of _ "\<sigma> (SelectionID (co_term c))"] conjI ballI impI)
      show "\<sigma> (SelectionID (co_term c)) < length (db (t_Table (co_term c)))" using s [OF c] by blast
      fix d
      assume "d \<in> set body" "SelectionID (co_term d) = SelectionID (co_term c)"
      with s [of d] table [OF c] show "comparison_holds cmp (db (t_Table (co_term c)) ! \<sigma> (SelectionID (co_term c))) d" by simp
    qed
    then show "\<forall>e\<in>entries body. exists_holds cmp db params e"
      unfolding entries_def by blast
  qed
qed

lemma entries_clauses: "(\<Union>e\<in>entries body. clauses_of e) = clause_of ` set body"
  by (auto simp: entries_def entry_def clauses_of_def)

lemma ParseQuery_exprs:
  assumes "\<forall>c\<in>set body. comparison_ok c" and "\<forall>es. set (ord es) = set es"
  shows "\<exists>conj. ParseQuery ord (map (expr_of dbName) body) dbName = Inr conj \<and> set conj = entries body"
  using parse_body_exprs [OF assms(1), of dbName "[]"] assms(2) parsed_entries [of body]
  by (simp add: ParseQuery_def)

lemma ParseQueries_exprs:
  assumes "\<forall>body\<in>set bodies. \<forall>c\<in>set body. comparison_ok c" and "\<forall>es. set (ord es) = set es"
  shows "\<exists>disj. ParseQueries ord (map (map (expr_of dbName)) bodies) dbName = Inr disj \<and>
    list_all2 (\<lambda>conj body. set conj = entries body) disj bodies"
  using assms(1)
proof (induction bodies)
  case (Cons body bodies)
  then obtain disj where "ParseQueries ord (map (map (expr_of dbName)) bodies) dbName = Inr disj"
      "list_all2 (\<lambda>conj body. set conj = entries body) disj bodies" by auto
  moreover obtain conj where "ParseQuery ord (map (expr_of dbName) body) dbName = Inr conj" "set conj = entries body"
    using ParseQuery_exprs [of body ord dbName] Cons.prems assms(2) by auto
  ultimately show ?case by simp
qed simp

lemma list_all2_ex: "list_all2 (\<lambda>x y. P x \<longleftrightarrow> Q y) xs ys \<Longrightarrow> (\<exists>x\<in>set xs. P x) \<longleftrightarrow> (\<exists>y\<in>set ys. Q y)"
  by (induction rule: list_all2_induct) auto

lemma parsed_params:
  assumes "list_all2 (\<lambda>conj body. set conj = entries body) (Disjunction s) bodies" and "parameters_agree bodies"
    and "body \<in> set bodies" and "c \<in> set body"
  shows "statement_NamedParams s (ParamName (clause_of c)) = Some (Some (co_value c))"
proof -
  have "(\<Union>conj\<in>set (Disjunction s). \<Union>e\<in>set conj. clauses_of e) = (\<Union>body\<in>set bodies. clause_of ` set body)"
    using assms(1) by (induction rule: list_all2_induct) (simp_all add: entries_clauses)
  then have all: "(\<Union>conj\<in>set (Disjunction s). \<Union>e\<in>set conj. clauses_of e) = clause_of ` set (concat bodies)" by auto
  have fc: "from_clauses (statement_NamedParams s) (clause_of ` set (concat bodies))"
    using statement_params [of s] by (simp only: all)
  have c: "c \<in> set (concat bodies)" using assms(3,4) by auto
  then have "ParamName (clause_of c) \<in> dom (statement_NamedParams s)" using fc unfolding from_clauses_def by blast
  then obtain v where v: "statement_NamedParams s (ParamName (clause_of c)) = Some v" by auto
  then obtain d where d: "d \<in> set (concat bodies)" "ParamName (clause_of d) = ParamName (clause_of c)" "w_Value (clause_of d) = v"
    using fc unfolding from_clauses_def by blast
  then have "co_value d = co_value c" using assms(2) c unfolding parameters_agree_def by blast
  then show ?thesis using v d(3) by (simp add: clause_of_def)
qed

lemma transpiled_statement_correct_of:
  assumes "\<forall>body\<in>set bodies. variables_separate body \<and> (\<forall>c\<in>set body. comparison_ok c)"
    and "parameters_agree bodies" and "cmp_flips cmp" and "\<forall>es. set (ord es) = set es"
  shows "\<exists>s. transpiler_Parse ord (NewSQLiteTranspiler dbName) (map (map (expr_of dbName)) bodies) = Inr s \<and>
    (statement_holds cmp db s \<longleftrightarrow> (\<exists>body\<in>set bodies. body_holds cmp db body)) \<and>
    ([] \<in> set (Disjunction s) \<longleftrightarrow> [] \<in> set bodies)"
proof -
  obtain disj where disj: "ParseQueries ord (map (map (expr_of dbName)) bodies) dbName = Inr disj"
      "list_all2 (\<lambda>conj body. set conj = entries body) disj bodies"
    using ParseQueries_exprs [of bodies ord dbName] assms(1,4) by blast
  let ?s = "\<lparr>Disjunction = disj, ResultName = ''result''\<rparr>"
  have "(\<forall>e\<in>entries body. exists_holds cmp db (statement_NamedParams ?s) e) \<longleftrightarrow> body_holds cmp db body"
    if "body \<in> set bodies" for body
  proof (rule entries_hold_iff)
    show "variables_separate body" using assms(1) that by blast
    fix c row
    assume c: "c \<in> set body"
    have "statement_NamedParams ?s (ParamName (clause_of c)) = Some (Some (co_value c))"
      using parsed_params [of ?s, OF _ assms(2) that c] disj(2) by simp
    then show "where_holds cmp (statement_NamedParams ?s) row (clause_of c) \<longleftrightarrow> comparison_holds cmp row c"
      using clause_holds_iff [OF _ assms(3)] assms(1) that c by blast
  qed
  then have "list_all2 (\<lambda>conj body. (\<forall>e\<in>set conj. exists_holds cmp db (statement_NamedParams ?s) e) \<longleftrightarrow> body_holds cmp db body)
      disj bodies"
    using disj(2) by (simp add: list_all2_conv_all_nth)
  moreover have "list_all2 (\<lambda>conj body. conj = [] \<longleftrightarrow> body = []) disj bodies"
  proof (rule list_all2_mono [OF disj(2)])
    fix conj :: "'a ExistsConjunction" and body :: "'a comparison list"
    assume "set conj = entries body"
    then show "conj = [] \<longleftrightarrow> body = []" by (cases conj; cases body) (auto simp: entries_def)
  qed
  ultimately show ?thesis
    using list_all2_ex [of "\<lambda>conj. \<forall>e\<in>set conj. exists_holds cmp db (statement_NamedParams ?s) e" "body_holds cmp db" disj bodies]
      list_all2_ex [of "\<lambda>conj. conj = []" "\<lambda>body. body = []" disj bodies] disj(1) by (simp add: transpiler_Parse_def NewSQLiteTranspiler_def statement_holds_def)
qed

section \<open>A database to run on\<close>

text \<open>Posts with a state; equality and difference of strings are compared, no order.\<close>

definition demo_cmp :: "string \<Rightarrow> string \<Rightarrow> string \<Rightarrow> bool" where
  "demo_cmp op x y = (if op = ''='' then x = y else if op = ''!='' then x \<noteq> y else False)"

lemma demo_cmp_flips: "cmp_flips demo_cmp"
  by (auto simp: cmp_flips_def demo_cmp_def operatorFlips_def split: if_splits)

definition demo_posts :: "string relational" where
  "demo_posts t = (if t = ''posts'' then [\<lambda>c. if c = ''state'' then ''draft'' else []] else [])"

definition state_is :: "string \<Rightarrow> string \<Rightarrow> string comparison" where
  "state_is op v = \<lparr>co_term = \<lparr>SelectionID = ''x'', t_Table = ''posts'', t_Column = ''state''\<rparr>, co_op = op, co_value = v,
     co_left = True\<rparr>"

lemma state_is_ok: "op \<in> {''eq'', ''neq''} \<Longrightarrow> comparison_ok (state_is op v)"
  by (auto simp: comparison_ok_def state_is_def operators_def)

lemma state_is_holds:
  "body_holds demo_cmp demo_posts body \<longleftrightarrow> (\<forall>c\<in>set body. comparison_holds demo_cmp (\<lambda>c. if c = ''state'' then ''draft'' else []) c)"
  if "\<forall>c\<in>set body. \<exists>op v. c = state_is op v"
proof
  assume "\<forall>c\<in>set body. comparison_holds demo_cmp (\<lambda>c. if c = ''state'' then ''draft'' else []) c"
  then show "body_holds demo_cmp demo_posts body"
    unfolding body_holds_def using that by (intro exI [of _ "\<lambda>_. 0"]) (auto simp: demo_posts_def state_is_def Let_def)
next
  assume "body_holds demo_cmp demo_posts body"
  then obtain \<sigma> where s: "\<And>c. c \<in> set body \<Longrightarrow> \<sigma> (SelectionID (co_term c)) < length (demo_posts (t_Table (co_term c))) \<and>
      comparison_holds demo_cmp (demo_posts (t_Table (co_term c)) ! \<sigma> (SelectionID (co_term c))) c"
    unfolding body_holds_def Let_def by blast
  show "\<forall>c\<in>set body. comparison_holds demo_cmp (\<lambda>c. if c = ''state'' then ''draft'' else []) c"
  proof
    fix c
    assume c: "c \<in> set body"
    with that have "t_Table (co_term c) = ''posts''" by (auto simp: state_is_def)
    with s [OF c] show "comparison_holds demo_cmp (\<lambda>c. if c = ''state'' then ''draft'' else []) c"
      by (simp add: demo_posts_def) (elim conjE, simp)
  qed
qed

section \<open>Properties\<close>

text \<open>
  (C5) The statement decides the policy: for queries of comparisons between columns and constants, the translation
  succeeds, and the SQL statement, by the meaning of its parts and with its named parameters, holds in a database
  exactly if one of the Rego queries does, whatever order the map is visited in, provided that in each query every
  variable indexes one table and different variables have different keys, that every comparison has a known operator
  and names without brackets, that no two comparisons share a parameter name with different values, and that the
  comparison of SQL respects turning an operator around.
\<close>

theorem transpiled_statement_correct:
  assumes "\<forall>body\<in>set bodies. variables_separate body \<and> (\<forall>c\<in>set body. comparison_ok c)"
    and "parameters_agree bodies" and "cmp_flips cmp" and "\<forall>es. set (ord es) = set es"
  shows "\<exists>s. transpiler_Parse ord (NewSQLiteTranspiler dbName) (map (map (expr_of dbName)) bodies) = Inr s \<and>
    (statement_holds cmp db s \<longleftrightarrow> (\<exists>body\<in>set bodies. body_holds cmp db body))"
  using transpiled_statement_correct_of [OF assms] by blast

theorem transpiled_statement_correct_witness:
  "\<exists>s. transpiler_Parse (\<lambda>es. es) (NewSQLiteTranspiler ''db'') [[expr_of ''db'' (state_is ''eq'' ''draft'')]] = Inr s \<and>
     statement_holds demo_cmp demo_posts s"
proof -
  have "body_holds demo_cmp demo_posts [state_is ''eq'' ''draft'']"
    by (subst state_is_holds) (auto simp: comparison_holds_def state_is_def operators_def demo_cmp_def)
  then show ?thesis
    using transpiled_statement_correct [of "[[state_is ''eq'' ''draft'']]" demo_cmp "\<lambda>es. es" "''db''" demo_posts]
    by (auto simp: variables_separate_def parameters_agree_def state_is_ok demo_cmp_flips)
qed

text \<open>
  (C36) Two comparisons of one column share a parameter, and the later value replaces the earlier one: the statement for a
  query with two comparisons of the same column of the same variable, whatever their operators and values, holds exactly
  if the query holds in which the first comparison has the value of the second. So a policy that excludes drafts and
  deleted posts becomes a statement that lets drafts through.
\<close>

theorem sql_parameters_clash:
  assumes "comparison_ok c" and "comparison_ok d" and "co_term c = co_term d" and "cmp_flips cmp"
  shows "\<exists>s. transpiler_Parse (\<lambda>es. es) (NewSQLiteTranspiler dbName) [map (expr_of dbName) [c, d]] = Inr s \<and>
    (statement_holds cmp db s \<longleftrightarrow> body_holds cmp db [c\<lparr>co_value := co_value d\<rparr>, d])"
proof -
  let ?c = "c\<lparr>co_value := co_value d\<rparr>" and ?s = "\<lparr>Disjunction = [[entry [c, d]]], ResultName = ''result''\<rparr>"
  have key: "key_of c = key_of d" "key_of ?c = key_of d" using assms(3) by (simp_all add: key_of_def)
  have id: "w_ID (clause_of x) = key_of x" for x :: "'a comparison" by (simp add: clause_of_def)
  have "fold (\<lambda>c. add_expression (se_of c)) [c, d] [] = [(key_of d, entry [c, d])]"
    by (simp add: add_expression_def se_of_def entry_def id key Let_def)
  then have parse: "transpiler_Parse (\<lambda>es. es) (NewSQLiteTranspiler dbName) [map (expr_of dbName) [c, d]] = Inr ?s"
    using parse_body_exprs [of "[c, d]" dbName "[]"] assms(1,2)
    by (simp add: transpiler_Parse_def NewSQLiteTranspiler_def ParseQuery_def)
  have name: "ParamName (clause_of c) = ParamName (clause_of d)" "ParamName (clause_of ?c) = ParamName (clause_of d)"
    using assms(3) key by (simp_all add: ParamName_def clause_of_def)
  have params: "statement_NamedParams ?s (ParamName (clause_of d)) = Some (Some (co_value d))"
    using name by (simp add: statement_NamedParams_def disjunction_NamedParams_def conjunction_NamedParams_def
        exists_NamedParams_def selection_NamedParams_def where_NamedParams_def entry_def) (simp add: clause_of_def)
  have same: "where_holds cmp p row (clause_of c) = where_holds cmp p row (clause_of ?c)" for p row
  proof -
    have "w_Operator (clause_of ?c) = w_Operator (clause_of c)" "w_Column (clause_of ?c) = w_Column (clause_of c)"
      by (simp_all add: clause_of_def)
    with name show ?thesis by (simp only: where_holds_def)
  qed
  have "comparison_ok ?c" using assms(1) by (simp add: comparison_ok_def)
  then have "where_holds cmp (statement_NamedParams ?s) row (clause_of x) \<longleftrightarrow> comparison_holds cmp row x" if "x \<in> set [?c, d]" for x row
    using that clause_holds_iff [OF _ assms(4), of _ "statement_NamedParams ?s" row] params name assms(2) by auto
  moreover have "variables_separate [?c, d]" using assms(3) key by (simp add: variables_separate_def)
  ultimately have "(\<forall>e\<in>entries [?c, d]. exists_holds cmp db (statement_NamedParams ?s) e) \<longleftrightarrow> body_holds cmp db [?c, d]"
    by (intro entries_hold_iff)
  moreover have "entries [?c, d] = {entry [?c, d]}" by (auto simp: entries_def key)
  moreover have "exists_holds cmp db (statement_NamedParams ?s) (entry [?c, d]) =
      exists_holds cmp db (statement_NamedParams ?s) (entry [c, d])"
    by (simp add: exists_holds_def entry_def same)
  ultimately show ?thesis using parse by (simp add: statement_holds_def)
qed

theorem sql_parameters_clash_witness:
  "\<exists>s. transpiler_Parse (\<lambda>es. es) (NewSQLiteTranspiler ''db'')
       [map (expr_of ''db'') [state_is ''neq'' ''draft'', state_is ''neq'' ''deleted'']] = Inr s \<and>
     statement_holds demo_cmp demo_posts s \<and>
     \<not> body_holds demo_cmp demo_posts [state_is ''neq'' ''draft'', state_is ''neq'' ''deleted'']"
proof -
  have "body_holds demo_cmp demo_posts [state_is ''neq'' ''deleted'', state_is ''neq'' ''deleted'']"
    by (subst state_is_holds) (auto simp: comparison_holds_def state_is_def operators_def demo_cmp_def)
  moreover have "(state_is ''neq'' ''draft'')\<lparr>co_value := co_value (state_is ''neq'' ''deleted'')\<rparr> = state_is ''neq'' ''deleted''"
    "co_term (state_is ''neq'' ''draft'') = co_term (state_is ''neq'' ''deleted'')" by (simp_all add: state_is_def)
  moreover have "\<not> body_holds demo_cmp demo_posts [state_is ''neq'' ''draft'', state_is ''neq'' ''deleted'']"
    by (subst state_is_holds) (auto simp: comparison_holds_def state_is_def operators_def demo_cmp_def)
  ultimately show ?thesis
    using sql_parameters_clash [OF state_is_ok state_is_ok _ demo_cmp_flips, of "''neq''" "''neq''" "''draft''" "''deleted''" "''db''" demo_posts]
    by auto
qed

text \<open>
  Negation is not read: the statement for a negated comparison holds exactly if the comparison itself does.
\<close>

theorem negation_ignored:
  assumes "comparison_ok c" and "cmp_flips cmp"
  shows "\<exists>s. transpiler_Parse (\<lambda>es. es) (NewSQLiteTranspiler dbName) [[(expr_of dbName c)\<lparr>e_Negated := True\<rparr>]] = Inr s \<and>
    (statement_holds cmp db s \<longleftrightarrow> body_holds cmp db [c])"
proof -
  have same: "e_Operands ((expr_of dbName c)\<lparr>e_Negated := True\<rparr>) = e_Operands (expr_of dbName c)"
    "e_Operator ((expr_of dbName c)\<lparr>e_Negated := True\<rparr>) = e_Operator (expr_of dbName c)" by simp_all
  have "ParseExpression ((expr_of dbName c)\<lparr>e_Negated := True\<rparr>) dbName = ParseExpression (expr_of dbName c) dbName"
    by (simp only: ParseExpression_def same)
  moreover have call: "e_IsCall (expr_of dbName c)" by (simp add: expr_of_def)
  ultimately have "transpiler_Parse (\<lambda>es. es) (NewSQLiteTranspiler dbName) [[(expr_of dbName c)\<lparr>e_Negated := True\<rparr>]] =
      transpiler_Parse (\<lambda>es. es) (NewSQLiteTranspiler dbName) (map (map (expr_of dbName)) [[c]])"
    by (simp add: transpiler_Parse_def ParseQuery_def NewSQLiteTranspiler_def call)
  then show ?thesis
    using transpiled_statement_correct_of [of "[[c]]" cmp "\<lambda>es. es" dbName db] assms
    by (fastforce simp: variables_separate_def parameters_agree_def)
qed

theorem negation_ignored_witness:
  "\<exists>s. transpiler_Parse (\<lambda>es. es) (NewSQLiteTranspiler ''db'') [[(expr_of ''db'' (state_is ''eq'' ''draft''))\<lparr>e_Negated := True\<rparr>]] = Inr s \<and>
     (statement_holds demo_cmp demo_posts s \<longleftrightarrow> body_holds demo_cmp demo_posts [state_is ''eq'' ''draft''])"
  by (rule negation_ignored [OF state_is_ok demo_cmp_flips]) simp

end
