(* ===== verification/OpaClient.thy ===== *)
theory OpaClient
  imports OpaSql Database
begin

text \<open>
  The policy client: evaluation of policies (\<^verbatim>\<open>src/opa/client.go\<close>), their input (\<^verbatim>\<open>src/opa/input.go\<close>) and the
  collection of policy modules (\<^verbatim>\<open>src/opa/modules.go\<close>). The Rego evaluator is given by its results; a value of
  type \<open>'j\<close> is a JSON value that the code does not look into.
\<close>

section \<open>Input\<close>

datatype 'j jval = JString string | JBool bool | JMap "(string \<times> 'j jval) list" | JOther 'j | JNull

text \<open>A parsed URL: its text, path and query.\<close>

record 'j ParsedURL =
  u_String :: string
  u_Path :: string
  u_Query :: 'j

record 'j Resource =
  URI :: string
  ParsedURI :: "'j ParsedURL option"

text \<open>\<open>parse\<close> stands for \<^verbatim>\<open>url.ParseRequestURI\<close>.\<close>

definition NewResource :: "(string \<Rightarrow> error + 'j ParsedURL) \<Rightarrow> string \<Rightarrow> 'j Resource" where
  "NewResource parse uri =
     (case parse uri of
        Inl e \<Rightarrow> \<lparr>URI = uri, ParsedURI = None\<rparr>
      | Inr u \<Rightarrow> \<lparr>URI = uri, ParsedURI = Some u\<rparr>)"

definition resource_Map :: "'j Resource \<Rightarrow> (string \<times> 'j jval) list" where
  "resource_Map r =
     (case ParsedURI r of
        None \<Rightarrow> [(''path'', JString (URI r))]
      | Some u \<Rightarrow> [(''uri'', JString (u_String u)), (''path'', JString (u_Path u)), (''query'', JOther (u_Query u))])"

record 'j Operation =
  op_Method :: string
  op_Params :: "'j jval"

definition NewOperation :: "string \<Rightarrow> 'j jval \<Rightarrow> 'j Operation" where
  "NewOperation meth ps = \<lparr>op_Method = meth, op_Params = ps\<rparr>"

definition operation_Map :: "'j Operation \<Rightarrow> (string \<times> 'j jval) list" where
  "operation_Map o1 = [(''method'', JString (op_Method o1)), (''params'', op_Params o1)]"

record 'j Subject =
  Identity :: string
  Authenticated :: bool
  Metadata :: "'j jval"

definition NewSubject :: "string \<Rightarrow> bool \<Rightarrow> 'j Subject" where
  "NewSubject i authenticated = \<lparr>Identity = i, Authenticated = authenticated, Metadata = JNull\<rparr>"

definition subject_Map :: "'j Subject \<Rightarrow> (string \<times> 'j jval) list" where
  "subject_Map s =
     [(''identity'', JString (Identity s)), (''authenticated'', JBool (Authenticated s)), (''metadata'', Metadata s)]"

record 'j Input =
  in_Resource :: "'j Resource"
  in_Operation :: "'j Operation"
  in_Subject :: "'j Subject"
  in_Context :: "'j jval"

definition input_Map :: "'j Input \<Rightarrow> (string \<times> 'j jval) list" where
  "input_Map i =
     [(''resource'', JMap (resource_Map (in_Resource i))), (''operation'', JMap (operation_Map (in_Operation i))),
      (''subject'', JMap (subject_Map (in_Subject i))), (''context'', in_Context i)]"

section \<open>Preparing queries\<close>

text \<open>
  \<open>is_cancel\<close> stands for \<^verbatim>\<open>topdown.IsCancel\<close>; \<open>prepare\<close> makes a prepared query of type \<open>'q\<close> of the options.
  A query and the other options are lists of the values of a type \<open>'o\<close>.
\<close>

definition makeOptions :: "(string \<Rightarrow> 'o) \<Rightarrow> string \<Rightarrow> 'o list \<Rightarrow> 'o list" where
  "makeOptions rego_Query query options = [rego_Query query] @ options"

definition cancellable :: "(error \<Rightarrow> bool) \<Rightarrow> string \<Rightarrow> error + 'a \<Rightarrow> error + 'a" where
  "cancellable is_cancel msg res =
     (case res of
        Inl e \<Rightarrow> if is_cancel e then Inl Canceled else Inl (Wrapped msg e)
      | Inr x \<Rightarrow> Inr x)"

definition NewOptimizedQuery ::
  "(error \<Rightarrow> bool) \<Rightarrow> (string \<Rightarrow> 'o) \<Rightarrow> ('o list \<Rightarrow> error + 'q) \<Rightarrow> string \<Rightarrow> 'o list \<Rightarrow> error + 'q" where
  "NewOptimizedQuery is_cancel rego_Query partialResult query options =
     cancellable is_cancel ''couldn't perform pre-input policy optimization''
       (partialResult (makeOptions rego_Query query options))"

definition NewPartialEvalQuery ::
  "(error \<Rightarrow> bool) \<Rightarrow> (string \<Rightarrow> 'o) \<Rightarrow> (string list \<Rightarrow> 'o) \<Rightarrow> ('o list \<Rightarrow> error + 'p) \<Rightarrow> string \<Rightarrow> string list \<Rightarrow> 'o list \<Rightarrow>
   error + 'p" where
  "NewPartialEvalQuery is_cancel rego_Query rego_Unknowns prepareForPartial query unknowns options =
     cancellable is_cancel ''couldn't prepare for partial evaluation''
       (prepareForPartial (makeOptions rego_Query query (options @ [rego_Unknowns unknowns])))"

record ('q, 'p) PolicyClient =
  allowQuery :: 'q
  allowContextualQuery :: 'p
  errorQuery :: 'q

definition NewPolicyClient ::
  "(error \<Rightarrow> bool) \<Rightarrow> (string \<Rightarrow> 'o) \<Rightarrow> (string list \<Rightarrow> 'o) \<Rightarrow> ('o list \<Rightarrow> error + 'q) \<Rightarrow> ('o list \<Rightarrow> error + 'p) \<Rightarrow>
   string \<Rightarrow> 'o list \<Rightarrow> error + ('q, 'p) PolicyClient" where
  "NewPolicyClient is_cancel rego_Query rego_Unknowns partialResult prepareForPartial entryPackage options =
     (case NewOptimizedQuery is_cancel rego_Query partialResult (entryPackage @ ''.allow'') options of
        Inl e \<Rightarrow> Inl (Wrapped ''couldn't prepare fast policy query for allow'' e)
      | Inr allow \<Rightarrow>
          (case NewPartialEvalQuery is_cancel rego_Query rego_Unknowns prepareForPartial (entryPackage @ ''.allow'')
              [''input.context''] options of
             Inl e \<Rightarrow> Inl (Wrapped ''couldn't prepare contextual policy query for allow'' e)
           | Inr contextual \<Rightarrow>
               (case NewOptimizedQuery is_cancel rego_Query partialResult (entryPackage @ ''.error'') options of
                  Inl e \<Rightarrow> Inl (Wrapped ''couldn't prepare policy query for errors'' e)
                | Inr err \<Rightarrow> Inr \<lparr>allowQuery = allow, allowContextualQuery = contextual, errorQuery = err\<rparr>)))"

section \<open>Evaluating policies\<close>

text \<open>A result is the list of its expressions, of which some may be nil.\<close>

type_synonym 'j ResultSet = "'j jval option list list"

definition parseSingleExpression :: "'j ResultSet \<Rightarrow> error + 'j jval" where
  "parseSingleExpression results =
     (if length results \<noteq> 1 then Inl (Errorf ''expected one result but got %d'')
      else if length (hd results) \<noteq> 1 then Inl (Errorf ''expected one expression in result but got %d'')
      else
        (case hd (hd results) of
           None \<Rightarrow> Inl (Errorf ''undefined expression in result'')
         | Some v \<Rightarrow> Inr v))"

definition parseAllowResults :: "'j ResultSet \<Rightarrow> bool \<times> error option" where
  "parseAllowResults results =
     (if results = [] then (False, None)
      else
        (case parseSingleExpression results of
           Inl e \<Rightarrow> (False, Some (Wrapped ''allow result set has more than one expression'' e))
         | Inr (JBool allow) \<Rightarrow> (allow, None)
         | Inr _ \<Rightarrow> (False, Some (Errorf ''error result has unexpected type %T''))))"

definition EvalAllow ::
  "(error \<Rightarrow> bool) \<Rightarrow> ('q \<Rightarrow> (string \<times> 'j jval) list \<Rightarrow> error + 'j ResultSet) \<Rightarrow> ('q, 'p) PolicyClient \<Rightarrow>
   (string \<times> 'j jval) list \<Rightarrow> bool \<times> error option" where
  "EvalAllow is_cancel eval c input =
     (case eval (allowQuery c) input of
        Inl e \<Rightarrow> if is_cancel e then (False, Some Canceled) else (False, Some (Wrapped ''couldn't evaluate policy for allow'' e))
      | Inr results \<Rightarrow> parseAllowResults results)"

fun collect_queries :: "'b list list \<Rightarrow> 'b list list \<Rightarrow> bool \<times> 'b list list" where
  "collect_queries [] remaining = (False, remaining)"
| "collect_queries (query # qs) remaining =
     (if query = [] then (True, []) else collect_queries qs (remaining @ [query]))"

definition EvalAllowContextual ::
  "(error \<Rightarrow> bool) \<Rightarrow> ('p \<Rightarrow> (string \<times> 'j jval) list \<Rightarrow> error + 'b list list) \<Rightarrow> ('q, 'p) PolicyClient \<Rightarrow>
   (string \<times> 'j jval) list \<Rightarrow> (bool \<times> 'b list list) \<times> error option" where
  "EvalAllowContextual is_cancel partial c input =
     (case partial (allowContextualQuery c) input of
        Inl e \<Rightarrow>
          if is_cancel e then ((False, []), Some Canceled)
          else ((False, []), Some (Wrapped ''couldn't partially evaluate policy with initial inputs for allow'' e))
      | Inr queries \<Rightarrow> if queries = [] then ((False, []), None) else (collect_queries queries [], None))"

text \<open>\<open>show\<close> stands for \<^verbatim>\<open>fmt.Sprintf("%s", message)\<close>.\<close>

definition parseErrorResults :: "('j jval \<Rightarrow> string) \<Rightarrow> 'j ResultSet \<Rightarrow> error option \<times> error option" where
  "parseErrorResults show_value results =
     (if results = [] then (None, None)
      else
        (case parseSingleExpression results of
           Inl e \<Rightarrow> (None, Some (Wrapped ''error result set has more than one expression'' e))
         | Inr (JMap m) \<Rightarrow>
             (case map_of m ''message'' of
                None \<Rightarrow> (None, Some (Errorf ''error result has no message''))
              | Some message \<Rightarrow> (Some (Errorf (show_value message)), None))
         | Inr _ \<Rightarrow> (None, Some (Errorf ''error result has unexpected type %T''))))"

definition EvalError ::
  "(error \<Rightarrow> bool) \<Rightarrow> ('j jval \<Rightarrow> string) \<Rightarrow> ('q \<Rightarrow> (string \<times> 'j jval) list \<Rightarrow> error + 'j ResultSet) \<Rightarrow>
   ('q, 'p) PolicyClient \<Rightarrow> (string \<times> 'j jval) list \<Rightarrow> error option \<times> error option" where
  "EvalError is_cancel show_value eval c input =
     (case eval (errorQuery c) input of
        Inl e \<Rightarrow> if is_cancel e then (None, Some Canceled) else (None, Some (Wrapped ''couldn't evaluate policy for errors'' e))
      | Inr results \<Rightarrow> parseErrorResults show_value results)"

section \<open>Modules\<close>

definition filterModule :: "string \<Rightarrow> bool" where
  "filterModule path = HasSuffix path ''.rego''"

record Module =
  Filename :: string
  Contents :: string

definition CollectModules :: "Module list list \<Rightarrow> Module list" where
  "CollectModules modules = fold (\<lambda>m collected. collected @ m) modules []"

text \<open>Wrapping a nil error gives nil: a file that cannot be read is skipped.\<close>

fun walk_modules ::
  "FS \<Rightarrow> (string \<Rightarrow> bool) option \<Rightarrow> (string \<times> bool \<times> error option) list \<Rightarrow> Module list \<Rightarrow> error + Module list" where
  "walk_modules f flt [] modules = Inr modules"
| "walk_modules f flt ((path, isDir, err) # ws) modules =
     (case err of
        Some e \<Rightarrow> Inl e
      | None \<Rightarrow>
          if isDir then walk_modules f flt ws modules
          else if flt = None \<or> the flt path then
            (case readFile path f of
               Inl e \<Rightarrow>
                 (case errors_Wrap None ''couldn't read file %s'' of
                    Some e \<Rightarrow> Inl e
                  | None \<Rightarrow> walk_modules f flt ws modules)
             | Inr b \<Rightarrow> walk_modules f flt ws (modules @ [\<lparr>Filename = path, Contents = b\<rparr>]))
          else walk_modules f flt ws modules)"

definition readFiles :: "FS \<Rightarrow> (string \<Rightarrow> bool) option \<Rightarrow> error + Module list" where
  "readFiles f flt = walk_modules f flt (fs_walk f) []"

definition FSModules :: "FS \<Rightarrow> string \<Rightarrow> error + Module list" where
  "FSModules fsys filePrefix =
     (case readFiles fsys (Some filterModule) of
        Inl e \<Rightarrow> Inl (Wrapped ''couldn't list rego modules'' e)
      | Inr modules \<Rightarrow> Inr (map (\<lambda>m. \<lparr>Filename = filePrefix @ Filename m, Contents = Contents m\<rparr>) modules))"

definition RegoModules :: "string \<Rightarrow> string \<Rightarrow> Module list" where
  "RegoModules routingModule errorsModule =
     (let packagePath = ''github.com/sargassum-world/godest/opa''
      in [\<lparr>Filename = packagePath @ ''/routing.rego'', Contents = routingModule\<rparr>,
          \<lparr>Filename = packagePath @ ''/errors.rego'', Contents = errorsModule\<rparr>])"

section \<open>Facts\<close>

lemma collect_queries_eq:
  "collect_queries qs remaining = (if [] \<in> set qs then (True, []) else (False, remaining @ qs))"
  by (induction qs arbitrary: remaining) auto

lemma walk_modules_eq:
  "(\<forall>(p, d, err)\<in>set ws. err = None) \<Longrightarrow>
   walk_modules f (Some flt) ws modules =
     Inr (modules @ concat (map (\<lambda>(p, d, err). if d \<or> \<not> flt p then []
       else case readFile p f of Inl e \<Rightarrow> [] | Inr b \<Rightarrow> [\<lparr>Filename = p, Contents = b\<rparr>]) ws))"
proof (induction ws arbitrary: modules)
  case (Cons w ws)
  then show ?case by (cases w) (auto split: sum.splits)
qed simp

lemma body_holds_Nil [simp]: "body_holds cmp db []"
  by (simp add: body_holds_def)

definition demo_client :: "(nat, nat) PolicyClient" where
  "demo_client = \<lparr>allowQuery = 0, allowContextualQuery = 0, errorQuery = 1\<rparr>"

section \<open>Properties\<close>

text \<open>
  Access is denied by default: \<^verbatim>\<open>EvalAllow\<close> returns true exactly if the policy evaluates, without an error, to one
  result with one expression whose value is true; an undefined policy, any other value and every error deny.
\<close>

theorem EvalAllow_denies_by_default:
  "fst (EvalAllow is_cancel eval c input) \<longleftrightarrow> eval (allowQuery c) input = Inr [[Some (JBool True)]]"
  by (auto simp: EvalAllow_def parseAllowResults_def parseSingleExpression_def length_Suc_conv
      split: sum.splits if_splits option.splits jval.splits)

text \<open>
  (C35) The contextual decision is the policy's. Let partial evaluation leave queries of comparisons between columns and
  constants, such that in each query every variable indexes one table and different variables have different keys, every
  comparison has a known operator and names without brackets, no two comparisons of the queries share a parameter name with
  different values, and the comparison of SQL respects turning an operator around. Then \<^verbatim>\<open>EvalAllowContextual\<close> succeeds, the
  queries that it leaves are translated, into a statement without an empty conjunction, and the decision and the statement
  allow together exactly if one of the queries holds in the database.
\<close>

theorem contextual_decision_correct:
  assumes "partial (allowContextualQuery c) input = Inr (map (map (expr_of dbName)) bodies)"
    and "\<forall>body\<in>set bodies. variables_separate body \<and> (\<forall>c\<in>set body. comparison_ok c)"
    and "parameters_agree bodies" and "cmp_flips cmp" and "\<forall>es. set (ord es) = set es"
  shows "\<exists>allow remaining s. EvalAllowContextual is_cancel partial c input = ((allow, remaining), None) \<and>
    transpiler_Parse ord (NewSQLiteTranspiler dbName) remaining = Inr s \<and>
    [] \<notin> set (Disjunction s) \<and> (allow \<or> statement_holds cmp db s \<longleftrightarrow> (\<exists>body\<in>set bodies. body_holds cmp db body))"
proof (cases "[] \<in> set bodies")
  case True
  then have "[] \<in> set (map (map (expr_of dbName)) bodies)" by force
  then have "EvalAllowContextual is_cancel partial c input = ((True, []), None)"
    using assms(1) True by (auto simp: EvalAllowContextual_def collect_queries_eq)
  moreover have "\<exists>body\<in>set bodies. body_holds cmp db body" using True body_holds_Nil by blast
  ultimately show ?thesis by (simp add: transpiler_Parse_def) blast
next
  case False
  then have "[] \<notin> set (map (map (expr_of dbName)) bodies)" by auto
  then have "EvalAllowContextual is_cancel partial c input = ((False, map (map (expr_of dbName)) bodies), None)"
    using assms(1) by (simp add: EvalAllowContextual_def collect_queries_eq)
  then show ?thesis
    using transpiled_statement_correct_of [OF assms(2-5), of dbName db] False by auto
qed

theorem contextual_decision_correct_witness:
  "\<exists>allow remaining s. EvalAllowContextual (\<lambda>e. False) (\<lambda>q input. Inr [[expr_of ''db'' (state_is ''eq'' ''draft'')]]) demo_client [] =
      ((allow, remaining), None) \<and>
    transpiler_Parse (\<lambda>es. es) (NewSQLiteTranspiler ''db'') remaining = Inr s \<and>
    [] \<notin> set (Disjunction s) \<and> (allow \<or> statement_holds demo_cmp demo_posts s \<longleftrightarrow> body_holds demo_cmp demo_posts [state_is ''eq'' ''draft''])"
  using contextual_decision_correct [of "\<lambda>q input. Inr [[expr_of ''db'' (state_is ''eq'' ''draft'')]]" demo_client "[]" "''db''"
      "[[state_is ''eq'' ''draft'']]" demo_cmp "\<lambda>es. es" "\<lambda>e. False" demo_posts]
  by (simp add: variables_separate_def parameters_agree_def state_is_ok demo_cmp_flips)

text \<open>
  A policy module that cannot be read is left out in silence: \<^verbatim>\<open>FSModules\<close> never reports an error of reading a
  file, it returns the modules of the readable files with the extension \<^verbatim>\<open>.rego\<close>.
\<close>

theorem FSModules_skips_unreadable:
  assumes "\<forall>(p, d, err)\<in>set (fs_walk f). err = None"
  shows "FSModules f filePrefix = Inr (concat (map (\<lambda>(p, d, err). if d \<or> \<not> filterModule p then []
    else case readFile p f of Inl e \<Rightarrow> [] | Inr b \<Rightarrow> [\<lparr>Filename = filePrefix @ p, Contents = b\<rparr>]) (fs_walk f)))"
  using walk_modules_eq [OF assms, of f filterModule "[]"]
  by (auto simp: FSModules_def readFiles_def map_concat o_def intro!: arg_cong [of _ _ concat] split: sum.splits)

theorem FSModules_skips_unreadable_witness:
  "FSModules \<lparr>fs_walk = [(''policy.rego'', False, None)], fs_Open = \<lambda>p. Inl (ExternalError ''permission denied'')\<rparr> ''app/'' = Inr []"
  using FSModules_skips_unreadable [of "\<lparr>fs_walk = [(''policy.rego'', False, None)],
      fs_Open = \<lambda>p. Inl (ExternalError ''permission denied'')\<rparr>" "''app/''"]
  by (simp add: readFile_def)

end
