(* ===== verification/Web.thy ===== *)
theory Web
  imports GoStrings "HOL-Library.Word"
begin

text \<open>
  The HTTP side of the root package, \<^verbatim>\<open>src/middleware\<close> and \<^verbatim>\<open>src/httperr\<close>: header options, entity tags,
  fingerprints, static files and middleware. A response writer is a record: the header map that the
  handlers still change, the status and header once they have been sent, and the body.
\<close>

section \<open>Headers\<close>

type_synonym header = "string \<rightharpoonup> string list"

definition to_upper :: "char \<Rightarrow> char" where
  "to_upper c = (let n = of_char c :: nat in if 97 \<le> n \<and> n \<le> 122 then char_of (n - 32) else c)"

definition to_lower :: "char \<Rightarrow> char" where
  "to_lower c = (let n = of_char c :: nat in if 65 \<le> n \<and> n \<le> 90 then char_of (n + 32) else c)"

definition token_char :: "char \<Rightarrow> bool" where
  "token_char c \<longleftrightarrow> (let n = of_char c :: nat in
     (48 \<le> n \<and> n \<le> 57) \<or> (65 \<le> n \<and> n \<le> 90) \<or> (97 \<le> n \<and> n \<le> 122) \<or>
     n \<in> {33, 35, 36, 37, 38, 39, 42, 43, 45, 46, 94, 95, 96, 124, 126})"

fun canonical_from :: "bool \<Rightarrow> string \<Rightarrow> string" where
  "canonical_from up [] = []"
| "canonical_from up (c # cs) = (if up then to_upper c else to_lower c) # canonical_from (c = CHR ''-'') cs"

text \<open>The canonical form of a header name, under which Go's header map keeps it.\<close>

definition CanonicalKey :: "string \<Rightarrow> string" where
  "CanonicalKey k = (if list_all token_char k then canonical_from True k else k)"

definition header_Set :: "string \<Rightarrow> string \<Rightarrow> header \<Rightarrow> header" where
  "header_Set k v h = h(CanonicalKey k \<mapsto> [v])"

definition header_Get :: "string \<Rightarrow> header \<Rightarrow> string" where
  "header_Get k h = (case h (CanonicalKey k) of Some (v # _) \<Rightarrow> v | _ \<Rightarrow> [])"

lemma header_Get_Set: "header_Get k (header_Set j v h) = (if CanonicalKey k = CanonicalKey j then v else header_Get k h)"
  by (simp add: header_Get_def header_Set_def)

text \<open>The names the code uses are canonical.\<close>

lemma canonical_names [simp]:
  "CanonicalKey ''Content-Type'' = ''Content-Type''"
  "CanonicalKey ''Cache-Control'' = ''Cache-Control''"
  "CanonicalKey ''Etag'' = ''Etag''"
  "CanonicalKey ''If-None-Match'' = ''If-None-Match''"
  by (simp_all add: CanonicalKey_def token_char_def to_upper_def to_lower_def)

type_synonym HeaderOption = "header \<Rightarrow> header"

definition WithContentType :: "string \<Rightarrow> HeaderOption" where
  "WithContentType contentType h = header_Set ''Content-Type'' contentType h"

definition WithUncacheable :: HeaderOption where
  "WithUncacheable h =
     header_Set ''Cache-Control'' ''no-cache=\"Set-Cookie, Set-Cookie2\", no-store, max-age=0'' h"

definition WithAlwaysRevalidate :: HeaderOption where
  "WithAlwaysRevalidate h = header_Set ''Cache-Control'' ''private, no-cache'' h"

definition WithRevalidateWhenStale :: "int \<Rightarrow> HeaderOption" where
  "WithRevalidateWhenStale maxAge h = header_Set ''Cache-Control''
     (''private, no-cache=\"Set-Cookie, Set-Cookie2\", max-age='' @ decimal maxAge @ '', must-revalidate'') h"

section \<open>Requests and responses\<close>

text \<open>\<open>rq_Form\<close> is what \<^verbatim>\<open>ParseForm\<close> makes of the query and the body.\<close>

record Request =
  rq_Method :: string
  rq_Path :: string
  rq_RawPath :: string
  rq_RequestURI :: string
  rq_Header :: header
  rq_Form :: "error + (string \<rightharpoonup> string list)"

text \<open>\<open>rs_Broken\<close> is the error that writing to a lost connection gives.\<close>

record Response =
  rs_Header :: header
  rs_Sent :: "(int \<times> header) option"
  rs_Body :: string
  rs_Broken :: "error option"

definition with_header :: "(header \<Rightarrow> header) \<Rightarrow> Response \<Rightarrow> Response" where
  "with_header f w = w\<lparr>rs_Header := f (rs_Header w)\<rparr>"

definition WriteHeader :: "int \<Rightarrow> Response \<Rightarrow> Response" where
  "WriteHeader status w = (case rs_Sent w of None \<Rightarrow> w\<lparr>rs_Sent := Some (status, rs_Header w)\<rparr> | Some _ \<Rightarrow> w)"

text \<open>
  \<^verbatim>\<open>Write\<close> of the response. The statuses are valid ones that allow a body: for 1xx, 204 and 304, \<^verbatim>\<open>net/http\<close>
  drops the body and returns \<^verbatim>\<open>ErrBodyNotAllowed\<close>, and \<^verbatim>\<open>WriteHeader\<close> panics for a status outside 100 to 999.
\<close>

definition Write :: "string \<Rightarrow> Response \<Rightarrow> error option \<times> Response" where
  "Write data w =
     (let w1 = WriteHeader 200 w
      in case rs_Broken w of Some e \<Rightarrow> (Some e, w1) | None \<Rightarrow> (None, w1\<lparr>rs_Body := rs_Body w1 @ data\<rparr>))"

lemma response_simps [simp]:
  "rs_Header (with_header f w) = f (rs_Header w)"
  "rs_Sent (with_header f w) = rs_Sent w"
  "rs_Body (with_header f w) = rs_Body w"
  "rs_Broken (with_header f w) = rs_Broken w"
  "rs_Header (WriteHeader st w) = rs_Header w"
  "rs_Body (WriteHeader st w) = rs_Body w"
  "rs_Broken (WriteHeader st w) = rs_Broken w"
  "rs_Sent w = None \<Longrightarrow> rs_Sent (WriteHeader st w) = Some (st, rs_Header w)"
  "rs_Sent w = Some x \<Longrightarrow> WriteHeader st w = w"
  by (simp_all add: with_header_def WriteHeader_def split: option.split)

section \<open>Entity tags\<close>

fun Join :: "string list \<Rightarrow> string \<Rightarrow> string" where
  "Join [] d = []"
| "Join [s] d = s"
| "Join (s # ss) d = s @ d @ Join ss d"

definition etagSegmentDelimiter :: string where "etagSegmentDelimiter = '' ''"

definition makeEtag :: "string list \<Rightarrow> string" where
  "makeEtag segments = ''W/\"'' @ Join segments etagSegmentDelimiter @ ''\"''"

definition setEtag :: "string \<Rightarrow> header \<Rightarrow> header" where
  "setEtag etag h = header_Set ''Etag'' etag (WithAlwaysRevalidate h)"

definition checkEtagMatch :: "header \<Rightarrow> string \<Rightarrow> bool" where
  "checkEtagMatch reqh etag =
     (let matchQuery = header_Get ''If-None-Match'' reqh
      in if matchQuery = [] \<or> etag = [] then False else matchQuery = etag)"

definition setAndCheckEtag :: "Response \<Rightarrow> Request \<Rightarrow> string list \<Rightarrow> bool \<times> Response" where
  "setAndCheckEtag w r etagSegments =
     (let etag = makeEtag etagSegments
      in (checkEtagMatch (rq_Header r) etag, with_header (setEtag etag) w))"

section \<open>Fingerprints\<close>

definition hex_digit :: "nat \<Rightarrow> char" where
  "hex_digit k = ''0123456789abcdef'' ! k"

fun hex_nat :: "nat \<Rightarrow> string" where
  "hex_nat n = (if n < 16 then [hex_digit n] else hex_nat (n div 16) @ [hex_digit (n mod 16)])"

declare hex_nat.simps [simp del]

definition fingerprintSize :: nat where "fingerprintSize = 8"

definition LittleEndian_bytes :: "64 word \<Rightarrow> string" where
  "LittleEndian_bytes h = map (\<lambda>i. char_of (unat (drop_bit (8 * i) h) mod 256)) [0..<fingerprintSize]"

text \<open>\<open>murmur3\<close> is the hash function of the library.\<close>

definition computeFingerprint :: "(string \<Rightarrow> 64 word) \<Rightarrow> string \<Rightarrow> string" where
  "computeFingerprint murmur3 data =
     hex_nat (length data) @ '':'' @ EncodeToString (LittleEndian_bytes (murmur3 data))"

section \<open>Middleware and static files\<close>

type_synonym HTTPHandler = "Request \<Rightarrow> Response \<Rightarrow> Response"

definition corpHeader :: string where "corpHeader = ''Cross-Origin-Resource-Policy''"
definition coepHeader :: string where "coepHeader = ''Cross-Origin-Embedder-Policy''"

definition SetCORP :: "string \<Rightarrow> HTTPHandler \<Rightarrow> HTTPHandler" where
  "SetCORP policy h r w = h r (with_header (header_Set corpHeader policy) w)"

definition SetCOEP :: "string \<Rightarrow> HTTPHandler \<Rightarrow> HTTPHandler" where
  "SetCOEP policy h r w = h r (with_header (header_Set coepHeader policy) w)"

definition isContentType :: "header \<Rightarrow> string \<Rightarrow> bool" where
  "isContentType h contentType \<longleftrightarrow>
     (let ct = header_Get ''Content-Type'' h
      in takeWhile (\<lambda>c. c \<noteq> CHR '';'') ct = contentType)"

text \<open>
  An Echo handler returns an error: an \<^verbatim>\<open>HTTPError\<close> with its status and format, or another. Its context is
  the request and a state \<open>'w\<close> that holds the response.
\<close>

datatype echo_error = HTTPError int string | OtherError error

type_synonym 'w EchoHandler = "Request \<Rightarrow> 'w \<Rightarrow> echo_error option \<times> 'w"

fun try_content_types :: "string list \<Rightarrow> 'w EchoHandler \<Rightarrow> 'w EchoHandler" where
  "try_content_types [] nxt r w = (Some (HTTPError 415 ''Unsupported content type %q; expected one of %q''), w)"
| "try_content_types (ct # cts) nxt r w =
     (if isContentType (rq_Header r) ct then nxt r w else try_content_types cts nxt r w)"

definition RequireContentTypes :: "string list \<Rightarrow> 'w EchoHandler \<Rightarrow> 'w EchoHandler" where
  "RequireContentTypes contentTypes nxt r w =
     (if rq_Method r \<noteq> ''PUT'' \<and> rq_Method r \<noteq> ''POST'' \<and> rq_Method r \<noteq> ''PATCH'' then nxt r w
      else try_content_types contentTypes nxt r w)"

definition wrapStaticHeader :: "HTTPHandler \<Rightarrow> int \<Rightarrow> HTTPHandler" where
  "wrapStaticHeader h age r w =
     h r (with_header (header_Set ''Cache-Control'' (''public, max-age='' @ decimal age)) w)"

text \<open>
  \<^verbatim>\<open>http.StripPrefix\<close>, with the library's handlers for a missing page and for the files of a file system as
  parameters; \<open>seconds\<close> is the conversion of a duration through \<^verbatim>\<open>float64\<close>.
\<close>

definition TrimPrefix :: "string \<Rightarrow> string \<Rightarrow> string" where
  "TrimPrefix s p = (if prefix p s then drop (length p) s else s)"

definition StripPrefix :: "HTTPHandler \<Rightarrow> string \<Rightarrow> HTTPHandler \<Rightarrow> HTTPHandler" where
  "StripPrefix notFound pre h r w =
     (if pre = [] then h r w
      else let p = TrimPrefix (rq_Path r) pre; rp = TrimPrefix (rq_RawPath r) pre
           in if length p < length (rq_Path r) \<and> (rq_RawPath r = [] \<or> length rp < length (rq_RawPath r))
              then h (r\<lparr>rq_Path := p, rq_RawPath := rp\<rparr>) w else notFound r w)"

definition HandleFS :: "HTTPHandler \<Rightarrow> ('f \<Rightarrow> HTTPHandler) \<Rightarrow> (int \<Rightarrow> int) \<Rightarrow> string \<Rightarrow> 'f \<Rightarrow> int \<Rightarrow> HTTPHandler" where
  "HandleFS notFound fileServer seconds routePrefix fsys age =
     wrapStaticHeader (StripPrefix notFound routePrefix (fileServer fsys)) (seconds age)"

definition HandleFSFileRevved :: "HTTPHandler \<Rightarrow> ('f \<Rightarrow> HTTPHandler) \<Rightarrow> string \<Rightarrow> 'f \<Rightarrow> HTTPHandler" where
  "HandleFSFileRevved notFound hashServer routePrefix fsys = StripPrefix notFound routePrefix (hashServer fsys)"

section \<open>Error descriptions\<close>

record DescriptiveError =
  Name :: string
  Description :: string

definition DescriptiveErrors :: "int \<rightharpoonup> DescriptiveError" where
  "DescriptiveErrors = map_of (map (\<lambda>(code, n, d). (code, \<lparr>Name = n, Description = d\<rparr>))
    [(400, ''Bad request'',
       ''The server cannot process the request due to something believed to be a client error.''),
     (401, ''Unauthenticated'', ''The requested resource requires authentication.''),
     (403, ''Access denied'', ''Permission has not been granted to access the requested resource.''),
     (404, ''Not available'',
       ''The requested resource is not available because it could not be found, '' @
       ''it requires authentication, or permission has not been granted to access it.''),
     (405, ''Bad request method'',
       ''The server does not support the request method for the requested resource.''),
     (415, ''Bad request format'', ''The server does not support the request format.''),
     (429, ''Too busy'', ''The server has reached a temporary usage limit. Please try again later.''),
     (500, ''Server error'', ''An unexpected problem occurred. We're working to fix it.''),
     (501, ''Bad request method'', ''The server cannot recognize the request method.''),
     (502, ''Webservice currently unavailable'',
       ''While handling the request, the server encountered a problem with another server. '' @
       ''We're working to fix it.''),
     (503, ''Webservice currently unavailable'',
       ''The server is temporarily unable to handle the request. '' @
       ''We're working to restore the server.'')])"

definition Describe :: "int \<Rightarrow> DescriptiveError" where
  "Describe code =
     (case DescriptiveErrors code of
        None \<Rightarrow> \<lparr>Name = ''Server error'', Description = ''An unexpected problem occurred. We're working to fix it.''\<rparr>
      | Some name \<Rightarrow> name)"

section \<open>Fingerprints determine length and hash\<close>

lemma hex_digits:
  assumes "k < 16"
  shows "hex_digit k \<in> set ''0123456789abcdef''"
  using assms unfolding hex_digit_def by (intro nth_mem) simp

lemma hex_digit_inject: "j < 16 \<Longrightarrow> k < 16 \<Longrightarrow> hex_digit j = hex_digit k \<longleftrightarrow> j = k"
  unfolding hex_digit_def by (intro nth_eq_iff_index_eq) simp_all

lemma hex_nat_nonempty [simp]: "hex_nat n \<noteq> []" "[] \<noteq> hex_nat n"
  by (subst hex_nat.simps; simp)+

lemma hex_nat_digits: "c \<in> set (hex_nat n) \<Longrightarrow> \<exists>k<16. c = hex_digit k"
proof (induction n rule: hex_nat.induct)
  case (1 n)
  then show ?case
    by (subst (asm) (2) hex_nat.simps) (fastforce split: if_splits intro: mod_less_divisor)
qed

lemma hex_nat_chars: "CHR '':'' \<notin> set (hex_nat n)" "CHR '' '' \<notin> set (hex_nat n)"
  by (auto dest!: hex_nat_digits hex_digits)

lemma hex_nat_inject: "hex_nat m = hex_nat n \<longleftrightarrow> m = n"
proof (rule iffI)
  show "hex_nat m = hex_nat n \<Longrightarrow> m = n"
  proof (induction m arbitrary: n rule: hex_nat.induct)
    case (1 m)
    show ?case
    proof (cases "m < 16")
      case True
      then have e: "hex_nat m = [hex_digit m]" by (subst hex_nat.simps) simp
      have "n < 16"
        using 1(2) unfolding e by (subst (asm) hex_nat.simps) (auto split: if_splits)
      then have "hex_nat n = [hex_digit n]" by (subst hex_nat.simps) simp
      with e 1(2) True \<open>n < 16\<close> show ?thesis by (simp add: hex_digit_inject)
    next
      case False
      then have e: "hex_nat m = hex_nat (m div 16) @ [hex_digit (m mod 16)]" by (subst hex_nat.simps) simp
      have "\<not> n < 16"
        using 1(2) unfolding e by (subst (asm) (2) hex_nat.simps) auto
      then have "hex_nat n = hex_nat (n div 16) @ [hex_digit (n mod 16)]" by (subst hex_nat.simps) simp
      with e 1(2) have "hex_nat (m div 16) = hex_nat (n div 16)" "hex_digit (m mod 16) = hex_digit (n mod 16)"
        by simp_all
      then have "m div 16 = n div 16" "m mod 16 = n mod 16"
        using 1(1) [OF False] by (simp_all add: hex_digit_inject)
      then show ?thesis by (metis div_mult_mod_eq)
    qed
  qed
qed simp

lemma LittleEndian_inject: "LittleEndian_bytes a = LittleEndian_bytes b \<longleftrightarrow> a = b"
proof
  assume e: "LittleEndian_bytes a = LittleEndian_bytes b"
  have byte: "take_bit 8 (drop_bit (8 * i) a) = take_bit 8 (drop_bit (8 * i) b)" if "i < 8" for i
  proof -
    have "char_of (unat (drop_bit (8 * i) a) mod 256) = (char_of (unat (drop_bit (8 * i) b) mod 256) :: char)"
      using arg_cong [OF e, of "\<lambda>s. s ! i"] that by (simp add: LittleEndian_bytes_def fingerprintSize_def)
    then have "unat (drop_bit (8 * i) a) mod 256 = unat (drop_bit (8 * i) b) mod 256"
      by (simp add: char_of_eq_iff take_bit_eq_mod)
    then have "unat (take_bit 8 (drop_bit (8 * i) a)) = unat (take_bit 8 (drop_bit (8 * i) b))"
      by (simp only: unsigned_take_bit_eq) (simp add: take_bit_eq_mod)
    then show ?thesis by (simp only: word_unat_eq_iff)
  qed
  show "a = b"
  proof (rule bit_word_eqI)
    fix n
    assume n: "n < LENGTH(64)"
    have "bit (take_bit 8 (drop_bit (8 * (n div 8)) a)) (n mod 8) =
        bit (take_bit 8 (drop_bit (8 * (n div 8)) b)) (n mod 8)"
      using byte [of "n div 8"] n by simp
    then show "bit a n = bit b n"
      using n by (simp add: bit_take_bit_iff bit_drop_bit_eq)
  qed
qed simp

lemma computeFingerprint_eq_iff:
  "computeFingerprint m x = computeFingerprint m y \<longleftrightarrow> length x = length y \<and> m x = m y"
proof
  assume e: "computeFingerprint m x = computeFingerprint m y"
  have "takeWhile (\<lambda>c. c \<noteq> CHR '':'') (computeFingerprint m z) = hex_nat (length z)" for z
    using hex_nat_chars(1) [of "length z"] by (simp add: computeFingerprint_def takeWhile_append takeWhile_eq_all_conv)
  then have l: "length x = length y" using e hex_nat_inject by metis
  then have "EncodeToString (LittleEndian_bytes (m x)) = EncodeToString (LittleEndian_bytes (m y))"
    using e by (simp add: computeFingerprint_def)
  then have "LittleEndian_bytes (m x) = LittleEndian_bytes (m y)"
    using b64_decode_Encode by (metis option.inject)
  with l show "length x = length y \<and> m x = m y" by (simp add: LittleEndian_inject)
qed (simp add: computeFingerprint_def)

lemma computeFingerprint_no_space: "CHR '' '' \<notin> set (computeFingerprint m x)"
  using hex_nat_chars(2) Encode_no_space by (auto simp: computeFingerprint_def is_space_def)

section \<open>Entity tags determine their segments\<close>

lemma first_delimiter:
  "d \<notin> set x \<Longrightarrow> d \<notin> set y \<Longrightarrow> x @ d # p = y @ d # q \<longleftrightarrow> x = y \<and> p = q"
proof (induction x arbitrary: y)
  case Nil
  then show ?case by (cases y) auto
next
  case (Cons a x)
  then show ?case by (cases y) auto
qed

lemma Join_inject:
  assumes "xs \<noteq> []" and "ys \<noteq> []" and "\<forall>x\<in>set xs. d \<notin> set x" and "\<forall>y\<in>set ys. d \<notin> set y"
    and "Join xs [d] = Join ys [d]"
  shows "xs = ys"
  using assms
proof (induction xs arbitrary: ys rule: list_nonempty_induct)
  case (single x)
  then show ?case by (cases ys rule: remdups_adj.cases) auto
next
  case (cons x xs)
  from cons.hyps obtain x' xs' where xs: "xs = x' # xs'" by (cases xs) auto
  show ?case
  proof (cases ys rule: remdups_adj.cases)
    case (3 y y' ys')
    have "x @ d # Join xs [d] = y @ d # Join (y' # ys') [d]"
      using cons.prems 3 xs by simp
    moreover have "d \<notin> set x" "d \<notin> set y" using cons.prems 3 by auto
    ultimately have "x = y \<and> Join xs [d] = Join (y' # ys') [d]"
      by (simp add: first_delimiter)
    with cons.IH [of "y' # ys'"] cons.prems 3 show ?thesis by auto
  qed (use cons.prems xs in auto)
qed

lemma makeEtag_inject:
  assumes "xs \<noteq> []" and "ys \<noteq> []" and "\<forall>x\<in>set xs. CHR '' '' \<notin> set x" and "\<forall>y\<in>set ys. CHR '' '' \<notin> set y"
  shows "makeEtag xs = makeEtag ys \<longleftrightarrow> xs = ys"
  using Join_inject [OF assms] by (auto simp: makeEtag_def etagSegmentDelimiter_def)

lemma makeEtag_nonempty [simp]: "makeEtag ss \<noteq> []" "[] \<noteq> makeEtag ss"
  by (simp_all add: makeEtag_def)

lemma setAndCheckEtag_fst:
  "fst (setAndCheckEtag w r ss) \<longleftrightarrow> header_Get ''If-None-Match'' (rq_Header r) = makeEtag ss"
  by (auto simp: setAndCheckEtag_def checkEtagMatch_def Let_def)

section \<open>Media types\<close>

definition media_type :: "Request \<Rightarrow> string" where
  "media_type r = takeWhile (\<lambda>c. c \<noteq> CHR '';'') (header_Get ''Content-Type'' (rq_Header r))"

lemma try_content_types_iff:
  "try_content_types cts nxt r w = (if media_type r \<in> set cts then nxt r w else
     (Some (HTTPError 415 ''Unsupported content type %q; expected one of %q''), w))"
  by (induction cts) (auto simp: isContentType_def media_type_def Let_def)

text \<open>
  A handler behind \<^verbatim>\<open>RequireContentTypes\<close> runs for a PUT, POST or PATCH request exactly if the media type of its
  body is one of the list, and for every other method; otherwise the request gets status 415 and nothing changes.
\<close>

theorem RequireContentTypes_guards:
  "RequireContentTypes cts nxt r w =
     (if rq_Method r \<in> {''PUT'', ''POST'', ''PATCH''} \<and> media_type r \<notin> set cts
      then (Some (HTTPError 415 ''Unsupported content type %q; expected one of %q''), w)
      else nxt r w)"
  by (simp add: RequireContentTypes_def try_content_types_iff)

end
