(* ===== verification/OpaFiles.thy ===== *)
theory OpaFiles
  imports OpaClient Web
begin

text \<open>
  Writing a policy module to a file (\<^verbatim>\<open>Module.WriteFile\<close> of \<^verbatim>\<open>src/opa/modules.go\<close>), with the path functions of
  Go's standard library that it uses, on a system whose separator is the slash.
\<close>

section \<open>Paths\<close>

fun path_elems :: "string \<Rightarrow> string list" where
  "path_elems [] = [[]]"
| "path_elems (c # cs) =
     (if c = CHR ''/'' then [] # path_elems cs
      else case path_elems cs of [] \<Rightarrow> [[c]] | w # ws \<Rightarrow> (c # w) # ws)"

definition rooted :: "string \<Rightarrow> bool" where
  "rooted p \<longleftrightarrow> p \<noteq> [] \<and> hd p = CHR ''/''"

fun clean_elems :: "bool \<Rightarrow> string list \<Rightarrow> string list \<Rightarrow> string list" where
  "clean_elems r out [] = rev out"
| "clean_elems r out (e # es) =
     (if e = [] \<or> e = ''.'' then clean_elems r out es
      else if e = ''..'' then
        (case out of
           [] \<Rightarrow> if r then clean_elems r [] es else clean_elems r [e] es
         | x # xs \<Rightarrow> if x = ''..'' then clean_elems r (e # out) es else clean_elems r xs es)
      else clean_elems r (e # out) es)"

definition filepath_Clean :: "string \<Rightarrow> string" where
  "filepath_Clean path =
     (let out = Join (clean_elems (rooted path) [] (path_elems path)) ''/''
      in if rooted path then CHR ''/'' # out else if out = [] then ''.'' else out)"

definition filepath_Join :: "string \<Rightarrow> string \<Rightarrow> string" where
  "filepath_Join a b =
     (if a = [] \<and> b = [] then [] else filepath_Clean (Join (dropWhile (\<lambda>e. e = []) [a, b]) ''/''))"

definition filepath_Dir :: "string \<Rightarrow> string" where
  "filepath_Dir path = filepath_Clean (rev (dropWhile (\<lambda>c. c \<noteq> CHR ''/'') (rev path)))"

definition filepath_Base :: "string \<Rightarrow> string" where
  "filepath_Base path =
     (if path = [] then ''.''
      else let p = rev (dropWhile (\<lambda>c. c = CHR ''/'') (rev path))
           in if p = [] then ''/'' else rev (takeWhile (\<lambda>c. c \<noteq> CHR ''/'') (rev p)))"

section \<open>Writing a module\<close>

record ('h, 'e) os_files =
  MkdirAll :: "string \<Rightarrow> nat \<Rightarrow> 'e \<Rightarrow> error option \<times> 'e"
  Create :: "string \<Rightarrow> 'e \<Rightarrow> (error + 'h) \<times> 'e"
  WriteString :: "'h \<Rightarrow> string \<Rightarrow> 'e \<Rightarrow> (nat \<times> error option) \<times> 'e"
  file_Close :: "'h \<Rightarrow> 'e \<Rightarrow> error option \<times> 'e"

text \<open>The directory and the path that \<^verbatim>\<open>WriteFile\<close> computes.\<close>

definition module_dir :: "string \<Rightarrow> string \<Rightarrow> string" where
  "module_dir parent f = filepath_Clean (filepath_Join parent (filepath_Dir f))"

definition module_path :: "string \<Rightarrow> string \<Rightarrow> string" where
  "module_path parent f = filepath_Clean (filepath_Join (module_dir parent f) (filepath_Base f))"

definition WriteFile ::
  "('h, 'e) os_files \<Rightarrow> Module \<Rightarrow> string \<Rightarrow> nat \<Rightarrow> 'e \<Rightarrow> (nat \<times> error option) \<times> 'e" where
  "WriteFile F m parent perm e =
     (case MkdirAll F (module_dir parent (Filename m)) perm e of
        (Some err, e) \<Rightarrow> ((0, Some err), e)
      | (None, e) \<Rightarrow>
          (case Create F (module_path parent (Filename m)) e of
             (Inl err, e) \<Rightarrow> ((0, Some err), e)
           | (Inr file, e) \<Rightarrow>
               (case WriteString F file (Contents m) e of
                  ((n, err), e) \<Rightarrow>
                    (case file_Close F file e of
                       (cerr, e) \<Rightarrow> ((n, if err = None then cerr else err), e)))))"

text \<open>\<open>rego_Module\<close> stands for the option of the Rego library, applied to a Rego object.\<close>

definition opa_Modules :: "(string \<Rightarrow> string \<Rightarrow> 'r \<Rightarrow> 'r) \<Rightarrow> Module list \<Rightarrow> 'r \<Rightarrow> 'r" where
  "opa_Modules rego_Module modules r = foldl (\<lambda>r m. rego_Module (Filename m) (Contents m) r) r modules"

section \<open>Cleaning paths\<close>

definition good :: "string \<Rightarrow> bool" where
  "good e \<longleftrightarrow> e \<noteq> [] \<and> e \<noteq> ''.''"

definition norm :: "string \<Rightarrow> string list" where
  "norm p = clean_elems (rooted p) [] (path_elems p)"

lemma path_elems_ne [simp]: "path_elems p \<noteq> []"
  by (cases p) (auto split: list.split)

lemma path_elems_append: "path_elems (a @ CHR ''/'' # b) = path_elems a @ path_elems b"
  by (induction a) (auto split: list.split)

lemma path_elems_no_slash: "CHR ''/'' \<notin> set e \<Longrightarrow> path_elems e = [e]"
  by (induction e) auto

lemma path_elems_chars: "e \<in> set (path_elems p) \<Longrightarrow> CHR ''/'' \<notin> set e"
  by (induction p arbitrary: e) (auto split: list.splits if_splits)

lemma path_elems_Join:
  "es \<noteq> [] \<Longrightarrow> \<forall>e\<in>set es. CHR ''/'' \<notin> set e \<Longrightarrow> path_elems (Join es ''/'') = es"
  by (induction es rule: induct_list012) (auto simp: path_elems_no_slash path_elems_append)

text \<open>What cleaning leaves behind: elements that are not empty or a dot, and leading double dots at most.\<close>

definition clean :: "bool \<Rightarrow> string list \<Rightarrow> bool" where
  "clean r es \<longleftrightarrow> (\<forall>e\<in>set es. good e \<and> CHR ''/'' \<notin> set e) \<and>
     (\<exists>n xs. es = replicate n ''..'' @ xs \<and> ''..'' \<notin> set xs \<and> (r \<longrightarrow> n = 0))"

lemma clean_elems_good:
  "''..'' \<notin> set es \<Longrightarrow> clean_elems r out es = rev out @ filter good es"
  by (induction es arbitrary: out) (auto simp: good_def)

lemma clean_elems_append:
  "clean_elems r out (es @ fs) = clean_elems r (rev (clean_elems r out es)) fs"
  by (induction r out es rule: clean_elems.induct) (auto split: list.split)

lemma clean_elems_id:
  assumes "clean r es"
  shows "clean_elems r [] es = es"
proof -
  obtain n xs where es: "es = replicate n ''..'' @ xs" "''..'' \<notin> set xs" "r \<longrightarrow> n = 0"
    using assms by (auto simp: clean_def)
  have dots: "\<not> r \<Longrightarrow> clean_elems r (replicate k ''..'') (replicate n ''..'') = replicate (k + n) ''..''" for k
  proof (induction n arbitrary: k)
    case (Suc n)
    then show ?case using Suc.IH [of "Suc k"] by (cases k) (auto simp: replicate_append_same)
  qed simp
  have "clean_elems r [] (replicate n ''..'') = replicate n ''..''"
    using dots [of 0] es(3) by (cases r) auto
  moreover have "filter good xs = xs" using assms es(1) by (auto simp: clean_def filter_id_conv)
  ultimately show ?thesis using es(1,2) by (simp add: clean_elems_append clean_elems_good)
qed


lemma clean_push:
  assumes "clean r (rev out)" "good e" "CHR ''/'' \<notin> set e"
    and "e = ''..'' \<Longrightarrow> \<not> r \<and> set out \<subseteq> {''..''}"
  shows "clean r (rev (e # out))"
proof -
  obtain n xs where o: "rev out = replicate n ''..'' @ xs" "''..'' \<notin> set xs" "r \<longrightarrow> n = 0"
    using assms(1) by (auto simp: clean_def)
  have xs: "xs = []" if "set out \<subseteq> {''..''}"
  proof -
    have "set xs \<subseteq> {''..''}" using that o(1) by (metis set_rev set_append le_sup_iff)
    then show ?thesis using o(2) by (cases xs) auto
  qed
  show ?thesis
  proof (cases "e = ''..''")
    case True
    then have "rev (e # out) = replicate (Suc n) ''..'' @ []" using xs assms(4) o(1)
      by (simp add: replicate_append_same)
    then show ?thesis using assms True unfolding clean_def by (metis (no_types, lifting) UnE empty_iff
        empty_set list.set_intros(1) rev.simps(2) set_ConsD set_append list.simps(15) insert_iff)
  next
    case False
    then have "rev (e # out) = replicate n ''..'' @ (xs @ [e])" "''..'' \<notin> set (xs @ [e])" using o by auto
    then show ?thesis using assms o(3) unfolding clean_def by fastforce
  qed
qed

lemma clean_snoc:
  assumes "clean r (rev (x # out))"
  shows "clean r (rev out)" "x = ''..'' \<Longrightarrow> \<not> r \<and> set out \<subseteq> {''..''}"
proof -
  obtain n xs where o: "rev out @ [x] = replicate n ''..'' @ xs" "''..'' \<notin> set xs" "r \<longrightarrow> n = 0"
    using assms by (auto simp: clean_def)
  have g: "\<forall>e\<in>set (rev out). good e \<and> CHR ''/'' \<notin> set e" using assms by (simp add: clean_def)
  show "clean r (rev out)"
  proof (cases xs rule: rev_cases)
    case Nil
    then have "replicate n ''..'' = rev out @ [x]" using o by simp
    then have "rev out = replicate (n - 1) ''..'' @ []"
      by (cases n) (auto simp: replicate_append_same [symmetric] simp del: replicate.simps(2) simp: replicate_Suc)
    then show ?thesis using g o(3) unfolding clean_def by fastforce
  next
    case (snoc ys y)
    then have "rev out = replicate n ''..'' @ ys" "''..'' \<notin> set ys" using o by auto
    then show ?thesis using g o(3) unfolding clean_def by blast
  qed
  show "\<not> r \<and> set out \<subseteq> {''..''}" if x: "x = ''..''"
  proof -
    have "xs = []" using o x by (cases xs rule: rev_cases) auto
    then have r: "rev out @ [x] = replicate n ''..''" using o by simp
    then have "set (rev out @ [x]) \<subseteq> {''..''}" unfolding r by (auto simp: set_replicate_conv_if)
    moreover have "n \<noteq> 0" using r by (cases n) auto
    ultimately show ?thesis using o(3) by auto
  qed
qed

lemma clean_elems_clean:
  "clean r (rev out) \<Longrightarrow> \<forall>e\<in>set es. CHR ''/'' \<notin> set e \<Longrightarrow> clean r (clean_elems r out es)"
proof (induction r out es rule: clean_elems.induct)
  case (2 r out e es)
  consider "e = [] \<or> e = ''.''" | "e = ''..''" | "good e" "e \<noteq> ''..''" by (auto simp: good_def)
  then show ?case
  proof cases
    case 1 then show ?thesis using 2 by simp
  next
    case dots: 2
    have e: "good e" "CHR ''/'' \<notin> set e" by (auto simp: dots good_def)
    show ?thesis
    proof (cases out)
      case Nil
      then show ?thesis using 2 dots clean_push [of r "[]" e] e by auto
    next
      case (Cons x xs)
      show ?thesis
      proof (cases "x = ''..''")
        case True
        then have "clean r (rev (e # out))"
          using "2.prems"(1) Cons e clean_snoc(2) [of r x xs] by (intro clean_push) auto
        then show ?thesis using 2 dots Cons True by simp
      next
        case False
        then show ?thesis using 2 dots Cons clean_snoc(1) [of r x xs] by simp
      qed
    qed
  next
    case 3
    then have "clean r (rev (e # out))" using "2.prems" by (intro clean_push) auto
    then show ?thesis using 2 3 by (auto simp: good_def)
  qed
qed simp

lemma norm_clean: "clean (rooted p) (norm p)"
  unfolding norm_def by (rule clean_elems_clean) (auto simp: clean_def dest: path_elems_chars)

lemma norm_chars: "e \<in> set (norm p) \<Longrightarrow> good e \<and> CHR ''/'' \<notin> set e"
  using norm_clean [of p] by (auto simp: clean_def)

lemma path_elems_Clean:
  "path_elems (filepath_Clean p) =
     (if rooted p then [] # (if norm p = [] then [[]] else norm p)
      else if norm p = [] then [''.''] else norm p)"
proof -
  have j: "path_elems (Join (norm p) ''/'') = norm p" if "norm p \<noteq> []"
    using that by (intro path_elems_Join) (auto dest: norm_chars)
  have n: "Join (norm p) ''/'' \<noteq> []" if "norm p \<noteq> []"
    using that norm_chars [of "hd (norm p)" p] by (cases "norm p" rule: remdups_adj.cases) (auto simp: good_def)
  show ?thesis using j n by (auto simp: filepath_Clean_def Let_def norm_def [symmetric])
qed

lemma rooted_iff: "rooted p \<longleftrightarrow> (\<exists>es. path_elems p = [] # es \<and> es \<noteq> [])"
  by (cases p) (auto simp: rooted_def split: list.split)

lemma rooted_Clean [simp]: "rooted (filepath_Clean p) = rooted p"
  using norm_chars [of "[]" p] unfolding rooted_iff [of "filepath_Clean p"] path_elems_Clean
  by (cases "norm p") (auto simp: good_def)

lemma norm_Clean [simp]: "norm (filepath_Clean p) = norm p"
  using clean_elems_id [OF norm_clean [of p]]
  unfolding norm_def [of "filepath_Clean p"] path_elems_Clean rooted_Clean by (cases "rooted p") simp_all

lemma Clean_elems:
  "filter good (path_elems (filepath_Clean p)) = norm p"
  "set (path_elems (filepath_Clean p)) \<subseteq> {[], ''.''} \<union> set (norm p)"
proof -
  have "filter good (norm p) = norm p" by (auto simp: filter_id_conv dest: norm_chars)
  then show "filter good (path_elems (filepath_Clean p)) = norm p"
    by (simp add: path_elems_Clean) (simp add: good_def)
  show "set (path_elems (filepath_Clean p)) \<subseteq> {[], ''.''} \<union> set (norm p)"
    by (auto simp: path_elems_Clean)
qed

lemma norm_no_dots: "''..'' \<notin> set (path_elems p) \<Longrightarrow> norm p = filter good (path_elems p)"
  by (simp add: norm_def clean_elems_good)

lemma norm_Join:
  assumes "''..'' \<notin> set (path_elems b)"
  shows "norm (filepath_Join a b) = norm a @ filter good (path_elems b)"
proof (cases "a = []")
  case True
  then show ?thesis using assms
    by (cases "b = []") (simp_all add: filepath_Join_def norm_no_dots, simp_all add: norm_def good_def)
next
  case False
  then have "rooted (a @ CHR ''/'' # b) = rooted a" by (simp add: rooted_def)
  then have "norm (a @ CHR ''/'' # b) = norm a @ filter good (path_elems b)" using assms
    by (simp add: norm_def path_elems_append clean_elems_append [of _ _ "path_elems a"] clean_elems_good)
  then show ?thesis using False by (simp add: filepath_Join_def)
qed

lemma Dir_elems:
  "path_elems (rev (dropWhile (\<lambda>c. c \<noteq> CHR ''/'') (rev f))) = butlast (path_elems f) @ [[]]"
proof (cases "CHR ''/'' \<in> set f")
  case True
  then obtain a b where f: "f = a @ CHR ''/'' # b" "CHR ''/'' \<notin> set b" by (metis split_list_last)
  then have "rev (dropWhile (\<lambda>c. c \<noteq> CHR ''/'') (rev f)) = a @ CHR ''/'' # []"
    by (simp only: f(1) rev_append rev.simps append_assoc) (subst dropWhile_append2, use f(2) in auto)
  then show ?thesis using f by (simp add: path_elems_append path_elems_no_slash butlast_append)
next
  case False
  then have d: "dropWhile (\<lambda>c. c \<noteq> CHR ''/'') (rev f) = []" by auto
  show ?thesis using False by (simp add: d path_elems_no_slash)
qed

lemma Base_elems:
  assumes "f \<noteq> []" "last f \<noteq> CHR ''/''"
  shows "filepath_Base f = last (path_elems f)"
proof -
  have "rev (dropWhile (\<lambda>c. c = CHR ''/'') (rev f)) = f" using assms
    by (cases f rule: rev_cases) auto
  then have b: "filepath_Base f = rev (takeWhile (\<lambda>c. c \<noteq> CHR ''/'') (rev f))"
    using assms(1) by (simp add: filepath_Base_def)
  show ?thesis
  proof (cases "CHR ''/'' \<in> set f")
    case True
    then obtain a b where f: "f = a @ CHR ''/'' # b" "CHR ''/'' \<notin> set b" by (metis split_list_last)
    moreover have "takeWhile (\<lambda>c. c \<noteq> CHR ''/'') (rev b @ CHR ''/'' # rev a) = rev b"
      using f(2) by (subst takeWhile_append2) auto
    ultimately show ?thesis using b by (simp add: path_elems_append path_elems_no_slash)
  next
    case False
    then have t: "takeWhile (\<lambda>c. c \<noteq> CHR ''/'') (rev f) = rev f" by (auto simp: takeWhile_eq_all_conv)
    show ?thesis using False by (simp add: b t path_elems_no_slash)
  qed
qed

theorem module_path_within:
  assumes "''..'' \<notin> set (path_elems f)" "f \<noteq> []" "last f \<noteq> CHR ''/''"
  shows "norm (module_path parent f) = norm parent @ filter good (path_elems f)"
proof -
  have dir: "norm (rev (dropWhile (\<lambda>c. c \<noteq> CHR ''/'') (rev f))) = filter good (butlast (path_elems f))"
    using assms(1) by (subst norm_no_dots) (auto simp: Dir_elems good_def dest: in_set_butlastD)
  have "''..'' \<notin> set (path_elems (filepath_Dir f))"
    using assms(1) Clean_elems(2) [of "rev (dropWhile (\<lambda>c. c \<noteq> CHR ''/'') (rev f))"]
    by (auto simp: filepath_Dir_def dir dest: in_set_butlastD)
  then have "norm (module_dir parent f) = norm parent @ filter good (butlast (path_elems f))"
    by (simp add: module_dir_def norm_Join filepath_Dir_def Clean_elems dir)
  moreover have "path_elems (last (path_elems f)) = [last (path_elems f)]"
    by (rule path_elems_no_slash) (meson last_in_set path_elems_ne path_elems_chars)
  moreover have "''..'' \<noteq> last (path_elems f)" using assms(1) last_in_set [OF path_elems_ne] by metis
  ultimately have "norm (module_path parent f)
      = norm parent @ filter good (butlast (path_elems f) @ [last (path_elems f)])"
    using assms(2,3) by (simp add: module_path_def norm_Join Base_elems del: append_butlast_last_id)
  then show ?thesis by (simp only: append_butlast_last_id [OF path_elems_ne])
qed

text \<open>Nothing keeps a file name with double dots inside the directory.\<close>

lemma module_path_escapes:
  "module_path ''/srv/policies'' ''../../etc/evil.rego'' = ''/etc/evil.rego''"
  "module_path ''/srv/policies'' ''example.org/app/routing.rego'' = ''/srv/policies/example.org/app/routing.rego''"
  by code_simp+

text \<open>A file that cannot be created is not written or closed; the error of closing counts when writing succeeded.\<close>

lemma WriteFile_ok_iff:
  "snd (fst (WriteFile F m parent perm e)) = None \<longleftrightarrow>
     (\<exists>e1 h e2 n e3 e4.
        MkdirAll F (module_dir parent (Filename m)) perm e = (None, e1) \<and>
        Create F (module_path parent (Filename m)) e1 = (Inr h, e2) \<and>
        WriteString F h (Contents m) e2 = ((n, None), e3) \<and>
        file_Close F h e3 = (None, e4))"
  by (auto simp: WriteFile_def split: prod.splits option.splits sum.splits)

end
