(* ===== verification/Templates.thy ===== *)
theory Templates
  imports Web Database TurboStreams
begin

text \<open>
  Templates and assets of the root package: which file is what kind of template, the walks of the file
  systems, the fingerprints of the embedded files, and the renderer with its entity tags.

  The libraries are the record \<open>web_libs\<close>: \<^verbatim>\<open>html/template\<close> (parsing a text into named trees and executing a
  set of them), \<^verbatim>\<open>doublestar.Glob\<close>, the JSON encoder and the two hash functions.
\<close>

section \<open>Kinds of files\<close>

definition templateFileExt :: string where "templateFileExt = ''.tmpl''"
definition partialTemplateFileExt :: string where "partialTemplateFileExt = ''.partial'' @ templateFileExt"
definition layoutTemplateFileExt :: string where "layoutTemplateFileExt = ''.layout'' @ templateFileExt"
definition templateSharedModule :: string where "templateSharedModule = ''shared''"

definition filterTemplate :: "string \<Rightarrow> bool" where
  "filterTemplate path = HasSuffix path templateFileExt"

definition filterSharedTemplate :: "string \<Rightarrow> bool" where
  "filterSharedTemplate path \<longleftrightarrow> filterTemplate path \<and> prefix (templateSharedModule @ ''/'') path"

definition filterPartialTemplate :: "string \<Rightarrow> bool" where
  "filterPartialTemplate path = HasSuffix path partialTemplateFileExt"

definition filterLayoutTemplate :: "string \<Rightarrow> bool" where
  "filterLayoutTemplate path = HasSuffix path layoutTemplateFileExt"

definition filterNonpageTemplate :: "string \<Rightarrow> bool" where
  "filterNonpageTemplate path \<longleftrightarrow> filterPartialTemplate path \<or> filterLayoutTemplate path"

definition filterPageTemplate :: "string \<Rightarrow> bool" where
  "filterPageTemplate path \<longleftrightarrow> filterTemplate path \<and> \<not> filterNonpageTemplate path"

definition filterTemplateModule :: "string \<Rightarrow> bool" where
  "filterTemplateModule path \<longleftrightarrow> path \<noteq> templateSharedModule"

definition filterCSSAsset :: "string \<Rightarrow> bool" where "filterCSSAsset path = HasSuffix path ''.css''"
definition filterJSAsset :: "string \<Rightarrow> bool" where "filterJSAsset path = HasSuffix path ''.js''"

definition filterAsset :: "string \<Rightarrow> bool" where
  "filterAsset path \<longleftrightarrow> filterCSSAsset path \<or> filterJSAsset path"

section \<open>Walking and reading file systems\<close>

text \<open>
  The root package has its own copies of the walk and read functions of \<^verbatim>\<open>src/database/fsutil.go\<close>, and a walk for
  directories, in which the root directory is the empty string.
\<close>

fun directory_walk :: "(string \<Rightarrow> bool) option \<Rightarrow> (string \<times> bool \<times> error option) list \<Rightarrow> string list \<Rightarrow> error + string list" where
  "directory_walk flt [] ds = Inr ds"
| "directory_walk flt ((path, isDir, err) # ws) ds =
     (case err of
        Some e \<Rightarrow> Inl e
      | None \<Rightarrow>
          if \<not> isDir then directory_walk flt ws ds
          else if flt = None \<or> the flt path
          then (if path = ''.'' then directory_walk flt ws (ds @ [[]]) else directory_walk flt ws (ds @ [path]))
          else directory_walk flt ws ds)"

definition listDirectories :: "FS \<Rightarrow> (string \<Rightarrow> bool) option \<Rightarrow> error + string list" where
  "listDirectories f flt = directory_walk flt (fs_walk f) []"

definition web_listFiles :: "FS \<Rightarrow> (string \<Rightarrow> bool) option \<Rightarrow> error + string list" where
  "web_listFiles f flt = list_walk flt (fs_walk f) []"

definition web_readFile :: "string \<Rightarrow> FS \<Rightarrow> error + string" where
  "web_readFile filename f = (case fs_Open f filename of Inl e \<Rightarrow> Inl e | Inr file \<Rightarrow> f_read file)"

fun read_concatenated :: "string list \<Rightarrow> FS \<Rightarrow> string \<Rightarrow> error + string" where
  "read_concatenated [] f concatenated = Inr concatenated"
| "read_concatenated (name # names) f concatenated =
     (case web_readFile name f of
        Inl e \<Rightarrow> Inl e
      | Inr data \<Rightarrow> read_concatenated names f (concatenated @ data))"

definition readConcatenated :: "string list \<Rightarrow> FS \<Rightarrow> error + string" where
  "readConcatenated filenames f = read_concatenated filenames f []"

text \<open>
  \<^verbatim>\<open>fs.Sub\<close> of a directory that a walk reported: the entries below it, by their names inside of it, and the files
  opened under their full names.
\<close>

definition inside :: "string \<Rightarrow> string \<times> bool \<times> error option \<Rightarrow> (string \<times> bool \<times> error option) option" where
  "inside dir = (\<lambda>(path, isDir, err).
     if path = dir then Some (''.'', isDir, err)
     else if prefix (dir @ ''/'') path then Some (drop (length dir + 1) path, isDir, err)
     else None)"

definition fs_Sub :: "FS \<Rightarrow> string \<Rightarrow> FS" where
  "fs_Sub f dir =
     \<lparr>fs_walk = List.map_filter (inside dir) (fs_walk f),
      fs_Open = (\<lambda>name. fs_Open f (if name = ''.'' then dir else dir @ ''/'' @ name))\<rparr>"

text \<open>\<^verbatim>\<open>path.Dir\<close> of a path that a walk reported, which is clean.\<close>

definition path_Dir :: "string \<Rightarrow> string" where
  "path_Dir path =
     (if CHR ''/'' \<in> set path then rev (tl (dropWhile (\<lambda>c. c \<noteq> CHR ''/'') (rev path))) else ''.'')"

section \<open>Template sets\<close>

text \<open>
  A set of templates by name, with the function maps for parsing and executing them. A set that has been executed
  can neither be cloned nor parsed into; the renderer clones only sets it does not execute, so sets need no mark.
\<close>

record ('b, 'f) template_set =
  ts_name :: string
  ts_funcs :: "'f list"
  ts_trees :: "string \<rightharpoonup> 'b"

record renderedStreamMessage =
  rm_Action :: string
  rm_Targets :: string
  rm_Target :: string
  rm_Rendered :: string

type_synonym FormValues = "string \<rightharpoonup> string list"

record RenderDataMeta =
  md_Path :: string
  md_RequestURI :: string
  md_BasePath :: string
  md_Form :: FormValues

record 'd RenderData =
  rd_Meta :: RenderDataMeta
  rd_Inlines :: 'd
  rd_Data :: 'd
  rd_Auth :: 'd

text \<open>What a template is executed on.\<close>

datatype 'd argument = PageArgument "'d RenderData" | DataArgument 'd | MessagesArgument "renderedStreamMessage list"

record 'd EtagInputs =
  ei_Data :: 'd
  ei_Auth :: 'd

record ('b, 'f, 'd) web_libs =
  wl_Parse :: "'f list \<Rightarrow> string \<Rightarrow> string \<Rightarrow> error + (string \<times> 'b) list"
  wl_IsEmptyTree :: "'b \<Rightarrow> bool"
  wl_Execute :: "'f list \<Rightarrow> (string \<rightharpoonup> 'b) \<Rightarrow> string \<Rightarrow> 'd argument \<Rightarrow> string \<times> error option"
  wl_Glob :: "FS \<Rightarrow> string \<Rightarrow> error + string list"
  wl_Encode :: "'d EtagInputs \<Rightarrow> error + string"
  wl_murmur3 :: "string \<Rightarrow> 64 word"
  wl_sha512 :: "string \<Rightarrow> string"

definition template_New :: "string \<Rightarrow> ('b, 'f) template_set" where
  "template_New name = \<lparr>ts_name = name, ts_funcs = [], ts_trees = Map.empty\<rparr>"

definition template_Funcs :: "'f \<Rightarrow> ('b, 'f) template_set \<Rightarrow> ('b, 'f) template_set" where
  "template_Funcs f t = t\<lparr>ts_funcs := ts_funcs t @ [f]\<rparr>"

text \<open>An empty tree does not replace a tree; every other tree does.\<close>

definition add_tree :: "('b \<Rightarrow> bool) \<Rightarrow> (string \<rightharpoonup> 'b) \<Rightarrow> string \<times> 'b \<Rightarrow> (string \<rightharpoonup> 'b)" where
  "add_tree isEmpty m = (\<lambda>(name, tree). if isEmpty tree \<and> m name \<noteq> None then m else m(name \<mapsto> tree))"

definition template_Parse ::
  "('b, 'f, 'd) web_libs \<Rightarrow> string \<Rightarrow> string \<Rightarrow> ('b, 'f) template_set \<Rightarrow> error + ('b, 'f) template_set" where
  "template_Parse L name text t =
     (case wl_Parse L (ts_funcs t) name text of
        Inl e \<Rightarrow> Inl e
      | Inr trees \<Rightarrow> Inr (t\<lparr>ts_trees := foldl (add_tree (wl_IsEmptyTree L)) (ts_trees t) trees\<rparr>))"

definition ExecuteTemplate ::
  "('b, 'f, 'd) web_libs \<Rightarrow> ('b, 'f) template_set \<Rightarrow> string \<Rightarrow> 'd argument \<Rightarrow> string \<times> error option" where
  "ExecuteTemplate L t name v =
     (case ts_trees t name of
        None \<Rightarrow> ([], Some (ExternalError ''html/template: %q is undefined''))
      | Some _ \<Rightarrow> wl_Execute L (ts_funcs t) (ts_trees t) name v)"

section \<open>Parsing template files\<close>

text \<open>
  \<^verbatim>\<open>parseFiles\<close>: the template that a file is parsed into is the set itself or a new one in the set, both of which
  put the trees of the file into the set.
\<close>

fun parse_each ::
  "('b, 'f, 'd) web_libs \<Rightarrow> ('b, 'f) template_set option \<Rightarrow> (string \<Rightarrow> error + (string \<times> string)) \<Rightarrow> string list \<Rightarrow>
   error + ('b, 'f) template_set option" where
  "parse_each L t readF [] = Inr t"
| "parse_each L t readF (filename # filenames) =
     (case readF filename of
        Inl e \<Rightarrow> Inl (Wrapped ''couldn't read file %s'' e)
      | Inr (name, s) \<Rightarrow>
          let t1 = (case t of None \<Rightarrow> template_New name | Some t1 \<Rightarrow> t1)
          in case template_Parse L name s t1 of
               Inl e \<Rightarrow> Inl (Wrapped ''couldn't parse template %s'' e)
             | Inr t2 \<Rightarrow> parse_each L (Some t2) readF filenames)"

definition parseFiles ::
  "('b, 'f, 'd) web_libs \<Rightarrow> ('b, 'f) template_set option \<Rightarrow> (string \<Rightarrow> error + (string \<times> string)) \<Rightarrow> string list \<Rightarrow>
   error + ('b, 'f) template_set option" where
  "parseFiles L t readF filenames =
     (if filenames = [] then Inl (Errorf ''no files named for parsing'') else parse_each L t readF filenames)"

text \<open>The template is named by the path of the file.\<close>

definition readFileFS :: "FS \<Rightarrow> string \<Rightarrow> error + (string \<times> string)" where
  "readFileFS fsys file = (case web_readFile file fsys of Inl e \<Rightarrow> Inl e | Inr b \<Rightarrow> Inr (file, b))"

fun glob_all :: "('b, 'f, 'd) web_libs \<Rightarrow> FS \<Rightarrow> string list \<Rightarrow> string list \<Rightarrow> error + string list" where
  "glob_all L fsys [] filenames = Inr filenames"
| "glob_all L fsys (p # ps) filenames =
     (case wl_Glob L fsys p of
        Inl e \<Rightarrow> Inl e
      | Inr matches \<Rightarrow>
          if matches = [] then Inl (Errorf ''pattern matches no files: %#q'')
          else glob_all L fsys ps (filenames @ matches))"

definition parseFS ::
  "('b, 'f, 'd) web_libs \<Rightarrow> ('b, 'f) template_set option \<Rightarrow> FS \<Rightarrow> string list \<Rightarrow> error + ('b, 'f) template_set option" where
  "parseFS L t fsys patterns =
     (case glob_all L fsys patterns [] of
        Inl e \<Rightarrow> Inl e
      | Inr filenames \<Rightarrow> parseFiles L t (readFileFS fsys) filenames)"

section \<open>Fingerprints of the embedded files\<close>

text \<open>
  Maps that the code ranges over are association lists here, in the order of the walk; Go's order differs from run
  to run, on which only the choice among several errors depends.
\<close>

fun module_files :: "FS \<Rightarrow> string list \<Rightarrow> error + (string \<times> string list) list" where
  "module_files templates [] = Inr []"
| "module_files templates (modul # moduls) =
     (let subfs = (if modul = [] then templates else fs_Sub templates modul)
      in case web_listFiles subfs (Some filterNonpageTemplate) of
           Inl e \<Rightarrow> Inl (Wrapped ''couldn't list template files in module %s'' e)
         | Inr subfiles \<Rightarrow>
             (case module_files templates moduls of
                Inl e \<Rightarrow> Inl e
              | Inr rest \<Rightarrow>
                  Inr ((modul, map (\<lambda>subfile. if modul = [] then subfile else modul @ ''/'' @ subfile) subfiles) # rest)))"

definition identifyModuleNonpageFiles :: "FS \<Rightarrow> error + (string \<times> string list) list" where
  "identifyModuleNonpageFiles templates =
     (case listDirectories templates (Some filterTemplateModule) of
        Inl e \<Rightarrow> Inl (Wrapped ''couldn't list template modules'' e)
      | Inr moduls \<Rightarrow> module_files templates moduls)"

definition computeAppFingerprint ::
  "(string \<Rightarrow> 64 word) \<Rightarrow> string list \<Rightarrow> string list \<Rightarrow> FS \<Rightarrow> FS \<Rightarrow> error + string" where
  "computeAppFingerprint murmur3 appAssets sharedTemplates templates app =
     (case readConcatenated appAssets app of
        Inl e \<Rightarrow> Inl (Wrapped ''couldn't load all app assets together for fingerprinting'' e)
      | Inr appConcatenated \<Rightarrow>
          (case readConcatenated sharedTemplates templates of
             Inl e \<Rightarrow> Inl (Wrapped ''couldn't load all shared templates together for fingerprinting'' e)
           | Inr sharedConcatenated \<Rightarrow> Inr (computeFingerprint murmur3 (appConcatenated @ sharedConcatenated))))"

fun load_nonpages :: "FS \<Rightarrow> (string \<times> string list) list \<Rightarrow> error + (string \<times> string) list" where
  "load_nonpages templates [] = Inr []"
| "load_nonpages templates ((modul, fs) # ms) =
     (case readConcatenated fs templates of
        Inl e \<Rightarrow> Inl (Wrapped ''couldn't load non-page template files in module %s for fingerprinting'' e)
      | Inr loadedNonpages \<Rightarrow>
          (case load_nonpages templates ms of Inl e \<Rightarrow> Inl e | Inr rest \<Rightarrow> Inr ((modul, loadedNonpages) # rest)))"

fun load_pages :: "FS \<Rightarrow> string list \<Rightarrow> error + (string \<times> string) list" where
  "load_pages templates [] = Inr []"
| "load_pages templates (file # fs) =
     (case web_readFile file templates of
        Inl e \<Rightarrow> Inl (Wrapped ''couldn't load page template %s for fingerprinting'' e)
      | Inr loadedPage \<Rightarrow>
          (case load_pages templates fs of Inl e \<Rightarrow> Inl e | Inr rest \<Rightarrow> Inr ((file, loadedPage) # rest)))"

text \<open>Indexing a map without the key yields the empty value.\<close>

definition value_at :: "(string \<times> string) list \<Rightarrow> string \<Rightarrow> string" where
  "value_at m k = (case map_of m k of None \<Rightarrow> [] | Some v \<Rightarrow> v)"

definition computePageFingerprints ::
  "(string \<Rightarrow> 64 word) \<Rightarrow> (string \<times> string list) list \<Rightarrow> string list \<Rightarrow> FS \<Rightarrow> error + (string \<rightharpoonup> string)" where
  "computePageFingerprints murmur3 moduleNonpageFiles pageFiles templates =
     (case load_nonpages templates moduleNonpageFiles of
        Inl e \<Rightarrow> Inl e
      | Inr moduleNonpages \<Rightarrow>
          (case load_pages templates pageFiles of
             Inl e \<Rightarrow> Inl e
           | Inr pages \<Rightarrow>
               Inr (map_of (map (\<lambda>pageFile.
                 (pageFile, computeFingerprint murmur3 (value_at pages pageFile @ value_at moduleNonpages (path_Dir pageFile))))
                 pageFiles))))"

text \<open>\<open>StaticHFS\<close> and \<open>AppHFS\<close> stand for the \<^verbatim>\<open>HashName\<close> functions of the hashed file systems.\<close>

record WebEmbeds =
  StaticFS :: FS
  StaticHFS :: "string \<Rightarrow> string"
  TemplatesFS :: FS
  AppFS :: FS
  AppHFS :: "string \<Rightarrow> string"
  FontsFS :: FS

definition embeds_AppFingerprint :: "(string \<Rightarrow> 64 word) \<Rightarrow> WebEmbeds \<Rightarrow> error + string" where
  "embeds_AppFingerprint murmur3 e =
     (case web_listFiles (AppFS e) (Some filterAsset) of
        Inl err \<Rightarrow> Inl (Wrapped ''couldn't list app assets'' err)
      | Inr appAssetFiles \<Rightarrow>
          (case web_listFiles (TemplatesFS e) (Some filterSharedTemplate) of
             Inl err \<Rightarrow> Inl (Wrapped ''couldn't list shared templates'' err)
           | Inr sharedFiles \<Rightarrow>
               map_sum (Wrapped ''couldn't compute fingerprint for app'') id
                 (computeAppFingerprint murmur3 appAssetFiles sharedFiles (TemplatesFS e) (AppFS e))))"

definition embeds_PageFingerprints :: "(string \<Rightarrow> 64 word) \<Rightarrow> WebEmbeds \<Rightarrow> error + (string \<rightharpoonup> string)" where
  "embeds_PageFingerprints murmur3 e =
     (case identifyModuleNonpageFiles (TemplatesFS e) of
        Inl err \<Rightarrow> Inl (Wrapped ''couldn't list template module non-page template files'' err)
      | Inr moduleNonpageFiles \<Rightarrow>
          (case web_listFiles (TemplatesFS e) (Some filterPageTemplate) of
             Inl err \<Rightarrow> Inl (Wrapped ''couldn't list template pages'' err)
           | Inr pageFiles \<Rightarrow>
               map_sum (Wrapped ''couldn't compute fingerprint for page/module templates'') id
                 (computePageFingerprints murmur3 moduleNonpageFiles pageFiles (TemplatesFS e))))"

definition GetAppHashedNamer :: "string \<Rightarrow> WebEmbeds \<Rightarrow> string \<Rightarrow> string" where
  "GetAppHashedNamer urlPrefix e unhashedFilename = urlPrefix @ AppHFS e unhashedFilename"

definition GetStaticHashedNamer :: "string \<Rightarrow> WebEmbeds \<Rightarrow> string \<Rightarrow> string" where
  "GetStaticHashedNamer urlPrefix e unhashedFilename = urlPrefix @ StaticHFS e unhashedFilename"

section \<open>Inline snippets\<close>

definition ComputeCSPHash :: "(string \<Rightarrow> string) \<Rightarrow> string \<Rightarrow> string" where
  "ComputeCSPHash sha512 resource = [CHR 0x27] @ ''sha512-'' @ EncodeToString (sha512 resource) @ [CHR 0x27]"

record Inlines =
  CSS :: "(string \<times> string) list"
  JS :: "(string \<times> string) list"
  JSStr :: "(string \<times> string) list"
  HTML :: "(string \<times> string) list"
  HTMLAttr :: "(string \<times> string) list"
  SrcSet :: "(string \<times> string) list"

definition ComputeCSSHashesForCSP :: "(string \<Rightarrow> string) \<Rightarrow> Inlines \<Rightarrow> string list" where
  "ComputeCSSHashesForCSP sha512 i = map (\<lambda>(_, inline). ComputeCSPHash sha512 inline) (CSS i)"

definition ComputeJSHashesForCSP :: "(string \<Rightarrow> string) \<Rightarrow> Inlines \<Rightarrow> string list" where
  "ComputeJSHashesForCSP sha512 i = map (\<lambda>(_, inline). ComputeCSPHash sha512 inline) (JS i)"

section \<open>What the walks give\<close>

definition content :: "FS \<Rightarrow> string \<Rightarrow> string" where
  "content f p = (case web_readFile p f of Inl _ \<Rightarrow> [] | Inr s \<Rightarrow> s)"

definition walk_files :: "FS \<Rightarrow> (string \<Rightarrow> bool) \<Rightarrow> string list" where
  "walk_files f flt = map fst (filter (\<lambda>(p, d, err). \<not> d \<and> flt p) (fs_walk f))"

definition walk_fails :: "(string \<times> bool \<times> error option) list \<Rightarrow> bool" where
  "walk_fails ws \<longleftrightarrow> (\<exists>(p, d, err)\<in>set ws. err \<noteq> None)"

lemma web_listFiles_Inr:
  "web_listFiles f (Some flt) = Inr fs \<longleftrightarrow> \<not> walk_fails (fs_walk f) \<and> fs = walk_files f flt"
  by (auto simp: web_listFiles_def list_walk_Inr walk_files_def walk_fails_def)

lemma directory_walk_Inr:
  "directory_walk (Some flt) ws acc = Inr ds \<longleftrightarrow> \<not> walk_fails ws \<and>
     ds = acc @ map (\<lambda>(p, d, err). if p = ''.'' then [] else p) (filter (\<lambda>(p, d, err). d \<and> flt p) ws)"
proof (induction ws arbitrary: acc)
  case (Cons w ws)
  then show ?case by (cases w) (auto simp: walk_fails_def split: option.splits)
qed (auto simp: walk_fails_def)

lemma read_concatenated_Inr:
  "read_concatenated names f acc = Inr s \<Longrightarrow> s = acc @ concat (map (content f) names)"
  by (induction names f acc rule: read_concatenated.induct) (auto simp: content_def split: sum.splits)

lemma readConcatenated_Inr: "readConcatenated names f = Inr s \<Longrightarrow> s = concat (map (content f) names)"
  by (auto simp: readConcatenated_def dest: read_concatenated_Inr)

lemma load_pages_Inr:
  "load_pages f fs = Inr ps \<Longrightarrow> p \<in> set fs \<Longrightarrow> value_at ps p = content f p"
  by (induction f fs arbitrary: ps rule: load_pages.induct)
    (auto simp: value_at_def content_def split: sum.splits if_splits)

lemma load_nonpages_Inr:
  "load_nonpages f ms = Inr ns \<Longrightarrow>
     value_at ns modul = (case map_of ms modul of None \<Rightarrow> [] | Some fs \<Rightarrow> concat (map (content f) fs))"
  by (induction f ms arbitrary: ns rule: load_nonpages.induct)
    (auto simp: value_at_def dest: readConcatenated_Inr split: sum.splits)

section \<open>The files of a module\<close>

lemma suffix_after_slash:
  assumes "CHR ''/'' \<notin> set s"
  shows "suffix s (d @ CHR ''/'' # p) \<longleftrightarrow> suffix s p"
proof
  assume "suffix s (d @ CHR ''/'' # p)"
  then have "suffix s p \<or> suffix (CHR ''/'' # p) s"
    by (metis append_Cons_eq_iff suffix_append suffix_Cons suffix_def append_eq_append_conv2 append.left_neutral suffixE suffixI)
  then show "suffix s p" using assms by (auto dest: set_mono_suffix)
qed (simp add: suffix_appendI suffix_ConsI)

lemma filterNonpage_below:
  "filterNonpageTemplate (d @ CHR ''/'' # p) = filterNonpageTemplate p"
  by (simp add: filterNonpageTemplate_def filterPartialTemplate_def filterLayoutTemplate_def HasSuffix_def
      partialTemplateFileExt_def layoutTemplateFileExt_def templateFileExt_def suffix_after_slash)

text \<open>The partials and layouts below a directory, by their full paths.\<close>

definition nonpages_below :: "FS \<Rightarrow> string \<Rightarrow> string list" where
  "nonpages_below f d = walk_files f (\<lambda>p. prefix (d @ ''/'') p \<and> filterNonpageTemplate p)"

lemma walk_files_Sub:
  assumes "\<not> (\<exists>err. (d, False, err) \<in> set (fs_walk f))"
  shows "map (\<lambda>p. d @ ''/'' @ p) (walk_files (fs_Sub f d) filterNonpageTemplate) = nonpages_below f d"
proof -
  have "map (\<lambda>p. d @ ''/'' @ p) (map fst (filter (\<lambda>(p, dr, err). \<not> dr \<and> filterNonpageTemplate p) (List.map_filter (inside d) ws)))
      = map fst (filter (\<lambda>(p, dr, err). \<not> dr \<and> prefix (d @ ''/'') p \<and> filterNonpageTemplate p) ws)"
    if "\<not> (\<exists>err. (d, False, err) \<in> set ws)" for ws
    using that
  proof (induction ws)
    case (Cons w ws)
    obtain p dr err where w: "w = (p, dr, err)" by (cases w)
    have IH: "map (\<lambda>p. d @ ''/'' @ p) (map fst (filter (\<lambda>(p, dr, err). \<not> dr \<and> filterNonpageTemplate p) (List.map_filter (inside d) ws)))
      = map fst (filter (\<lambda>(p, dr, err). \<not> dr \<and> prefix (d @ ''/'') p \<and> filterNonpageTemplate p) ws)"
      using Cons by auto
    consider "p = d" | q where "p = d @ CHR ''/'' # q" | "p \<noteq> d" "\<not> prefix (d @ ''/'') p"
      by (auto simp: prefix_def)
    then show ?case
    proof cases
      case 1
      then have "dr" using Cons.prems w by auto
      with 1 IH w show ?thesis by (simp add: inside_def List.map_filter_simps)
    next
      case 2
      then show ?thesis using IH w by (simp add: inside_def List.map_filter_simps filterNonpage_below)
    next
      case 3
      then show ?thesis using IH w by (simp add: inside_def List.map_filter_simps)
    qed
  qed (simp add: List.map_filter_simps)
  from this [OF assms] show ?thesis by (simp add: walk_files_def nonpages_below_def fs_Sub_def)
qed

section \<open>The fingerprint of a page\<close>

definition is_module :: "FS \<Rightarrow> string \<Rightarrow> bool" where
  "is_module f d \<longleftrightarrow> d = [] \<and> (\<exists>err. (''.'', True, err) \<in> set (fs_walk f)) \<or>
     d \<noteq> ''.'' \<and> d \<noteq> templateSharedModule \<and> (\<exists>err. (d, True, err) \<in> set (fs_walk f))"

lemma is_module_code [code]:
  "is_module f d \<longleftrightarrow>
     (if d = [] then \<exists>(p, dir, err)\<in>set (fs_walk f). p = ''.'' \<and> dir else False) \<or>
     (d \<noteq> ''.'' \<and> d \<noteq> templateSharedModule \<and> (\<exists>(p, dir, err)\<in>set (fs_walk f). p = d \<and> dir))"
proof -
  have listed: "(\<exists>(p, dir, err)\<in>set ws. p = q \<and> dir) \<longleftrightarrow> (\<exists>err. (q, True, err) \<in> set ws)"
    for q and ws :: "(string \<times> bool \<times> error option) list" by auto
  show ?thesis unfolding listed is_module_def by simp
qed

text \<open>The partials and layouts that the fingerprint of a page in the directory covers.\<close>

definition module_nonpages :: "FS \<Rightarrow> string \<Rightarrow> string list" where
  "module_nonpages f d =
     (if \<not> is_module f d then [] else if d = [] then walk_files f filterNonpageTemplate else nonpages_below f d)"

definition unambiguous :: "FS \<Rightarrow> bool" where
  "unambiguous f \<longleftrightarrow> (\<forall>(p, d, err)\<in>set (fs_walk f). p \<noteq> [] \<and> (\<forall>err'. (p, \<not> d, err') \<notin> set (fs_walk f)))"

lemma module_files_Inr:
  assumes "module_files f moduls = Inr mf"
  shows "map_of mf modul = (if modul \<in> set moduls then Some (if modul = [] then walk_files f filterNonpageTemplate
    else map (\<lambda>p. modul @ ''/'' @ p) (walk_files (fs_Sub f modul) filterNonpageTemplate)) else None)"
  using assms
  by (induction f moduls arbitrary: mf rule: module_files.induct)
    (auto simp: Let_def web_listFiles_Inr split: sum.splits if_splits)

lemma set_walk:
  "set (map (\<lambda>(p, d, err). g p) (filter (\<lambda>(p, d, err). d \<and> P p) ws)) =
     g ` {p. (\<exists>err. (p, True, err) \<in> set ws) \<and> P p}"
proof (induction ws)
  case (Cons w ws)
  have "{p. (\<exists>err. (p, True, err) \<in> set (w # ws)) \<and> P p} =
      {p. p = fst w \<and> fst (snd w) \<and> P p} \<union> {p. (\<exists>err. (p, True, err) \<in> set ws) \<and> P p}"
    by (cases w) auto
  with Cons show ?case by (cases w) auto
qed simp

lemma listDirectories_modules:
  assumes "listDirectories f (Some filterTemplateModule) = Inr ds" and "unambiguous f"
  shows "d \<in> set ds \<longleftrightarrow> is_module f d"
proof -
  let ?n = "\<lambda>p. if p = ''.'' then [] else p"
  let ?D = "{p. \<exists>err. (p, True, err) \<in> set (fs_walk f)}"
  have ds: "ds = map (\<lambda>(p, d, err). ?n p) (filter (\<lambda>(p, d, err). d \<and> filterTemplateModule p) (fs_walk f))"
    using assms(1) by (simp add: listDirectories_def directory_walk_Inr)
  have n: "[] \<notin> ?D" using assms(2) by (auto simp: unambiguous_def)
  have "set ds = ?n ` {p. p \<in> ?D \<and> p \<noteq> templateSharedModule}"
    unfolding ds set_walk filterTemplateModule_def mem_Collect_eq ..
  also have "\<dots> = {d. d = [] \<and> ''.'' \<in> ?D \<or> d \<noteq> ''.'' \<and> d \<noteq> templateSharedModule \<and> d \<in> ?D}"
    using n by (auto simp: templateSharedModule_def image_iff)
  finally show ?thesis by (auto simp: is_module_def)
qed

lemma identifyModuleNonpageFiles_Inr:
  assumes "identifyModuleNonpageFiles f = Inr mf" and "unambiguous f"
  shows "(case map_of mf d of None \<Rightarrow> [] | Some fs \<Rightarrow> concat (map (content f) fs)) =
    concat (map (content f) (module_nonpages f d))"
proof -
  obtain ds where ds: "listDirectories f (Some filterTemplateModule) = Inr ds" "module_files f ds = Inr mf"
    using assms(1) by (auto simp: identifyModuleNonpageFiles_def split: sum.splits)
  have "\<not> (\<exists>err. (d, False, err) \<in> set (fs_walk f))" if "is_module f d" "d \<noteq> []"
  proof -
    obtain err where "(d, True, err) \<in> set (fs_walk f)" using \<open>is_module f d\<close> \<open>d \<noteq> []\<close> by (auto simp: is_module_def)
    with assms(2) show ?thesis by (auto simp: unambiguous_def)
  qed
  then show ?thesis
    using module_files_Inr [OF ds(2), of d] listDirectories_modules [OF ds(1) assms(2), of d] walk_files_Sub [of d f]
    by (auto simp: module_nonpages_def)
qed

lemma embeds_PageFingerprints_Inr:
  assumes "embeds_PageFingerprints h e = Inr m" and "unambiguous (TemplatesFS e)"
  shows "m p = (if p \<in> set (walk_files (TemplatesFS e) filterPageTemplate)
    then Some (computeFingerprint h (content (TemplatesFS e) p @
      concat (map (content (TemplatesFS e)) (module_nonpages (TemplatesFS e) (path_Dir p))))) else None)"
proof -
  let ?f = "TemplatesFS e"
  obtain mf ns ps where mf: "identifyModuleNonpageFiles ?f = Inr mf" "load_nonpages ?f mf = Inr ns"
      "load_pages ?f (walk_files ?f filterPageTemplate) = Inr ps"
      and m: "m = map_of (map (\<lambda>q. (q, computeFingerprint h (value_at ps q @ value_at ns (path_Dir q))))
        (walk_files ?f filterPageTemplate))"
    using assms(1) by (auto simp: embeds_PageFingerprints_def computePageFingerprints_def web_listFiles_Inr split: sum.splits)
  show ?thesis
    using load_pages_Inr [OF mf(3), of p] load_nonpages_Inr [OF mf(2), of "path_Dir p"]
      identifyModuleNonpageFiles_Inr [OF mf(1) assms(2), of "path_Dir p"]
    by (simp add: m map_of_map_restrict restrict_map_def)
qed

end
