(* ===== verification/Renderer.thy ===== *)
theory Renderer
  imports Templates
begin

text \<open>
  The template renderer of \<^verbatim>\<open>src/template-rendering.go\<close> and the entity tags of its pages
  (\<^verbatim>\<open>src/template-fingerprints.go\<close>).
\<close>

section \<open>Form values\<close>

text \<open>\<^verbatim>\<open>url.Values\<close> keeps a list of values for each key.\<close>

definition Values_Add :: "string \<Rightarrow> string \<Rightarrow> FormValues \<Rightarrow> FormValues" where
  "Values_Add key v vs = vs(key \<mapsto> (case vs key of None \<Rightarrow> [v] | Some xs \<Rightarrow> xs @ [v]))"

definition Values_Set :: "string \<Rightarrow> string \<Rightarrow> FormValues \<Rightarrow> FormValues" where
  "Values_Set key v vs = vs(key \<mapsto> [v])"

definition Values_Del :: "string \<Rightarrow> FormValues \<Rightarrow> FormValues" where
  "Values_Del key vs = vs(key := None)"

text \<open>\<^verbatim>\<open>Clone\<close> adds the values one by one, so a key with an empty list of values is not copied.\<close>

definition FormValues_Clone :: "FormValues \<Rightarrow> FormValues" where
  "FormValues_Clone vs = (\<lambda>key. case vs key of None \<Rightarrow> None
     | Some values \<Rightarrow> foldl (\<lambda>new v. Values_Add key v new) Map.empty values key)"

definition FormValues_With :: "FormValues \<Rightarrow> string \<Rightarrow> string \<Rightarrow> FormValues" where
  "FormValues_With vs key v = Values_Add key v (FormValues_Clone vs)"

definition FormValues_WithInstead :: "FormValues \<Rightarrow> string \<Rightarrow> string \<Rightarrow> FormValues" where
  "FormValues_WithInstead vs key v = Values_Set key v (FormValues_Clone vs)"

definition FormValues_Without :: "FormValues \<Rightarrow> string \<Rightarrow> FormValues" where
  "FormValues_Without vs key = Values_Del key (FormValues_Clone vs)"

section \<open>Fingerprints\<close>

record fingerprints =
  fp_app :: string
  fp_page :: "string \<rightharpoonup> string"

definition getEtagSegments :: "fingerprints \<Rightarrow> string \<Rightarrow> string list \<times> error option" where
  "getEtagSegments f templateName =
     (if templateName = [] then ([fp_app f], None)
      else case fp_page f templateName of
             None \<Rightarrow> ([fp_app f], Some (Errorf ''couldn't find page fingerprint for template %s''))
           | Some pageFingerprint \<Rightarrow> ([fp_app f, pageFingerprint], None))"

definition shouldHaveForPage :: "fingerprints \<Rightarrow> string \<Rightarrow> error option" where
  "shouldHaveForPage f templateName =
     errors_Wrap (snd (getEtagSegments f templateName)) ''couldn't find template etag segments for page template %s''"

definition fp_setAndCheckEtag ::
  "('b, 'f, 'd) web_libs \<Rightarrow> fingerprints \<Rightarrow> Response \<Rightarrow> Request \<Rightarrow> string \<Rightarrow> 'd EtagInputs \<Rightarrow>
   bool \<times> error option \<times> Response" where
  "fp_setAndCheckEtag L f w r templateName inputs =
     (case getEtagSegments f templateName of
        (_, Some err) \<Rightarrow> (False, Some err, w)
      | (templateEtagSegments, None) \<Rightarrow>
          (case wl_Encode L inputs of
             Inl err \<Rightarrow> (False, Some err, w)
           | Inr encoded \<Rightarrow>
               (case setAndCheckEtag w r (templateEtagSegments @ [computeFingerprint (wl_murmur3 L) encoded]) of
                  (noContent, w1) \<Rightarrow> (noContent, None, if noContent then WriteHeader 304 w1 else w1))))"

section \<open>The renderer\<close>

record ('b, 'f, 'd) TemplateRenderer =
  tr_BasePath :: string
  tr_embeds :: WebEmbeds
  tr_funcs :: "'f list"
  tr_inlines :: 'd
  allTemplates :: "('b, 'f) template_set option"
  partialTemplates :: "(string \<rightharpoonup> ('b, 'f) template_set) option"
  pageTemplates :: "(string \<rightharpoonup> ('b, 'f) template_set) option"
  turboStreamsTemplate :: "('b, 'f) template_set option"
  tr_fingerprints :: "fingerprints option"

definition getFingerprints ::
  "('b, 'f, 'd) web_libs \<Rightarrow> ('b, 'f, 'd) TemplateRenderer \<Rightarrow> error + fingerprints" where
  "getFingerprints L tr =
     (case tr_fingerprints tr of
        Some f \<Rightarrow> Inr f
      | None \<Rightarrow>
          (case embeds_AppFingerprint (wl_murmur3 L) (tr_embeds tr) of
             Inl err \<Rightarrow> Inl (Wrapped ''couldn't compute fingerprint for app'' err)
           | Inr app \<Rightarrow>
               (case embeds_PageFingerprints (wl_murmur3 L) (tr_embeds tr) of
                  Inl err \<Rightarrow> Inl (Wrapped ''couldn't compute fingerprint for page/module templates'' err)
                | Inr page \<Rightarrow> Inr \<lparr>fp_app = app, fp_page = page\<rparr>)))"

text \<open>The set that \<^verbatim>\<open>parseFS\<close> returns for a set is never nil.\<close>

definition getAll ::
  "('b, 'f, 'd) web_libs \<Rightarrow> ('b, 'f, 'd) TemplateRenderer \<Rightarrow> error + ('b, 'f) template_set" where
  "getAll L tr =
     (case allTemplates tr of
        Some t \<Rightarrow> Inr t
      | None \<Rightarrow>
          (case parseFS L (Some (foldl (\<lambda>t f. template_Funcs f t) (template_New ''App'') (tr_funcs tr)))
                  (TemplatesFS (tr_embeds tr)) [''**/*'' @ templateFileExt] of
             Inl err \<Rightarrow> Inl (Wrapped ''couldn't load templates from filesystem'' err)
           | Inr t \<Rightarrow> Inr (the t)))"

fun instantiate_each ::
  "('b, 'f, 'd) web_libs \<Rightarrow> FS \<Rightarrow> ('b, 'f) template_set \<Rightarrow> string list \<Rightarrow> (string \<rightharpoonup> ('b, 'f) template_set) \<Rightarrow>
   error + (string \<rightharpoonup> ('b, 'f) template_set)" where
  "instantiate_each L templatesFS alls [] templates = Inr templates"
| "instantiate_each L templatesFS alls (name # names) templates =
     (case parseFS L (Some alls) templatesFS [name] of
        Inl err \<Rightarrow> Inl (Wrapped ''couldn't make template set for %s'' err)
      | Inr t \<Rightarrow> instantiate_each L templatesFS alls names (templates(name \<mapsto> the t)))"

definition instantiateTemplates ::
  "('b, 'f, 'd) web_libs \<Rightarrow> FS \<Rightarrow> ('b, 'f) template_set \<Rightarrow> (string \<Rightarrow> bool) \<Rightarrow>
   error + (string \<rightharpoonup> ('b, 'f) template_set)" where
  "instantiateTemplates L templatesFS alls templateFilter =
     (case web_listFiles templatesFS (Some templateFilter) of
        Inl err \<Rightarrow> Inl (Wrapped ''couldn't list templates'' err)
      | Inr templateFiles \<Rightarrow> instantiate_each L templatesFS alls templateFiles Map.empty)"

definition getPages ::
  "('b, 'f, 'd) web_libs \<Rightarrow> ('b, 'f, 'd) TemplateRenderer \<Rightarrow> error + (string \<rightharpoonup> ('b, 'f) template_set)" where
  "getPages L tr =
     (case pageTemplates tr of
        Some pages \<Rightarrow> Inr pages
      | None \<Rightarrow>
          (case getAll L tr of
             Inl err \<Rightarrow> Inl err
           | Inr alls \<Rightarrow>
               map_sum (Wrapped ''couldn't instantiate page templates'') id
                 (instantiateTemplates L (TemplatesFS (tr_embeds tr)) alls filterPageTemplate)))"

definition getPage ::
  "('b, 'f, 'd) web_libs \<Rightarrow> ('b, 'f, 'd) TemplateRenderer \<Rightarrow> string \<Rightarrow> error + ('b, 'f) template_set" where
  "getPage L tr pageName =
     (case (case pageTemplates tr of None \<Rightarrow> getPages L tr | Some pages \<Rightarrow> Inr pages) of
        Inl err \<Rightarrow> Inl err
      | Inr pages \<Rightarrow>
          (case pages pageName of None \<Rightarrow> Inl (Errorf ''page template %s not found'') | Some page \<Rightarrow> Inr page))"

definition getPartials ::
  "('b, 'f, 'd) web_libs \<Rightarrow> ('b, 'f, 'd) TemplateRenderer \<Rightarrow> error + (string \<rightharpoonup> ('b, 'f) template_set)" where
  "getPartials L tr =
     (case partialTemplates tr of
        Some partials \<Rightarrow> Inr partials
      | None \<Rightarrow>
          (case getAll L tr of
             Inl err \<Rightarrow> Inl err
           | Inr alls \<Rightarrow>
               map_sum (Wrapped ''couldn't instantiate partial templates'') id
                 (instantiateTemplates L (TemplatesFS (tr_embeds tr)) alls filterPartialTemplate)))"

definition getPartial ::
  "('b, 'f, 'd) web_libs \<Rightarrow> ('b, 'f, 'd) TemplateRenderer \<Rightarrow> string \<Rightarrow> error + ('b, 'f) template_set" where
  "getPartial L tr partialName =
     (case (case partialTemplates tr of None \<Rightarrow> getPartials L tr | Some partials \<Rightarrow> Inr partials) of
        Inl err \<Rightarrow> Inl err
      | Inr partials \<Rightarrow>
          (case partials partialName of
             None \<Rightarrow> Inl (Errorf ''partial template %s not found'') | Some tmpl \<Rightarrow> Inr tmpl))"

text \<open>The parameter \<open>source\<close> stands for the text of \<^verbatim>\<open>src/turbostreams/streams.partial.tmpl\<close>.\<close>

definition instantiateTurboStreamsTemplate ::
  "('b, 'f, 'd) web_libs \<Rightarrow> ('b, 'f) template_set \<Rightarrow> string \<Rightarrow> error + ('b, 'f) template_set" where
  "instantiateTurboStreamsTemplate L alls source =
     map_sum (Wrapped ''couldn't parse Turbo Streams template'') id (template_Parse L (ts_name alls) source alls)"

definition getTurboStreams ::
  "('b, 'f, 'd) web_libs \<Rightarrow> string \<Rightarrow> ('b, 'f, 'd) TemplateRenderer \<Rightarrow> error + ('b, 'f) template_set" where
  "getTurboStreams L source tr =
     (case turboStreamsTemplate tr of
        Some t \<Rightarrow> Inr t
      | None \<Rightarrow>
          (case getAll L tr of
             Inl err \<Rightarrow> Inl err
           | Inr alls \<Rightarrow>
               map_sum (Wrapped ''couldn't instantiate Turbo Streams template'') id
                 (instantiateTurboStreamsTemplate L alls source)))"

section \<open>Making a renderer\<close>

definition bare_renderer :: "WebEmbeds \<Rightarrow> 'd \<Rightarrow> 'f list \<Rightarrow> ('b, 'f, 'd) TemplateRenderer" where
  "bare_renderer e inlines funcs =
     \<lparr>tr_BasePath = [], tr_embeds = e, tr_funcs = funcs, tr_inlines = inlines, allTemplates = None,
      partialTemplates = None, pageTemplates = None, turboStreamsTemplate = None, tr_fingerprints = None\<rparr>"

text \<open>Every step asks the renderer as the steps before it left it; the fingerprints are set, empty, at the start.\<close>

definition NewTemplateRenderer ::
  "('b, 'f, 'd) web_libs \<Rightarrow> string \<Rightarrow> WebEmbeds \<Rightarrow> 'd \<Rightarrow> 'f list \<Rightarrow> error + ('b, 'f, 'd) TemplateRenderer" where
  "NewTemplateRenderer L source e inlines funcs =
     (let tr = (bare_renderer e inlines funcs)\<lparr>tr_fingerprints := Some \<lparr>fp_app = [], fp_page = Map.empty\<rparr>\<rparr>
      in case getAll L tr of Inl err \<Rightarrow> Inl err | Inr alls \<Rightarrow>
      let tr1 = tr\<lparr>allTemplates := Some alls\<rparr>
      in case getPages L tr1 of Inl err \<Rightarrow> Inl err | Inr pages \<Rightarrow>
      let tr2 = tr1\<lparr>pageTemplates := Some pages\<rparr>
      in case getPartials L tr2 of Inl err \<Rightarrow> Inl err | Inr partials \<Rightarrow>
      let tr3 = tr2\<lparr>partialTemplates := Some partials\<rparr>
      in case getTurboStreams L source tr3 of Inl err \<Rightarrow> Inl err | Inr streams \<Rightarrow>
      let tr4 = tr3\<lparr>turboStreamsTemplate := Some streams\<rparr>
      in case getFingerprints L tr4 of Inl err \<Rightarrow> Inl err | Inr f \<Rightarrow>
      Inr (tr4\<lparr>tr_fingerprints := Some f\<rparr>))"

definition NewLazyTemplateRenderer ::
  "WebEmbeds \<Rightarrow> 'd \<Rightarrow> 'f list \<Rightarrow> error + ('b, 'f, 'd) TemplateRenderer" where
  "NewLazyTemplateRenderer e inlines funcs = Inr (bare_renderer e inlines funcs)"

section \<open>Rendering pages\<close>

text \<open>\<^verbatim>\<open>r.Form\<close> is nil when the form was not parsed.\<close>

definition NewRenderData ::
  "('b, 'f, 'd) TemplateRenderer \<Rightarrow> Request option \<Rightarrow> 'd \<Rightarrow> 'd \<Rightarrow> 'd RenderData" where
  "NewRenderData tr r data auth =
     (let d = \<lparr>rd_Meta = \<lparr>md_Path = [], md_RequestURI = [], md_BasePath = tr_BasePath tr, md_Form = Map.empty\<rparr>,
               rd_Inlines = tr_inlines tr, rd_Data = data, rd_Auth = auth\<rparr>
      in case r of None \<Rightarrow> d
         | Some q \<Rightarrow> d\<lparr>rd_Meta := (rd_Meta d)\<lparr>md_Path := rq_Path q, md_RequestURI := rq_RequestURI q,
             md_Form := (case rq_Form q of Inl _ \<Rightarrow> Map.empty | Inr f \<Rightarrow> f)\<rparr>\<rparr>)"

definition Page ::
  "('b, 'f, 'd) web_libs \<Rightarrow> ('b, 'f, 'd) TemplateRenderer \<Rightarrow> Response \<Rightarrow> Request \<Rightarrow> int \<Rightarrow> string \<Rightarrow> 'd \<Rightarrow> 'd \<Rightarrow>
   HeaderOption list \<Rightarrow> error option \<times> Response" where
  "Page L tr w r status templateName templateData authData headerOptions =
     (case getPage L tr templateName of
        Inl err \<Rightarrow> (Some err, w)
      | Inr tmpl \<Rightarrow>
          (case rq_Form r of
             Inl err \<Rightarrow> (Some (Wrapped ''couldn't parse URL query values and/or POST/PUT/PATCH request body'' err), w)
           | Inr _ \<Rightarrow>
               (case ExecuteTemplate L tmpl templateName (PageArgument (NewRenderData tr (Some r) templateData authData)) of
                  (_, Some err) \<Rightarrow> (Some (Wrapped ''couldn't execute page template %s'' err), w)
                | (buf, None) \<Rightarrow>
                    let w1 = with_header (header_Set ''Content-Type'' ''text/html; charset=utf-8'') w;
                        w2 = foldl (\<lambda>w headerOption. with_header headerOption w) w1 headerOptions
                    in Write buf (WriteHeader status w2))))"

definition CacheablePage ::
  "('b, 'f, 'd) web_libs \<Rightarrow> ('b, 'f, 'd) TemplateRenderer \<Rightarrow> Response \<Rightarrow> Request \<Rightarrow> string \<Rightarrow> 'd \<Rightarrow> 'd \<Rightarrow>
   HeaderOption list \<Rightarrow> error option \<times> Response" where
  "CacheablePage L tr w r templateName templateData authData headerOptions =
     (case getFingerprints L tr of
        Inl err \<Rightarrow> (Some err, w)
      | Inr f \<Rightarrow>
          (case fp_setAndCheckEtag L f w r templateName \<lparr>ei_Data = templateData, ei_Auth = authData\<rparr> of
             (noContent, err, w1) \<Rightarrow>
               if noContent \<or> err \<noteq> None then (err, w1)
               else Page L tr w1 r 200 templateName templateData authData headerOptions))"

section \<open>Turbo Streams\<close>

text \<open>\<^verbatim>\<open>WritePartial\<close> and \<^verbatim>\<open>WritePage\<close>: the text written to the writer and the error.\<close>

definition WritePartial ::
  "('b, 'f, 'd) web_libs \<Rightarrow> ('b, 'f, 'd) TemplateRenderer \<Rightarrow> string \<Rightarrow> 'd \<Rightarrow> string \<times> error option" where
  "WritePartial L tr partialName partialData =
     (case getPartial L tr partialName of
        Inl err \<Rightarrow> ([], Some err)
      | Inr tmpl \<Rightarrow> map_prod id (\<lambda>err. errors_Wrap err ''couldn't execute partial template %s'')
          (ExecuteTemplate L tmpl partialName (DataArgument partialData)))"

definition WritePage ::
  "('b, 'f, 'd) web_libs \<Rightarrow> ('b, 'f, 'd) TemplateRenderer \<Rightarrow> string \<Rightarrow> 'd \<Rightarrow> string \<times> error option" where
  "WritePage L tr pageName pageData =
     (case getPage L tr pageName of
        Inl err \<Rightarrow> ([], Some err)
      | Inr tmpl \<Rightarrow> map_prod id (\<lambda>err. errors_Wrap err ''couldn't execute page template %s'')
          (ExecuteTemplate L tmpl pageName (DataArgument pageData)))"

definition ActionRemove :: string where "ActionRemove = ''remove''"
definition ActionRefresh :: string where "ActionRefresh = ''refresh''"
definition ActionReload :: string where "ActionReload = ''reload''"

definition render_message ::
  "('b, 'f, 'd) web_libs \<Rightarrow> ('b, 'f, 'd) TemplateRenderer \<Rightarrow> 'd Message \<Rightarrow> string \<times> error option" where
  "render_message L tr m =
     (if Action m = ActionRemove then ([], None)
      else if Action m = ActionRefresh then ([], None)
      else if Action m = ActionReload then WritePage L tr (Template m) (Data m)
      else WritePartial L tr (Template m) (Data m))"

fun render_messages ::
  "('b, 'f, 'd) web_libs \<Rightarrow> ('b, 'f, 'd) TemplateRenderer \<Rightarrow> 'd Message list \<Rightarrow> error + renderedStreamMessage list" where
  "render_messages L tr [] = Inr []"
| "render_messages L tr (m # ms) =
     (case render_message L tr m of
        (_, Some err) \<Rightarrow> Inl (Wrapped ''couldn't execute stream message template %s'' err)
      | (buf, None) \<Rightarrow>
          (case render_messages L tr ms of
             Inl err \<Rightarrow> Inl err
           | Inr rendered \<Rightarrow>
               Inr (\<lparr>rm_Action = Action m, rm_Targets = Targets m, rm_Target = Target m, rm_Rendered = buf\<rparr> # rendered)))"

text \<open>\<open>write\<close> is the method of the writer.\<close>

definition WriteTurboStream ::
  "('b, 'f, 'd) web_libs \<Rightarrow> string \<Rightarrow> ('b, 'f, 'd) TemplateRenderer \<Rightarrow> (string \<Rightarrow> 'w \<Rightarrow> error option \<times> 'w) \<Rightarrow> 'w \<Rightarrow>
   'd Message list \<Rightarrow> error option \<times> 'w" where
  "WriteTurboStream L source tr write w messages =
     (case render_messages L tr messages of
        Inl err \<Rightarrow> (Some err, w)
      | Inr rendered \<Rightarrow>
          (case getTurboStreams L source tr of
             Inl err \<Rightarrow> (Some err, w)
           | Inr t \<Rightarrow>
               (case ExecuteTemplate L t (ts_name t) (MessagesArgument rendered) of
                  (_, Some err) \<Rightarrow> (Some (Wrapped ''couldn't execute Turbo Streams message template'' err), w)
                | (buf, None) \<Rightarrow> write buf w)))"

definition TurboStream ::
  "('b, 'f, 'd) web_libs \<Rightarrow> string \<Rightarrow> ('b, 'f, 'd) TemplateRenderer \<Rightarrow> Response \<Rightarrow> 'd Message list \<Rightarrow>
   error option \<times> Response" where
  "TurboStream L source tr w messages =
     WriteTurboStream L source tr Write
       (WriteHeader 200 (with_header (header_Set ''Content-Type'' (ContentType @ ''; charset=utf-8'')) w)) messages"

section \<open>Existence checks\<close>

fun should_have_each ::
  "('b, 'f) template_set \<Rightarrow> fingerprints \<Rightarrow> string list \<Rightarrow> error option" where
  "should_have_each alls f [] = None"
| "should_have_each alls f (templateName # names) =
     (if ts_trees alls templateName = None then Some (Errorf ''couldn't find required template %s'')
      else if filterPageTemplate templateName
      then (case shouldHaveForPage f templateName of Some err \<Rightarrow> Some err | None \<Rightarrow> should_have_each alls f names)
      else should_have_each alls f names)"

definition ShouldHave ::
  "('b, 'f, 'd) web_libs \<Rightarrow> ('b, 'f, 'd) TemplateRenderer \<Rightarrow> string list \<Rightarrow> error option" where
  "ShouldHave L tr templateNames =
     (case getAll L tr of
        Inl err \<Rightarrow> Some err
      | Inr alls \<Rightarrow>
          (case getFingerprints L tr of
             Inl err \<Rightarrow> Some err
           | Inr f \<Rightarrow> should_have_each alls f templateNames))"

text \<open>\<^verbatim>\<open>MustHave\<close> panics with the error; the left value is what it panics with.\<close>

definition MustHave ::
  "('b, 'f, 'd) web_libs \<Rightarrow> ('b, 'f, 'd) TemplateRenderer \<Rightarrow> string list \<Rightarrow> error + unit" where
  "MustHave L tr templateNames = (case ShouldHave L tr templateNames of Some err \<Rightarrow> Inl err | None \<Rightarrow> Inr ())"

section \<open>Eager and lazy renderers\<close>

lemma bare_renderer_fields [simp]:
  "tr_BasePath (bare_renderer e inlines funcs) = []"
  "tr_inlines (bare_renderer e inlines funcs) = inlines"
  "tr_embeds (bare_renderer e inlines funcs) = e"
  "tr_funcs (bare_renderer e inlines funcs) = funcs"
  "tr_fingerprints (bare_renderer e inlines funcs) = None"
  "allTemplates (bare_renderer e inlines funcs) = None"
  "pageTemplates (bare_renderer e inlines funcs) = None"
  "partialTemplates (bare_renderer e inlines funcs) = None"
  "turboStreamsTemplate (bare_renderer e inlines funcs) = None"
  by (simp_all add: bare_renderer_def)

lemma getAll_cached [simp]: "allTemplates tr = Some t \<Longrightarrow> getAll L tr = Inr t"
  by (simp add: getAll_def)

lemma NewTemplateRenderer_parts:
  assumes "NewTemplateRenderer L source e inlines funcs = Inr tr"
  shows "tr_BasePath tr = []" "tr_embeds tr = e" "tr_funcs tr = funcs" "tr_inlines tr = inlines"
    "tr_fingerprints tr = Some \<lparr>fp_app = [], fp_page = Map.empty\<rparr>"
    "map_sum id Some (getAll L (bare_renderer e inlines funcs)) = Inr (allTemplates tr)"
    "map_sum id Some (getPages L (bare_renderer e inlines funcs)) = Inr (pageTemplates tr)"
    "map_sum id Some (getPartials L (bare_renderer e inlines funcs)) = Inr (partialTemplates tr)"
    "map_sum id Some (getTurboStreams L source (bare_renderer e inlines funcs)) = Inr (turboStreamsTemplate tr)"
proof -
  let ?b = "bare_renderer e inlines funcs"
  have all: "getAll L (?b\<lparr>tr_fingerprints := x\<rparr>) = getAll L ?b" for x
    by (simp add: getAll_def bare_renderer_def)
  obtain alls where a: "getAll L ?b = Inr alls"
    using assms by (auto simp: NewTemplateRenderer_def Let_def all split: sum.splits)
  let ?f = "Some \<lparr>fp_app = [], fp_page = Map.empty\<rparr>"
  let ?t = "?b\<lparr>tr_fingerprints := ?f, allTemplates := Some alls\<rparr>"
  have pages: "getPages L ?t = getPages L ?b"
    using a by (simp add: getPages_def bare_renderer_def)
  obtain ps where ps: "getPages L ?b = Inr ps"
    using assms a by (auto simp: NewTemplateRenderer_def Let_def all pages split: sum.splits)
  have partials: "getPartials L (?t\<lparr>pageTemplates := Some ps\<rparr>) = getPartials L ?b"
    using a by (simp add: getPartials_def bare_renderer_def)
  obtain qs where qs: "getPartials L ?b = Inr qs"
    using assms a ps by (auto simp: NewTemplateRenderer_def Let_def all pages partials split: sum.splits)
  have streams: "getTurboStreams L source (?t\<lparr>pageTemplates := Some ps, partialTemplates := Some qs\<rparr>) = getTurboStreams L source ?b"
    using a by (simp add: getTurboStreams_def bare_renderer_def)
  obtain ss where ss: "getTurboStreams L source ?b = Inr ss"
    using assms a ps qs by (auto simp: NewTemplateRenderer_def Let_def all pages partials streams split: sum.splits)
  have "tr = ?t\<lparr>pageTemplates := Some ps, partialTemplates := Some qs, turboStreamsTemplate := Some ss\<rparr>"
    using assms
    by (simp add: NewTemplateRenderer_def Let_def all pages partials streams a ps qs ss getFingerprints_def)
      (simp add: bare_renderer_def)
  then show "tr_BasePath tr = []" "tr_embeds tr = e" "tr_funcs tr = funcs" "tr_inlines tr = inlines"
    "tr_fingerprints tr = ?f" "map_sum id Some (getAll L ?b) = Inr (allTemplates tr)"
    "map_sum id Some (getPages L ?b) = Inr (pageTemplates tr)"
    "map_sum id Some (getPartials L ?b) = Inr (partialTemplates tr)"
    "map_sum id Some (getTurboStreams L source ?b) = Inr (turboStreamsTemplate tr)"
    by (simp_all add: a ps qs ss)
qed

lemma eager_getPage:
  assumes "NewTemplateRenderer L source e inlines funcs = Inr tr"
  shows "getPage L tr n = getPage L (bare_renderer e inlines funcs) n"
    and "getPartial L tr n = getPartial L (bare_renderer e inlines funcs) n"
    and "getTurboStreams L source tr = getTurboStreams L source (bare_renderer e inlines funcs)"
proof -
  note parts = NewTemplateRenderer_parts [OF assms]
  obtain ps qs ss where "pageTemplates tr = Some ps" "getPages L (bare_renderer e inlines funcs) = Inr ps"
      "partialTemplates tr = Some qs" "getPartials L (bare_renderer e inlines funcs) = Inr qs"
      "turboStreamsTemplate tr = Some ss" "getTurboStreams L source (bare_renderer e inlines funcs) = Inr ss"
    using parts(7-9)
    by (cases "getPages L (bare_renderer e inlines funcs)"; cases "getPartials L (bare_renderer e inlines funcs)";
      cases "getTurboStreams L source (bare_renderer e inlines funcs)") (auto dest!: sym [of "Some _"])
  then show "getPage L tr n = getPage L (bare_renderer e inlines funcs) n"
    "getPartial L tr n = getPartial L (bare_renderer e inlines funcs) n"
    "getTurboStreams L source tr = getTurboStreams L source (bare_renderer e inlines funcs)"
    by (simp_all add: getPage_def getPartial_def) (simp add: getTurboStreams_def)
qed

lemma eager_Page:
  assumes "NewTemplateRenderer L source e inlines funcs = Inr tr"
  shows "Page L tr = Page L (bare_renderer e inlines funcs)"
  by (intro ext) (simp only: Page_def eager_getPage [OF assms] NewRenderData_def NewTemplateRenderer_parts(1,4) [OF assms]
      bare_renderer_fields)

lemma eager_render_messages:
  assumes "NewTemplateRenderer L source e inlines funcs = Inr tr"
  shows "render_messages L tr ms = render_messages L (bare_renderer e inlines funcs) ms"
  by (induction ms) (simp_all add: render_message_def WritePage_def WritePartial_def eager_getPage [OF assms])

text \<open>
  (C18) Loading the templates once, in advance, and loading them on each render give the same pages and the same Turbo
  Streams, when loading in advance succeeds.
\<close>

theorem eager_lazy_same_rendering:
  assumes "NewTemplateRenderer L source e inlines funcs = Inr tr"
    and "NewLazyTemplateRenderer e inlines funcs = Inr lazy"
  shows "Page L tr w r status n d a os = Page L lazy w r status n d a os \<and>
    TurboStream L source tr w ms = TurboStream L source lazy w ms"
proof -
  have "lazy = bare_renderer e inlines funcs" using assms(2) by (simp add: NewLazyTemplateRenderer_def)
  then show ?thesis
    by (simp only: TurboStream_def WriteTurboStream_def eager_Page [OF assms(1)] eager_render_messages [OF assms(1)]
        eager_getPage(3) [OF assms(1)])
qed

text \<open>
  (C37) A renderer made by \<^verbatim>\<open>NewTemplateRenderer\<close> keeps the empty fingerprints that it started with: it never serves a
  cacheable page, and rejects every page in \<^verbatim>\<open>ShouldHave\<close>.
\<close>

theorem eager_renderer_cannot_cache:
  assumes "NewTemplateRenderer L source e inlines funcs = Inr tr" and "n \<noteq> []"
  shows "CacheablePage L tr w r n d a os = (Some (Errorf ''couldn't find page fingerprint for template %s''), w)"
  using NewTemplateRenderer_parts(5) [OF assms(1)] assms(2)
  by (simp add: CacheablePage_def getFingerprints_def fp_setAndCheckEtag_def getEtagSegments_def)

section \<open>Responses\<close>

lemma with_headers_keep:
  "rs_Sent (foldl (\<lambda>w f. with_header f w) w os) = rs_Sent w"
  "rs_Body (foldl (\<lambda>w f. with_header f w) w os) = rs_Body w"
  "rs_Broken (foldl (\<lambda>w f. with_header f w) w os) = rs_Broken w"
  "rs_Header (foldl (\<lambda>w f. with_header f w) w os) = foldl (\<lambda>h f. f h) (rs_Header w) os"
  by (induction os arbitrary: w) simp_all

text \<open>
  (C38) A page is sent whole or not at all, with a status that allows a body: when \<^verbatim>\<open>Page\<close> fails with the connection intact, neither a status nor a part of
  the page has been sent and the header is as before; when it succeeds, the response has the status asked for, the
  content type unless an option replaces it, and the text of the template as its body.
\<close>

theorem Page_all_or_nothing:
  assumes "rs_Broken w = None" and "rs_Sent w = None" and "Page L tr w r status n d a os = (err, w')"
  shows "(case err of
      Some _ \<Rightarrow> w' = w
    | None \<Rightarrow> \<exists>t buf. getPage L tr n = Inr t \<and>
        ExecuteTemplate L t n (PageArgument (NewRenderData tr (Some r) d a)) = (buf, None) \<and>
        rs_Sent w' = Some (status, foldl (\<lambda>h f. f h) (header_Set ''Content-Type'' ''text/html; charset=utf-8'' (rs_Header w)) os) \<and>
        rs_Body w' = rs_Body w @ buf)"
  using assms
  by (auto simp: Page_def Let_def Write_def with_headers_keep split: sum.splits prod.splits option.splits)

text \<open>
  \<^verbatim>\<open>TurboStream\<close> sends status 200 before it renders: when a message cannot be rendered, the error comes with a
  response that is already sent as a success, with an empty body.
\<close>

theorem TurboStream_fails_with_200:
  assumes "render_messages L tr ms = Inl err" and "rs_Sent w = None"
  shows "\<exists>w'. TurboStream L source tr w ms = (Some err, w') \<and> rs_Body w' = rs_Body w \<and>
    (\<exists>h. rs_Sent w' = Some (200, h))"
  using assms by (simp add: TurboStream_def WriteTurboStream_def)

section \<open>When a page is not modified\<close>

text \<open>
  The bytes that the fingerprints of a page stand for: the application, the page with its module, the data. The module of
  a page are the partials and layouts of its directory and below. A page in the root directory has none: \<^verbatim>\<open>path.Dir\<close>
  calls its directory a dot, under which no files are listed.
\<close>

definition app_bytes :: "WebEmbeds \<Rightarrow> string" where
  "app_bytes e = concat (map (content (AppFS e)) (walk_files (AppFS e) filterAsset)) @
     concat (map (content (TemplatesFS e)) (walk_files (TemplatesFS e) filterSharedTemplate))"

definition page_bytes :: "WebEmbeds \<Rightarrow> string \<Rightarrow> string" where
  "page_bytes e n = content (TemplatesFS e) n @
     concat (map (content (TemplatesFS e)) (module_nonpages (TemplatesFS e) (path_Dir n)))"

definition etag_sources :: "('b, 'f, 'd) web_libs \<Rightarrow> WebEmbeds \<Rightarrow> string \<Rightarrow> 'd \<Rightarrow> 'd \<Rightarrow> string list" where
  "etag_sources L e n d a = [app_bytes e, page_bytes e n,
     (case wl_Encode L \<lparr>ei_Data = d, ei_Auth = a\<rparr> of Inl _ \<Rightarrow> [] | Inr encoded \<Rightarrow> encoded)]"

definition page_etag :: "('b, 'f, 'd) web_libs \<Rightarrow> WebEmbeds \<Rightarrow> string \<Rightarrow> 'd \<Rightarrow> 'd \<Rightarrow> string" where
  "page_etag L e n d a = makeEtag (map (computeFingerprint (wl_murmur3 L)) (etag_sources L e n d a))"

definition alike :: "(string \<Rightarrow> 64 word) \<Rightarrow> string \<Rightarrow> string \<Rightarrow> bool" where
  "alike h x y \<longleftrightarrow> length x = length y \<and> h x = h y"

lemma root_page_bytes: "CHR ''/'' \<notin> set n \<Longrightarrow> page_bytes e n = content (TemplatesFS e) n"
  by (simp add: page_bytes_def module_nonpages_def is_module_def path_Dir_def)

lemma embeds_AppFingerprint_Inr: "embeds_AppFingerprint h e = Inr s \<Longrightarrow> s = computeFingerprint h (app_bytes e)"
  by (auto simp: embeds_AppFingerprint_def computeAppFingerprint_def web_listFiles_Inr app_bytes_def
      dest!: readConcatenated_Inr split: sum.splits)

lemma lazy_getFingerprints:
  assumes "tr_fingerprints tr = None" and "unambiguous (TemplatesFS (tr_embeds tr))" and "getFingerprints L tr = Inr f"
  shows "fp_app f = computeFingerprint (wl_murmur3 L) (app_bytes (tr_embeds tr))"
    and "fp_page f n = Some x \<Longrightarrow> x = computeFingerprint (wl_murmur3 L) (page_bytes (tr_embeds tr) n)"
proof -
  obtain app page where p: "embeds_AppFingerprint (wl_murmur3 L) (tr_embeds tr) = Inr app"
      "embeds_PageFingerprints (wl_murmur3 L) (tr_embeds tr) = Inr page" "f = \<lparr>fp_app = app, fp_page = page\<rparr>"
    using assms(1,3) by (auto simp: getFingerprints_def split: sum.splits)
  then show "fp_app f = computeFingerprint (wl_murmur3 L) (app_bytes (tr_embeds tr))"
    by (simp add: embeds_AppFingerprint_Inr)
  show "x = computeFingerprint (wl_murmur3 L) (page_bytes (tr_embeds tr) n)" if "fp_page f n = Some x"
    using that embeds_PageFingerprints_Inr [OF p(2) assms(2), of n] p(3)
    by (simp add: page_bytes_def split: if_splits)
qed

lemma page_etag_eq_iff:
  "page_etag L e n d a = page_etag L e' n' d' a' \<longleftrightarrow>
     list_all2 (alike (wl_murmur3 L)) (etag_sources L e n d a) (etag_sources L e' n' d' a')"
  unfolding page_etag_def
  by (subst makeEtag_inject)
    (auto simp: etag_sources_def computeFingerprint_no_space computeFingerprint_eq_iff alike_def)

lemma CacheablePage_outcome:
  assumes "tr_fingerprints tr = None" and "unambiguous (TemplatesFS (tr_embeds tr))" and "n \<noteq> []"
    and "rs_Sent w = None" and "CacheablePage L tr w r n d a os = (None, w')"
  shows "if header_Get ''If-None-Match'' (rq_Header r) = page_etag L (tr_embeds tr) n d a
    then rs_Sent w' = Some (304, setEtag (page_etag L (tr_embeds tr) n d a) (rs_Header w)) \<and> rs_Body w' = rs_Body w
    else rs_Sent w' = Some (200, foldl (\<lambda>h f. f h) (header_Set ''Content-Type'' ''text/html; charset=utf-8''
      (setEtag (page_etag L (tr_embeds tr) n d a) (rs_Header w))) os)"
proof -
  let ?e = "page_etag L (tr_embeds tr) n d a"
  obtain f where f: "getFingerprints L tr = Inr f"
    using assms(5) by (auto simp: CacheablePage_def split: sum.splits)
  obtain x where x: "fp_page f n = Some x"
    using assms(3,5) f by (auto simp: CacheablePage_def fp_setAndCheckEtag_def getEtagSegments_def split: option.splits)
  obtain enc where enc: "wl_Encode L \<lparr>ei_Data = d, ei_Auth = a\<rparr> = Inr enc"
    using assms(3,5) f x
    by (auto simp: CacheablePage_def fp_setAndCheckEtag_def getEtagSegments_def split: sum.splits)
  have etag: "makeEtag [fp_app f, x, computeFingerprint (wl_murmur3 L) enc] = ?e"
    using lazy_getFingerprints [OF assms(1,2) f] x enc by (simp add: page_etag_def etag_sources_def)
  have "fp_setAndCheckEtag L f w r n \<lparr>ei_Data = d, ei_Auth = a\<rparr> =
      (let m = header_Get ''If-None-Match'' (rq_Header r) = ?e; w1 = with_header (setEtag ?e) w
       in (m, None, if m then WriteHeader 304 w1 else w1))"
    using assms(3) x enc etag
    by (simp add: fp_setAndCheckEtag_def getEtagSegments_def setAndCheckEtag_def checkEtagMatch_def Let_def)
      (metis makeEtag_nonempty(1))
  then show ?thesis
    using assms(4,5) f
    by (auto simp: CacheablePage_def Let_def Page_def Write_def with_headers_keep split: if_splits sum.splits prod.splits option.splits)
qed

text \<open>
  (C12) A client that sends the entity tag of an earlier page back gets status 304 exactly if three byte sequences have
  the same lengths and hashes as then, whatever else changed between the two requests: the application's assets with
  the shared templates; the page's file with the partials and layouts of its directory and below; and the encoded data. For
  a page in the root directory the second is the page's file alone (\<open>root_page_bytes\<close>), although the source means to
  cover its partials too. Both renderers load their templates on each render, no path is listed as a file and as a directory, both requests are
  answered without an error, the first with the page, and the page's name is not empty.
\<close>

theorem not_modified_iff_alike:
  assumes "tr_fingerprints tr0 = None" and "unambiguous (TemplatesFS (tr_embeds tr0))" and "rs_Sent w0 = None"
    and "CacheablePage L tr0 w0 r0 n d0 a0 [] = (None, w0')" and "rs_Sent w0' = Some (200, h0)"
    and "tr_fingerprints tr = None" and "unambiguous (TemplatesFS (tr_embeds tr))" and "rs_Sent w = None"
    and "header_Get ''If-None-Match'' (rq_Header r) = header_Get ''Etag'' h0"
    and "CacheablePage L tr w r n d a os = (None, w')" and "n \<noteq> []"
  shows "(\<exists>h. rs_Sent w' = Some (304, h)) \<longleftrightarrow>
    list_all2 (alike (wl_murmur3 L)) (etag_sources L (tr_embeds tr0) n d0 a0) (etag_sources L (tr_embeds tr) n d a)"
proof -
  have "header_Get ''Etag'' h0 = page_etag L (tr_embeds tr0) n d0 a0"
    using CacheablePage_outcome [OF assms(1,2,11,3,4)] assms(5)
    by (auto simp: setEtag_def header_Get_Set WithAlwaysRevalidate_def split: if_splits)
  then show ?thesis
    unfolding page_etag_eq_iff [symmetric]
    using CacheablePage_outcome [OF assms(6,7,11,8,10)] assms(9) by (auto split: if_splits)
qed

section \<open>The blocks of a page\<close>

lemma map_sum_Inr: "map_sum f id s = Inr x \<longleftrightarrow> s = Inr x"
  by (cases s) auto

lemma add_trees:
  assumes "distinct (map fst trees)"
  shows "foldl (add_tree isEmpty) m trees x = (case map_of trees x of
      None \<Rightarrow> m x | Some b \<Rightarrow> if isEmpty b \<and> m x \<noteq> None then m x else Some b)"
  using assms
proof (induction trees arbitrary: m)
  case (Cons p trees)
  obtain k b where p: "p = (k, b)" by (cases p)
  have "map_of trees x = None" if "k = x" using Cons.prems p that by (auto simp: map_of_eq_None_iff)
  then show ?case using Cons p by (auto simp: add_tree_def split: option.splits)
qed simp

lemma template_Parse_funcs:
  "template_Parse L n s t = Inr t' \<Longrightarrow> ts_funcs t' = ts_funcs t \<and> ts_name t' = ts_name t"
  by (auto simp: template_Parse_def split: sum.splits)

lemma parse_each_Some:
  "parse_each L (Some t) rd ns = Inr r \<Longrightarrow> \<exists>t'. r = Some t' \<and> ts_funcs t' = ts_funcs t \<and> ts_name t' = ts_name t"
proof (induction ns arbitrary: t)
  case (Cons n ns)
  obtain m s t1 where "rd n = Inr (m, s)" "template_Parse L m s t = Inr t1" "parse_each L (Some t1) rd ns = Inr r"
    using Cons.prems by (auto simp: Let_def split: sum.splits)
  then show ?case using Cons.IH template_Parse_funcs by metis
qed auto

lemma getAll_funcs:
  assumes "allTemplates tr = None" and "getAll L tr = Inr alls"
  shows "ts_funcs alls = tr_funcs tr"
proof -
  let ?t = "foldl (\<lambda>t f. template_Funcs f t) (template_New ''App'') (tr_funcs tr)"
  have funcs: "ts_funcs (foldl (\<lambda>t f. template_Funcs f t) t fs) = ts_funcs t @ fs" for t :: "('a, 'b) template_set" and fs
    by (induction fs arbitrary: t) (simp_all add: template_Funcs_def)
  obtain r where "parseFS L (Some ?t) (TemplatesFS (tr_embeds tr)) [''**/*'' @ templateFileExt] = Inr r" "alls = the r"
    using assms by (auto simp: getAll_def split: sum.splits)
  then show ?thesis
    using parse_each_Some [of L ?t] funcs [of "template_New ''App''"]
    by (fastforce simp: parseFS_def parseFiles_def template_New_def split: sum.splits if_splits)
qed

lemma instantiate_each_Inr:
  "instantiate_each L f alls ns m0 = Inr m \<Longrightarrow> m n = Some t \<Longrightarrow>
     m0 n = Some t \<or> (\<exists>r. parseFS L (Some alls) f [n] = Inr r \<and> t = the r)"
proof (induction ns arbitrary: m0)
  case (Cons k ns)
  then show ?case by (auto split: sum.splits if_splits) (metis fun_upd_apply option.inject)+
qed simp

text \<open>
  (C19) In the template set that a lazy renderer makes for a page, the non-empty blocks that the page's file defines are
  the page's own and every other name has the template that the whole file system gives it, so pages may define blocks
  of the same name. An empty block of the page does not replace a template that the file system has for the name, as
  \<^verbatim>\<open>html/template\<close> defines it. The glob library is assumed to match the page's name by itself alone, the page's
  file to parse, to blocks of distinct names, and the set to be made without an error.
\<close>

theorem page_has_own_blocks:
  assumes "allTemplates tr = None" and "pageTemplates tr = None" and "getAll L tr = Inr alls"
    and "wl_Glob L (TemplatesFS (tr_embeds tr)) n = Inr [n]"
    and "wl_Parse L (tr_funcs tr) n (content (TemplatesFS (tr_embeds tr)) n) = Inr trees" and "distinct (map fst trees)"
    and "getPage L tr n = Inr t"
  shows "ts_trees t x = (case map_of trees x of
      None \<Rightarrow> ts_trees alls x
    | Some b \<Rightarrow> if wl_IsEmptyTree L b \<and> ts_trees alls x \<noteq> None then ts_trees alls x else Some b)"
proof -
  let ?f = "TemplatesFS (tr_embeds tr)"
  obtain m where m: "instantiateTemplates L ?f alls filterPageTemplate = Inr m" "m n = Some t"
    using assms(2,3,7) by (auto simp: getPage_def getPages_def map_sum_Inr split: sum.splits option.splits)
  then obtain r where r: "parseFS L (Some alls) ?f [n] = Inr r" "t = the r"
    using instantiate_each_Inr [of L ?f alls _ Map.empty m n t] by (auto simp: instantiateTemplates_def split: sum.splits)
  then have "template_Parse L n (content ?f n) alls = Inr t"
    using assms(4) by (auto simp: parseFS_def parseFiles_def readFileFS_def content_def Let_def split: sum.splits)
  then show ?thesis
    using assms(5,6) getAll_funcs [OF assms(1,3)] add_trees [OF assms(6)]
    by (auto simp: template_Parse_def)
qed

text \<open>
  A page in the root directory: its module is looked up as a dot but stored as the empty string, so that its
  fingerprint leaves out the partials and layouts, here of two file systems that may differ in all of them.
\<close>

theorem root_page_fingerprint_ignores_partials:
  assumes "embeds_PageFingerprints h e = Inr m" and "embeds_PageFingerprints h e' = Inr m'"
    and "unambiguous (TemplatesFS e)" and "unambiguous (TemplatesFS e')" and "CHR ''/'' \<notin> set p"
    and "m p \<noteq> None" and "m' p \<noteq> None" and "content (TemplatesFS e) p = content (TemplatesFS e') p"
  shows "m p = m' p"
proof -
  have "module_nonpages f (path_Dir p) = []" for f
    using assms(5) by (simp add: module_nonpages_def is_module_def path_Dir_def)
  then show ?thesis
    using embeds_PageFingerprints_Inr [OF assms(1,3), of p] embeds_PageFingerprints_Inr [OF assms(2,4), of p] assms(6-8)
    by (auto split: if_splits)
qed

section \<open>Libraries and files to run on\<close>

text \<open>Templates are texts without actions; every hash is zero.\<close>

definition demo_libs :: "(string, unit, string) web_libs" where
  "demo_libs =
     \<lparr>wl_Parse = \<lambda>fs name text. Inr [(name, text)], wl_IsEmptyTree = \<lambda>b. b = [],
      wl_Execute = \<lambda>fs trees name v. (case trees name of None \<Rightarrow> ([], None) | Some b \<Rightarrow> (b, None)),
      wl_Glob = \<lambda>f p. Inr (if p = ''**/*.tmpl'' then walk_files f filterTemplate else [p]),
      wl_Encode = \<lambda>i. Inr (ei_Data i @ '','' @ ei_Auth i), wl_murmur3 = \<lambda>s. 0, wl_sha512 = \<lambda>s. s\<rparr>"

definition demo_files :: "(string \<times> string) list \<Rightarrow> FS" where
  "demo_files fs =
     \<lparr>fs_walk = (''.'', True, None) # map (\<lambda>(p, s). (p, False, None)) fs,
      fs_Open = \<lambda>p. case map_of fs p of None \<Rightarrow> Inl (ExternalError ''open'')
        | Some s \<Rightarrow> Inr \<lparr>f_read = Inr s, f_close = None\<rparr>\<rparr>"

definition demo_embeds :: "string \<Rightarrow> WebEmbeds" where
  "demo_embeds part =
     \<lparr>StaticFS = demo_files [], StaticHFS = id,
      TemplatesFS = demo_files [(''a.partial.tmpl'', part), (''p.page.tmpl'', ''page'')],
      AppFS = demo_files [(''x.css'', ''css'')], AppHFS = id, FontsFS = demo_files []\<rparr>"

definition demo_request :: "string \<Rightarrow> Request" where
  "demo_request etag = \<lparr>rq_Method = ''GET'', rq_Path = ''/'', rq_RawPath = [], rq_RequestURI = ''/'',
     rq_Header = header_Set ''If-None-Match'' etag Map.empty, rq_Form = Inr Map.empty\<rparr>"

definition demo_response :: Response where
  "demo_response = \<lparr>rs_Header = Map.empty, rs_Sent = None, rs_Body = [], rs_Broken = None\<rparr>"

definition demo_lazy :: "string \<Rightarrow> (string, unit, string) TemplateRenderer" where
  "demo_lazy part = bare_renderer (demo_embeds part) ''i'' []"

lemma demo_eager:
  obtains tr where "NewTemplateRenderer demo_libs [] (demo_embeds ''part'') ''i'' [] = Inr tr"
proof -
  have "\<not> isl (NewTemplateRenderer demo_libs [] (demo_embeds ''part'') ''i'' [])" by code_simp
  then show ?thesis using that by (cases "NewTemplateRenderer demo_libs [] (demo_embeds ''part'') ''i'' []") auto
qed

lemma demo_fingerprints:
  assumes "part \<in> {''part'', ''changed''}"
  obtains m where "embeds_PageFingerprints (\<lambda>s. 0) (demo_embeds part) = Inr m" "m ''p.page.tmpl'' \<noteq> None"
proof -
  have "case_sum (\<lambda>_. False) (\<lambda>m. m ''p.page.tmpl'' \<noteq> None) (embeds_PageFingerprints (\<lambda>s. 0) (demo_embeds ''part''))"
    "case_sum (\<lambda>_. False) (\<lambda>m. m ''p.page.tmpl'' \<noteq> None) (embeds_PageFingerprints (\<lambda>s. 0) (demo_embeds ''changed''))"
    by code_simp+
  then show ?thesis
    using assms that by (cases "embeds_PageFingerprints (\<lambda>s. 0) (demo_embeds part)") auto
qed

lemma demo_unambiguous: "unambiguous (TemplatesFS (demo_embeds part))"
  by (auto simp: unambiguous_def demo_embeds_def demo_files_def)

theorem eager_lazy_same_rendering_witness:
  "\<exists>tr. NewTemplateRenderer demo_libs [] (demo_embeds ''part'') ''i'' [] = Inr tr \<and>
    Page demo_libs tr demo_response (demo_request []) 200 ''p.page.tmpl'' ''d'' ''a'' [] =
    Page demo_libs (demo_lazy ''part'') demo_response (demo_request []) 200 ''p.page.tmpl'' ''d'' ''a'' []"
proof -
  obtain tr where "NewTemplateRenderer demo_libs [] (demo_embeds ''part'') ''i'' [] = Inr tr" by (rule demo_eager)
  with eager_lazy_same_rendering [OF this, of "demo_lazy ''part''"] show ?thesis
    by (auto simp: NewLazyTemplateRenderer_def demo_lazy_def)
qed

theorem eager_renderer_cannot_cache_witness:
  "\<exists>tr err. NewTemplateRenderer demo_libs [] (demo_embeds ''part'') ''i'' [] = Inr tr \<and>
    CacheablePage demo_libs tr demo_response (demo_request []) ''p.page.tmpl'' ''d'' ''a'' [] = (Some err, demo_response)"
proof -
  obtain tr where "NewTemplateRenderer demo_libs [] (demo_embeds ''part'') ''i'' [] = Inr tr" by (rule demo_eager)
  with eager_renderer_cannot_cache [OF this, of "''p.page.tmpl''"] show ?thesis by auto
qed

theorem Page_all_or_nothing_witness:
  "\<exists>err. Page demo_libs (demo_lazy ''part'') demo_response (demo_request []) 200 ''x'' ''d'' ''a'' [] = (Some err, demo_response)"
proof -
  obtain err w' where r: "Page demo_libs (demo_lazy ''part'') demo_response (demo_request []) 200 ''x'' ''d'' ''a'' [] = (err, w')"
    by fastforce
  have "fst (Page demo_libs (demo_lazy ''part'') demo_response (demo_request []) 200 ''x'' ''d'' ''a'' []) \<noteq> None"
    by code_simp
  then show ?thesis
    using Page_all_or_nothing [OF _ _ r] r by (auto simp: demo_response_def split: option.splits)
qed

definition demo_message :: "string Message" where
  "demo_message = \<lparr>Action = ''append'', Target = ''t'', Targets = [], Template = ''missing'', Data = ''d''\<rparr>"

theorem TurboStream_fails_with_200_witness:
  "\<exists>err w' h. TurboStream demo_libs [] (demo_lazy ''part'') demo_response [demo_message] = (Some err, w') \<and>
    rs_Body w' = [] \<and> rs_Sent w' = Some (200, h)"
proof -
  have "isl (render_messages demo_libs (demo_lazy ''part'') [demo_message])" by code_simp
  then obtain err where "render_messages demo_libs (demo_lazy ''part'') [demo_message] = Inl err" by (auto simp: isl_def)
  from TurboStream_fails_with_200 [OF this, of demo_response "[]"] show ?thesis by (auto simp: demo_response_def)
qed

theorem page_has_own_blocks_witness:
  "\<exists>t. getPage demo_libs (demo_lazy ''part'') ''p.page.tmpl'' = Inr t \<and> ts_trees t ''p.page.tmpl'' = Some ''page''"
proof -
  have "\<not> isl (getAll demo_libs (demo_lazy ''part''))" "\<not> isl (getPage demo_libs (demo_lazy ''part'') ''p.page.tmpl'')"
    by code_simp+
  then obtain alls t where r: "getAll demo_libs (demo_lazy ''part'') = Inr alls"
      "getPage demo_libs (demo_lazy ''part'') ''p.page.tmpl'' = Inr t"
    by (auto simp: isl_def) (metis sum.collapse(2) isl_def)
  have "content (TemplatesFS (tr_embeds (demo_lazy ''part''))) ''p.page.tmpl'' = ''page''" by code_simp
  with page_has_own_blocks [OF _ _ r(1) _ _ _ r(2), of "[(''p.page.tmpl'', ''page'')]" "''p.page.tmpl''"] r show ?thesis
    by (simp add: demo_lazy_def demo_libs_def)
qed

theorem root_page_fingerprint_ignores_partials_witness:
  "\<exists>m m'. embeds_PageFingerprints (\<lambda>s. 0) (demo_embeds ''part'') = Inr m \<and>
    embeds_PageFingerprints (\<lambda>s. 0) (demo_embeds ''changed'') = Inr m' \<and> m ''p.page.tmpl'' = m' ''p.page.tmpl'' \<and>
    content (TemplatesFS (demo_embeds ''part'')) ''a.partial.tmpl'' \<noteq> content (TemplatesFS (demo_embeds ''changed'')) ''a.partial.tmpl''"
proof -
  obtain m m' where m: "embeds_PageFingerprints (\<lambda>s. 0) (demo_embeds ''part'') = Inr m" "m ''p.page.tmpl'' \<noteq> None"
      "embeds_PageFingerprints (\<lambda>s. 0) (demo_embeds ''changed'') = Inr m'" "m' ''p.page.tmpl'' \<noteq> None"
    using demo_fingerprints by (metis insertI1 insertI2)
  have "content (TemplatesFS (demo_embeds ''part'')) ''p.page.tmpl'' = content (TemplatesFS (demo_embeds ''changed'')) ''p.page.tmpl''"
    "content (TemplatesFS (demo_embeds ''part'')) ''a.partial.tmpl'' \<noteq> content (TemplatesFS (demo_embeds ''changed'')) ''a.partial.tmpl''"
    by code_simp+
  with root_page_fingerprint_ignores_partials [OF m(1,3) demo_unambiguous demo_unambiguous _ m(2,4)] m show ?thesis
    by simp
qed

text \<open>Embedded files whose templates are a page and a partial in one directory.\<close>

definition demo_module :: "string \<Rightarrow> (string, unit, string) TemplateRenderer" where
  "demo_module part =
     bare_renderer ((demo_embeds part)\<lparr>TemplatesFS := (demo_files [(''m/a.partial.tmpl'', part), (''m/p.page.tmpl'', ''page'')])
       \<lparr>fs_walk := [(''.'', True, None), (''m'', True, None), (''m/a.partial.tmpl'', False, None), (''m/p.page.tmpl'', False, None)]\<rparr>\<rparr>)
       ''i'' []"

definition demo_visit :: "string \<Rightarrow> string \<Rightarrow> error option \<times> Response" where
  "demo_visit part etag =
     CacheablePage demo_libs (demo_module part) demo_response (demo_request etag) ''m/p.page.tmpl'' ''d'' ''a'' []"

text \<open>The entity tag of the first visit gives status 304, unless the partial beside the page has changed.\<close>

theorem not_modified_iff_alike_witness:
  "\<exists>h0 h. rs_Sent (snd (demo_visit ''part'' [])) = Some (200, h0) \<and>
    rs_Sent (snd (demo_visit ''part'' (header_Get ''Etag'' h0))) = Some (304, h) \<and>
    \<not> (\<exists>h. rs_Sent (snd (demo_visit ''changed'' (header_Get ''Etag'' h0))) = Some (304, h))"
proof -
  let ?e = "\<lambda>part. tr_embeds (demo_module part)"
  let ?s = "\<lambda>part. etag_sources demo_libs (?e part) ''m/p.page.tmpl'' ''d'' ''a''"
  have tr: "tr_fingerprints (demo_module part) = None" "unambiguous (TemplatesFS (?e part))" for part
    by (auto simp: demo_module_def demo_files_def unambiguous_def)
  have "map_option fst (rs_Sent (snd (demo_visit ''part'' []))) = Some 200" by code_simp
  then obtain h0 where h0: "rs_Sent (snd (demo_visit ''part'' [])) = Some (200, h0)" by auto
  have "fst (demo_visit ''part'' []) = None"
    "fst (demo_visit ''part'' (header_Get ''Etag'' (snd (the (rs_Sent (snd (demo_visit ''part'' []))))))) = None"
    "fst (demo_visit ''changed'' (header_Get ''Etag'' (snd (the (rs_Sent (snd (demo_visit ''part'' []))))))) = None"
    by code_simp+
  then have "fst (demo_visit p (header_Get ''Etag'' h0)) = None" if "p \<in> {''part'', ''changed''}" for p
    using h0 that by auto
  then have visit: "CacheablePage demo_libs (demo_module p) demo_response (demo_request (header_Get ''Etag'' h0)) ''m/p.page.tmpl'' ''d'' ''a'' [] =
      (None, snd (demo_visit p (header_Get ''Etag'' h0)))" if "p \<in> {''part'', ''changed''}" for p
    using that by (metis demo_visit_def prod.collapse)
  have first: "CacheablePage demo_libs (demo_module ''part'') demo_response (demo_request []) ''m/p.page.tmpl'' ''d'' ''a'' [] =
      (None, snd (demo_visit ''part'' []))"
    using \<open>fst (demo_visit ''part'' []) = None\<close> by (metis demo_visit_def prod.collapse)
  have etag: "header_Get ''If-None-Match'' (rq_Header (demo_request x)) = x" for x
    by (simp add: demo_request_def header_Get_Set)
  have iff: "(\<exists>h. rs_Sent (snd (demo_visit p (header_Get ''Etag'' h0))) = Some (304, h)) \<longleftrightarrow>
      list_all2 (alike (wl_murmur3 demo_libs)) (?s ''part'') (?s p)" if "p \<in> {''part'', ''changed''}" for p
    by (rule not_modified_iff_alike [OF tr _ first h0 tr _ etag visit [OF that]]) (simp_all add: demo_response_def)
  have "list_all2 (alike (wl_murmur3 demo_libs)) (?s ''part'') (?s ''part'')" by (simp add: list_all2_same alike_def)
  moreover have "\<not> list_all2 (alike (wl_murmur3 demo_libs)) (?s ''part'') (?s ''changed'')" by code_simp
  ultimately show ?thesis using h0 iff [of "''part''"] iff [of "''changed''"] by auto
qed

end
