(* ===== verification/Cache.thy ===== *)
theory Cache
  imports GoStrings
begin

text \<open>
  Marshalers (\<^verbatim>\<open>src/marshaling\<close>) and the client cache on top of Ristretto (\<^verbatim>\<open>src/clientcache\<close>). The encoders and
  the cache library are records of functions; a pointer that a decoder fills is a value that it returns.
\<close>

section \<open>Marshalers\<close>

record ('v, 'b) marshaler =
  Marshal :: "'v \<Rightarrow> error + 'b"
  Unmarshal :: "'b \<Rightarrow> 'v \<Rightarrow> error option \<times> 'v"

text \<open>
  The encoders of a library: \<open>enc\<close> writes a value to a buffer, \<open>dec\<close> reads one from a buffer. The MessagePack library
  takes the struct tag as an argument.
\<close>

definition Gob :: "('v \<Rightarrow> error + string) \<Rightarrow> (string \<Rightarrow> 'v \<Rightarrow> error option \<times> 'v) \<Rightarrow> ('v, string) marshaler" where
  "Gob enc dec =
     \<lparr>Marshal = (\<lambda>v. map_sum (Wrapped ''couldn't gob-encode value %#v'') id (enc v)),
      Unmarshal = (\<lambda>b r. map_prod (\<lambda>e. errors_Wrap e ''couldn't gob-decode type %T from bytes %+v'') id (dec b r))\<rparr>"

definition JSON :: "('v \<Rightarrow> error + string) \<Rightarrow> (string \<Rightarrow> 'v \<Rightarrow> error option \<times> 'v) \<Rightarrow> ('v, string) marshaler" where
  "JSON enc dec = \<lparr>Marshal = enc, Unmarshal = dec\<rparr>"

definition MessagePack ::
  "(string \<Rightarrow> 'v \<Rightarrow> error + string) \<Rightarrow> (string \<Rightarrow> string \<Rightarrow> 'v \<Rightarrow> error option \<times> 'v) \<Rightarrow> ('v, string) marshaler" where
  "MessagePack enc dec =
     \<lparr>Marshal = (\<lambda>v. map_sum (Wrapped ''couldn't msgpack-encode value %#v'') id (enc ''json'' v)),
      Unmarshal = (\<lambda>b r. map_prod (\<lambda>e. errors_Wrap e ''couldn't msgpack-decode type %T from bytes %+v'') id (dec ''json'' b r))\<rparr>"

section \<open>The cache\<close>

text \<open>What the cache can hold: bytes, the mark of a value that does not exist, or a value of another type.\<close>

datatype cache_value = Bytes string | Nonexistent | Unexpected string

text \<open>
  Ristretto, its state of type \<open>'c\<close>, with the conversions of a cost from its weight of type \<open>'w\<close> (a \<^verbatim>\<open>float32\<close>).
\<close>

record ('c, 'w) ristretto =
  rc_Set :: "string \<Rightarrow> cache_value \<Rightarrow> int \<Rightarrow> 'c \<Rightarrow> 'c"
  rc_SetWithTTL :: "string \<Rightarrow> cache_value \<Rightarrow> int \<Rightarrow> int \<Rightarrow> 'c \<Rightarrow> 'c"
  rc_Del :: "string \<Rightarrow> 'c \<Rightarrow> 'c"
  rc_Get :: "string \<Rightarrow> 'c \<Rightarrow> cache_value option \<times> 'c"
  float_product :: "'w \<Rightarrow> nat \<Rightarrow> int"
  float_to_int :: "'w \<Rightarrow> int"

record ('c, 'v) RistrettoCache =
  rcache :: 'c
  cmarshaler :: "('v, string) marshaler"

definition NewRistrettoCache ::
  "('g \<Rightarrow> error + 'c) \<Rightarrow> ('v, string) marshaler \<Rightarrow> 'g \<Rightarrow> error + ('c, 'v) RistrettoCache" where
  "NewRistrettoCache NewCache messagePack cacheConfig =
     (case NewCache cacheConfig of Inl e \<Rightarrow> Inl e | Inr cache \<Rightarrow> Inr \<lparr>rcache = cache, cmarshaler = messagePack\<rparr>)"

definition computeCacheCost :: "('c, 'w) ristretto \<Rightarrow> 'w \<Rightarrow> string \<Rightarrow> int" where
  "computeCacheCost R costWeight bytes = float_product R costWeight (length bytes)"

definition SetEntry ::
  "('c, 'w) ristretto \<Rightarrow> string \<Rightarrow> 'v \<Rightarrow> 'w \<Rightarrow> int \<Rightarrow> ('c, 'v) RistrettoCache \<Rightarrow> error option \<times> ('c, 'v) RistrettoCache" where
  "SetEntry R key val costWeight ttl c =
     (case Marshal (cmarshaler c) val of
        Inl e \<Rightarrow> (Some (Wrapped ''couldn't marshal value for key %s'' e), c)
      | Inr marshaled \<Rightarrow>
          (None, c\<lparr>rcache :=
             if ttl < 0 then rc_Set R key (Bytes marshaled) (computeCacheCost R costWeight marshaled) (rcache c)
             else rc_SetWithTTL R key (Bytes marshaled) (computeCacheCost R costWeight marshaled) ttl (rcache c)\<rparr>))"

definition UnsetEntry :: "('c, 'w) ristretto \<Rightarrow> string \<Rightarrow> ('c, 'v) RistrettoCache \<Rightarrow> ('c, 'v) RistrettoCache" where
  "UnsetEntry R key c = c\<lparr>rcache := rc_Del R key (rcache c)\<rparr>"

definition SetNonexistentEntry ::
  "('c, 'w) ristretto \<Rightarrow> string \<Rightarrow> 'w \<Rightarrow> int \<Rightarrow> ('c, 'v) RistrettoCache \<Rightarrow> ('c, 'v) RistrettoCache" where
  "SetNonexistentEntry R key cost ttl c = c\<lparr>rcache :=
     if ttl < 0 then rc_Set R key Nonexistent (float_to_int R cost) (rcache c)
     else rc_SetWithTTL R key Nonexistent (float_to_int R cost) ttl (rcache c)\<rparr>"

text \<open>The results: whether the key is in the cache, whether it has a value, the error; and the value filled in.\<close>

definition GetEntry ::
  "('c, 'w) ristretto \<Rightarrow> string \<Rightarrow> 'v \<Rightarrow> ('c, 'v) RistrettoCache \<Rightarrow>
   (bool \<times> bool \<times> error option) \<times> 'v \<times> ('c, 'v) RistrettoCache" where
  "GetEntry R key val c =
     (case rc_Get R key (rcache c) of
        (None, cache) \<Rightarrow> ((False, False, None), val, c\<lparr>rcache := cache\<rparr>)
      | (Some (Unexpected t), cache) \<Rightarrow>
          ((True, False, Some (Errorf ''cache entry %s has unexpected type %T'')), val, c\<lparr>rcache := cache\<rparr>)
      | (Some Nonexistent, cache) \<Rightarrow> ((True, False, None), val, c\<lparr>rcache := cache\<rparr>)
      | (Some (Bytes marshaledBytes), cache) \<Rightarrow>
          (case Unmarshal (cmarshaler c) marshaledBytes val of
             (Some e, val') \<Rightarrow> ((True, True, Some (Wrapped ''couldn't unmarshal value for key %s'' e)), val', c\<lparr>rcache := cache\<rparr>)
           | (None, val') \<Rightarrow> ((True, True, None), val', c\<lparr>rcache := cache\<rparr>)))"

section \<open>What the cache library promises\<close>

text \<open>
  Ristretto promises little: a \<^verbatim>\<open>Set\<close> may be dropped or take effect later, entries expire and are evicted, and a
  \<^verbatim>\<open>Get\<close> after a dropped \<^verbatim>\<open>Set\<close> may find an older value. But it makes no values up: what \<^verbatim>\<open>Get\<close> returns for a key has been
  passed to a \<^verbatim>\<open>Set\<close> for that key. \<open>passed c k\<close> are the values that may come back for the key \<open>k\<close>.
\<close>

definition cache_laws :: "('c, 'w) ristretto \<Rightarrow> ('c \<Rightarrow> string \<Rightarrow> cache_value set) \<Rightarrow> bool" where
  "cache_laws R passed \<longleftrightarrow>
     (\<forall>k v cost c j. passed (rc_Set R k v cost c) j \<subseteq> passed c j \<union> (if j = k then {v} else {})) \<and>
     (\<forall>k v cost ttl c j. passed (rc_SetWithTTL R k v cost ttl c) j \<subseteq> passed c j \<union> (if j = k then {v} else {})) \<and>
     (\<forall>k c j. passed (rc_Del R k c) j \<subseteq> passed c j) \<and>
     (\<forall>k c j. passed (snd (rc_Get R k c)) j \<subseteq> passed c j) \<and>
     (\<forall>k c v. fst (rc_Get R k c) = Some v \<longrightarrow> v \<in> passed c k)"

lemma cache_lawsD:
  assumes "cache_laws R passed"
  shows "passed (rc_Set R k v cost c) j \<subseteq> passed c j \<union> (if j = k then {v} else {})"
    and "passed (rc_SetWithTTL R k v cost ttl c) j \<subseteq> passed c j \<union> (if j = k then {v} else {})"
    and "passed (rc_Del R k c) j \<subseteq> passed c j"
    and "rc_Get R k c = (x, c') \<Longrightarrow> passed c' j \<subseteq> passed c j"
    and "rc_Get R k c = (Some v, c') \<Longrightarrow> v \<in> passed c k"
  using assms unfolding cache_laws_def by (metis fst_conv snd_conv)+

section \<open>Runs of the cache\<close>

datatype ('v, 'w) cache_op =
    OpSet string 'v 'w int
  | OpUnset string
  | OpNonexistent string 'w int
  | OpGet string 'v

fun cache_step :: "('c, 'w) ristretto \<Rightarrow> ('v, 'w) cache_op \<Rightarrow> ('c, 'v) RistrettoCache \<Rightarrow> ('c, 'v) RistrettoCache" where
  "cache_step R (OpSet k v cost ttl) c = snd (SetEntry R k v cost ttl c)"
| "cache_step R (OpUnset k) c = UnsetEntry R k c"
| "cache_step R (OpNonexistent k cost ttl) c = SetNonexistentEntry R k cost ttl c"
| "cache_step R (OpGet k v) c = snd (snd (GetEntry R k v c))"

definition cache_run :: "('c, 'w) ristretto \<Rightarrow> ('v, 'w) cache_op list \<Rightarrow> ('c, 'v) RistrettoCache \<Rightarrow> ('c, 'v) RistrettoCache" where
  "cache_run R ops c = foldl (\<lambda>c op. cache_step R op c) c ops"

text \<open>What the operations have passed to the library for a key.\<close>

definition requested :: "('v, string) marshaler \<Rightarrow> ('v, 'w) cache_op list \<Rightarrow> string \<Rightarrow> cache_value set" where
  "requested M ops k =
     {Bytes b | b. \<exists>v cost ttl. OpSet k v cost ttl \<in> set ops \<and> Marshal M v = Inr b} \<union>
     {Nonexistent | cost ttl. OpNonexistent k cost ttl \<in> set ops}"

lemma requested_mono: "set ops \<subseteq> set ops' \<Longrightarrow> requested M ops k \<subseteq> requested M ops' k"
  unfolding requested_def by blast

lemma GetEntry_marshaler [simp]: "cmarshaler (snd (snd (GetEntry R k v c))) = cmarshaler c"
  by (auto simp: GetEntry_def split: prod.splits option.splits cache_value.splits)

lemma cache_step_marshaler [simp]: "cmarshaler (cache_step R op c) = cmarshaler c"
  by (cases op) (auto simp: SetEntry_def UnsetEntry_def SetNonexistentEntry_def split: sum.splits)

lemma cache_step_passed:
  assumes "cache_laws R passed"
  shows "passed (rcache (cache_step R op c)) k \<subseteq> passed (rcache c) k \<union> requested (cmarshaler c) [op] k"
proof (cases op)
  case (OpSet j v cost ttl)
  show ?thesis
  proof (cases "Marshal (cmarshaler c) v")
    case (Inr b)
    then have "requested (cmarshaler c) [op] k = (if k = j then {Bytes b} else {})"
      using OpSet by (auto simp: requested_def)
    then show ?thesis using OpSet Inr cache_lawsD(1,2) [OF assms, where k = j and v = "Bytes b" and j = k]
      by (cases "k = j") (simp_all add: SetEntry_def)
  qed (use OpSet in \<open>simp add: SetEntry_def\<close>)
next
  case (OpUnset j)
  then show ?thesis using cache_lawsD(3) [OF assms, of j "rcache c" k] by (auto simp: UnsetEntry_def)
next
  case (OpNonexistent j cost ttl)
  then have "requested (cmarshaler c) [op] k = (if k = j then {Nonexistent} else {})"
    by (auto simp: requested_def)
  then show ?thesis
    using OpNonexistent cache_lawsD(1,2) [OF assms, where k = j and v = Nonexistent and j = k]
    by (cases "k = j") (simp_all add: SetNonexistentEntry_def)
next
  case (OpGet j v)
  obtain x d where g: "rc_Get R j (rcache c) = (x, d)" by fastforce
  then have "rcache (snd (snd (GetEntry R j v c))) = d"
    by (auto simp: GetEntry_def split: option.splits cache_value.splits prod.splits)
  then show ?thesis using OpGet cache_lawsD(4) [OF assms g, of k] by auto
qed

lemma cache_run_passed:
  assumes "cache_laws R passed" and "\<forall>k. passed (rcache c) k = {}"
  shows "passed (rcache (cache_run R ops c)) k \<subseteq> requested (cmarshaler c) ops k \<and>
    cmarshaler (cache_run R ops c) = cmarshaler c"
proof (induction ops rule: rev_induct)
  case Nil
  then show ?case using assms(2) by (simp add: cache_run_def)
next
  case (snoc op ops)
  have "requested (cmarshaler c) [op] k \<subseteq> requested (cmarshaler c) (ops @ [op]) k"
      "requested (cmarshaler c) ops k \<subseteq> requested (cmarshaler c) (ops @ [op]) k"
    by (rule requested_mono; auto)+
  then show ?case
    using snoc cache_step_passed [OF assms(1), of op "cache_run R ops c" k] by (simp add: cache_run_def) blast
qed

lemma cache_run_Get:
  assumes "cache_laws R passed" and "\<forall>k. passed (rcache c) k = {}"
    and "rc_Get R k (rcache (cache_run R ops c)) = (Some x, d)"
  shows "x \<in> requested (cmarshaler c) ops k"
  using cache_lawsD(5) [OF assms(1,3)] cache_run_passed [OF assms(1,2)] by blast

section \<open>Properties\<close>

text \<open>
  Every entry that the cache returns is bytes or the mark for no value, whatever operations ran: starting with an empty
  cache, \<^verbatim>\<open>GetEntry\<close> never meets a value of an unexpected type.
\<close>

theorem cache_entries_well_typed:
  assumes "cache_laws R passed" and "\<forall>k. passed (rcache c) k = {}"
  shows "fst (GetEntry R k v (cache_run R ops c)) \<noteq> (True, False, Some err)"
proof -
  obtain x d where g: "rc_Get R k (rcache (cache_run R ops c)) = (x, d)" by fastforce
  show ?thesis
  proof (cases x)
    case (Some y)
    then have "y \<in> requested (cmarshaler c) ops k" using cache_run_Get [OF assms] g by blast
    then show ?thesis
      using g Some by (auto simp: requested_def GetEntry_def split: prod.splits option.splits)
  qed (simp add: GetEntry_def g)
qed

text \<open>
  (C17) The cache makes nothing up: after any operations on an empty cache, \<^verbatim>\<open>GetEntry\<close> either reports a miss and leaves
  the caller's value alone, or reports a value and fills in one that \<^verbatim>\<open>SetEntry\<close> was given for this very key, or reports that
  there is no value, if \<^verbatim>\<open>SetNonexistentEntry\<close> was called for this key; so a key that was never written is a miss. The
  library's promise does not allow more: it may drop a \<^verbatim>\<open>Set\<close>, and an older value then comes back.
\<close>

theorem cache_returns_what_was_set:
  assumes "cache_laws R passed" and "\<forall>k. passed (rcache c) k = {}"
    and "\<forall>v b r. Marshal (cmarshaler c) v = Inr b \<longrightarrow> Unmarshal (cmarshaler c) b r = (None, v)"
    and "GetEntry R k r (cache_run R ops c) = (res, r', c')"
  shows "res = (False, False, None) \<and> r' = r \<or>
    (\<exists>cost ttl. OpSet k r' cost ttl \<in> set ops \<and> res = (True, True, None)) \<or>
    (\<exists>cost ttl. OpNonexistent k cost ttl \<in> set ops \<and> res = (True, False, None) \<and> r' = r)"
proof -
  have m: "cmarshaler (cache_run R ops c) = cmarshaler c" using cache_run_passed [OF assms(1,2)] by blast
  obtain x d where g: "rc_Get R k (rcache (cache_run R ops c)) = (x, d)" by fastforce
  show ?thesis
  proof (cases x)
    case None
    with g assms(4) show ?thesis by (auto simp: GetEntry_def)
  next
    case (Some y)
    then have "y \<in> requested (cmarshaler c) ops k" using cache_run_Get [OF assms(1,2)] g by blast
    then show ?thesis using g Some m assms(3,4) by (fastforce simp: requested_def GetEntry_def)
  qed
qed

section \<open>A cache to run on\<close>

text \<open>A cache that keeps every entry but ignores every second \<^verbatim>\<open>Set\<close>; strings are their own encoding.\<close>

definition demo_ristretto :: "((string \<rightharpoonup> cache_value) \<times> bool, nat) ristretto" where
  "demo_ristretto =
     \<lparr>rc_Set = \<lambda>k v cost (c, drop). (if drop then c else c(k \<mapsto> v), \<not> drop),
      rc_SetWithTTL = \<lambda>k v cost ttl (c, drop). (if drop then c else c(k \<mapsto> v), \<not> drop), rc_Del = \<lambda>k (c, drop). (c(k := None), drop),
      rc_Get = \<lambda>k c. (fst c k, c), float_product = \<lambda>w n. int (w * n), float_to_int = int\<rparr>"

lemma demo_ristretto_laws: "cache_laws demo_ristretto (\<lambda>c k. set_option (fst c k))"
  by (auto simp: cache_laws_def demo_ristretto_def split: if_splits)

definition demo_cache :: "((string \<rightharpoonup> cache_value) \<times> bool, string) RistrettoCache" where
  "demo_cache = \<lparr>rcache = (Map.empty, False), cmarshaler = MessagePack (\<lambda>tag. Inr) (\<lambda>tag b r. (None, b))\<rparr>"

definition demo_ops :: "(string, nat) cache_op list" where
  "demo_ops = [OpSet ''b'' ''two'' 1 (-1), OpSet ''b'' ''three'' 1 60, OpSet ''a'' ''one'' 1 60]"

theorem cache_entries_well_typed_witness:
  "fst (GetEntry demo_ristretto ''a'' ''old'' (cache_run demo_ristretto demo_ops demo_cache)) \<noteq>
    (True, False, Some (Errorf ''cache entry %s has unexpected type %T''))"
  using cache_entries_well_typed [OF demo_ristretto_laws, of demo_cache] by (simp add: demo_cache_def)

text \<open>The second \<^verbatim>\<open>Set\<close> for the key \<open>b\<close> is dropped and the first one comes back.\<close>

theorem cache_returns_what_was_set_witness:
  "fst (snd (GetEntry demo_ristretto ''b'' ''old'' (cache_run demo_ristretto demo_ops demo_cache))) \<in> {''two'', ''three''} \<and>
    fst (fst (GetEntry demo_ristretto ''b'' ''old'' (cache_run demo_ristretto demo_ops demo_cache)))"
proof -
  obtain res r' c' where g: "GetEntry demo_ristretto ''b'' ''old'' (cache_run demo_ristretto demo_ops demo_cache) = (res, r', c')"
    by (metis prod.collapse)
  have hit: "fst (fst (GetEntry demo_ristretto ''b'' ''old'' (cache_run demo_ristretto demo_ops demo_cache)))" by code_simp
  with cache_returns_what_was_set [OF demo_ristretto_laws _ _ g] g show ?thesis
    by (auto simp: demo_cache_def MessagePack_def demo_ops_def)
qed

end
