(* ===== verification/Spec2Isabelle.thy ===== *)
theory Spec2Isabelle
  imports Delivery Handshake HandlerContext Serve SessionClient OpaFiles Renderer Cache
begin

text \<open>
  A verification development for godest, a Go framework for web applications that work with Hotwire: a
  publish-subscribe broker that renders Turbo Streams, Action Cable connections that carry them to browsers,
  template rendering with entity tags, sessions in SQLite, policies translated to SQL, and the configuration of
  all of these from the environment.

  \<^bold>\<open>The parts and how they interact.\<close> A browser opens an Action Cable connection
  (\<^verbatim>\<open>src/actioncable/connections.go\<close>). The commands it sends go to a dispatcher
  (\<^verbatim>\<open>src/actioncable/channels.go\<close>), which checks the identifier of a subscription (signed names, CSRF) and makes a
  channel for it. The Turbo Streams channel (\<^verbatim>\<open>src/turbostreams/actioncable-channel.go\<close>) subscribes to a topic of
  the broker (\<^verbatim>\<open>src/turbostreams/pubsub.go\<close>, \<^verbatim>\<open>src/pubsub/broker.go\<close>), which routes SUB, UNSUB, PUB and MSG events to
  handlers (\<^verbatim>\<open>src/pubsub/broker-router.go\<close>) and keeps the subscriptions in the hub (\<^verbatim>\<open>src/pubsub/hub.go\<close>). The hub
  reports the topics that gain or lose their subscribers, and \<^verbatim>\<open>Broker.Serve\<close> starts and cancels the publishers of
  those topics. Handlers render messages with the template renderer (\<^verbatim>\<open>src/template-rendering.go\<close>), which also
  serves pages. Sessions (\<^verbatim>\<open>src/session\<close>) live in the database (\<^verbatim>\<open>src/database\<close>); policies (\<^verbatim>\<open>src/opa\<close>) are
  evaluated, or left as conditions that become SQL statements for the same database.

  \<^bold>\<open>Which theory models what.\<close>

  \<^item> \<open>Prelude\<close>: error values (\<open>error\<close>, with \<open>None\<close> for nil), calls that may panic or not return (\<open>go\<close>), the
    longest-common-prefix loop. \<open>GoContext\<close>: cancellation contexts as paths in a tree with the set of the
    cancelled ones; the locale \<open>cancellation\<close> states what its users rely on. \<open>GoStrings\<close>: decimal notation,
    splitting, Base64.
  \<^item> \<open>Hub\<close>: \<^verbatim>\<open>pubsub/hub.go\<close> under its lock, a record with the map of topics, the events emitted and the
    watchers (the goroutine of each subscription); \<open>hub_step\<close> and \<open>hub_run\<close> are its runs. \<open>HubLock\<close>: the goroutines on
    the \<^verbatim>\<open>sync.RWMutex\<close>, with \<^verbatim>\<open>Broadcast\<close> and its parallel receivers as a step relation, in which contexts may be
    cancelled at any time; a receiver is a function of the message and of the contexts when it runs, and gives its error
    and the contexts that it cancels (\<open>ReceiveFunc\<close>). \<open>Delivery\<close>: what a \<^verbatim>\<open>Broadcast\<close> has delivered when it returns.
  \<^item> \<open>Router\<close>: the radix tree and \<^verbatim>\<open>Add\<close>; \<open>RouterInv\<close> its invariant and \<open>RouterAdd\<close> the refinement of a route
    table (locale \<open>route_table\<close>). \<open>RouterFind\<close>: \<^verbatim>\<open>Find\<close>, its three labelled blocks with their gotos and the
    backtracking; \<open>RouterSearch\<close> proves it equal to a reference search and \<open>RouterMatch\<close> states what it guarantees.
  \<^item> \<open>Broker\<close>: handlers, middleware, the triggers, \<^verbatim>\<open>Subscribe\<close> and \<^verbatim>\<open>Serve\<close> on hub and router (locale
    \<open>topic_router\<close>). A publisher is the goroutine of a PUB handler with its context, which only \<^verbatim>\<open>Serve\<close> cancels; it stays
    in the list when the handler has returned, marked as such. \<open>Handshake\<close>: the same with the unbuffered channel on
    which the hub and \<^verbatim>\<open>Serve\<close> meet and with the readers of the hub's lock, a refinement of the runs of \<open>Broker\<close>,
    where events queue up. \<open>HandlerContext\<close>: what handlers can read, and that their parameters are those of the topic.
  \<^item> \<open>Handling\<close>: the loops of \<^verbatim>\<open>src/handling\<close>, driven by the cases that their selects take.
  \<^item> \<open>Cable\<close>: messages, cancellers, the commands of a connection, its reading, writing and closing (locale
    \<open>cable_handler\<close>). \<open>Serve\<close>: the two goroutines of \<^verbatim>\<open>Conn.Serve\<close> as a step relation. \<open>SignedNames\<close> and \<open>Dispatcher\<close>:
    identifiers and channels (locale \<open>channel_world\<close>, which gives \<open>cable_handler\<close> for the dispatcher). \<open>TurboStreams\<close>:
    the broker and the channel on top of these, and their composition: \<open>streams_run\<close> runs a connection on the broker and
    keeps the subscriptions that the hub got while the connection processed its own commands.
  \<^item> \<open>Env\<close> and \<open>Config\<close>: parsing of the environment and the configurations read from it, with integers at their
    widths; the authentication client.
  \<^item> \<open>Database\<close>: file systems, migrations, connection pools and statements. \<open>SessionStore\<close>: the store of sessions, every
    operation of \<^verbatim>\<open>session/sqlitestore\<close>; \<open>SessionTable\<close>: the queries as functions on a table, and runs of the store;
    \<open>SessionClient\<close>: the store of an application over any backing store (locale \<open>session_backing\<close>).
  \<^item> \<open>OpaSql\<close>: the translation of Rego queries to SQL, with the meaning of both sides. \<open>OpaClient\<close>: evaluation of
    policies, their input and modules; \<open>OpaFiles\<close>: writing a module to a file, with the path functions of Go, and
    where the file goes.
  \<^item> \<open>Web\<close>: headers, entity tags, fingerprints, static files, \<^verbatim>\<open>src/middleware\<close> and \<^verbatim>\<open>src/httperr\<close>. \<open>Templates\<close>:
    kinds of template files, walks, parsing into template sets, fingerprints of the embedded files. \<open>Renderer\<close>: the
    template renderer. \<open>Cache\<close>: \<^verbatim>\<open>src/marshaling\<close> and \<^verbatim>\<open>src/clientcache\<close>.

  \<^bold>\<open>How state and operations are modelled.\<close> A struct is a record, a method a function on it that returns the record
  updated; an error is \<open>error option\<close> or the left side of a sum; a panic is a value of type \<open>panic\<close>. Maps whose order
  the code can observe are association lists. Goroutines are steps of an inductive relation, or functions that the
  runs of a component may apply at any time (the watchers of the hub, the publishers of the broker). Names follow the
  source; where several types have a method of one name, the type precedes it (\<open>hub_Subscribe\<close>, \<open>broker_Subscribe\<close>).

  \<^bold>\<open>What the groups of lemmas show.\<close> Invariants of the hub, the router tree, the broker, the connection and the pools,
  each preserved by every operation; the refinement of a route table by \<^verbatim>\<open>Add\<close> and of a reference search by
  \<^verbatim>\<open>Find\<close>; that the emitted events replay to the topics with subscribers, and that \<^verbatim>\<open>Serve\<close> has a live publisher
  for exactly these, releases every goroutine that waits for it, and returns when its context is done and no
  \<^verbatim>\<open>Broadcast\<close> fails; delivery of messages exactly once; that closing a connection ends its streams, across five components; that saved sessions are loaded and deleted or expired ones never come back; that the SQL statement made
  of a policy holds for the rows that the policy admits; that a page is answered with \<^verbatim>\<open>304\<close> only for equal fingerprints;
  round trips of encodings, signatures, keys and cache entries. Several theorems state defects: what the code does
  there differs from what it means to do, such as the deadlock of \<^verbatim>\<open>Broadcast\<close> after a failed receiver or a cancelled
  subscription (\<open>Delivery\<close>), which hangs \<^verbatim>\<open>Serve\<close> too (\<open>Handshake\<close>).

  \<^bold>\<open>Bounds and fuel.\<close> The only fuel is that of the router's search, \<open>find_fuel\<close>: three times the number of nodes, since
  each node is entered at most once in each of three blocks; \<open>router_Find_decides\<close> shows that the search ends within it. Loops over
  external events (\<open>Repeat\<close>, \<open>Consume\<close>, the receiving loop of a connection) take the list of their events, and
  return \<open>None\<close> while they still wait. All other recursions are structural or have a measure.

  \<^bold>\<open>Parameters.\<close> Code that is not part of the repository is an argument of the definitions that use it: the Gorilla
  websocket connection and the codec, the JSON, Gob and MessagePack encoders, HMAC, argon2id and the hash functions, the
  securecookie and session registry libraries, the SQLite library, the Rego evaluator, Ristretto, the parser and
  executor of \<^verbatim>\<open>html/template\<close>, glob matching, URL parsing, float conversions, file systems by what walking and
  opening them give, and the readings of clocks and random sources. What a theorem needs of them is a named
  hypothesis, which a concrete instance satisfies in the theorem's witness: \<open>pool_laws\<close> and \<open>sessions_sql\<close> for SQLite,
  \<open>decodes\<close> for the cookie codecs, \<open>reads_work\<close> and \<open>files_readable\<close> where a load is to succeed, and \<open>cache_laws\<close>, which
  only says that Ristretto returns for a key some value once passed to it for this key: it may drop a \<^verbatim>\<open>Set\<close>.
  The stores and tables that these instances use are named \<open>demo_\<close>.

  \<^bold>\<open>Interfaces.\<close> \<open>cancellation\<close> is interpreted on \<open>GoContext\<close>, \<open>route_table\<close> on the router, \<open>topic_router\<close> on \<^verbatim>\<open>Find\<close>,
  \<open>channel_world\<close> on the broker, from where it gives \<open>cable_handler\<close>, and \<open>session_backing\<close> on the SQLite store.

  \<^bold>\<open>Not modelled.\<close> The text of SQL statements has a definition, while the theorems on policies speak of the meaning of
  their parts. Responses have statuses that allow a body. Logging, except where it calls a handler; the reflection that finds the name of a handler; the
  interfaces of \<^verbatim>\<open>src/echo.go\<close>. Integer overflow is modelled where the code multiplies or parses
  at a fixed width (\<open>Env\<close>, \<open>Config\<close>), and left out for counters that only grow.
\<close>

end
